(* ===== verification/Crypto_Prelude.thy ===== *)
theory Crypto_Prelude
  imports Main "HOL-Library.Word"
begin

text \<open>
  Prelude of the development: the lemma collections, the signed reading of machine words
  that every C component uses, lists of a known length, little-endian byte strings and
  congruences written with \<open>mod\<close>.
\<close>

unbundle bit_operations_syntax

named_theorems sint_simps \<open>signed readings of word operations\<close>
named_theorems len_simps \<open>lengths of arrays after an operation\<close>

type_synonym u8 = "8 word"
type_synonym i32 = "32 word"
type_synonym i64 = "64 word"

section \<open>Signed machine integers\<close>

text \<open>A value that a two's complement integer of \<open>W\<close> bits can hold.\<close>

definition fits :: "nat \<Rightarrow> int \<Rightarrow> bool" where
  "fits W x \<longleftrightarrow> - (2 ^ (W - 1)) \<le> x \<and> x < 2 ^ (W - 1)"

lemma fits_sint [simp, intro]: "fits LENGTH('a) (sint (w :: 'a::len word))"
  unfolding fits_def using sint_greater_eq [of w] sint_less [of w] by simp

lemma sint_of_int: "fits LENGTH('a) x \<Longrightarrow> sint (word_of_int x :: 'a::len word) = x"
  unfolding fits_def by (simp add: sint_sbintrunc' signed_take_bit_int_eq_self)

lemma word_as_sint: "(w :: 'a::len word) = word_of_int (sint w)"
  by simp

lemma sint_add [sint_simps]:
  "fits LENGTH('a) (sint v + sint w) \<Longrightarrow> sint (v + w :: 'a::len word) = sint v + sint w"
  using sint_of_int [where 'a='a, of "sint v + sint w"] by simp

lemma sint_sub [sint_simps]:
  "fits LENGTH('a) (sint v - sint w) \<Longrightarrow> sint (v - w :: 'a::len word) = sint v - sint w"
  using sint_of_int [where 'a='a, of "sint v - sint w"] by simp

lemma sint_mult [sint_simps]:
  "fits LENGTH('a) (sint v * sint w) \<Longrightarrow> sint (v * w :: 'a::len word) = sint v * sint w"
  using sint_of_int [where 'a='a, of "sint v * sint w"] by simp

lemma sint_mult_const:
  "fits LENGTH('a) (sint w * k) \<Longrightarrow> sint (w * word_of_int k :: 'a::len word) = sint w * k"
  using sint_of_int [where 'a='a, of "sint w * k"] by simp

lemma sint_neg [sint_simps]:
  "fits LENGTH('a) (- sint w) \<Longrightarrow> sint (- w :: 'a::len word) = - sint w"
  using sint_of_int [where 'a='a, of "- sint w"] by simp

lemma sint_shift_right: "sint (signed_drop_bit b w :: 'a::len word) = sint w div 2 ^ b"
  by (simp add: sint_signed_drop_bit_eq drop_bit_eq_div)

lemma push_bit_as_mult: "push_bit b (w :: 'a::len word) = w * word_of_int (2 ^ b)"
  by (simp add: push_bit_eq_mult)

lemma sint_shift_left:
  "fits LENGTH('a) (sint w * 2 ^ b) \<Longrightarrow> sint (push_bit b w :: 'a::len word) = sint w * 2 ^ b"
  by (simp only: push_bit_as_mult sint_mult_const)

lemma sint_of_int_32: "fits 32 x \<Longrightarrow> sint (word_of_int x :: i32) = x"
  using sint_of_int [where 'a=32, of x] by simp

lemma sint_of_int_64: "fits 64 x \<Longrightarrow> sint (word_of_int x :: i64) = x"
  using sint_of_int [where 'a=64, of x] by simp

lemma sint_add_64: "fits 64 (sint v + sint w) \<Longrightarrow> sint (v + w :: i64) = sint v + sint w"
  using sint_add [where 'a=64, of v w] by simp

lemma fits_trans: "fits W a \<Longrightarrow> fits W b \<Longrightarrow> a \<le> x \<Longrightarrow> x \<le> b \<Longrightarrow> fits W x"
  by (auto simp: fits_def)

section \<open>Arrays\<close>

lemma length_Suc_obtain:
  assumes "length xs = Suc n" obtains y ys where "xs = y # ys" and "length ys = n"
  using assms by (cases xs) auto

lemma sum_lessThan_update:
  assumes "i < length xs"
  shows "(\<Sum>j<length xs. w j * (xs[i := v]) ! j) =
    (\<Sum>j<length xs. w j * xs ! j) + w i * (v - (xs ! i :: int))"
proof -
  have fin: "finite {..<length xs}" and mem: "i \<in> {..<length xs}" using assms by auto
  have "(\<Sum>j\<in>{..<length xs} - {i}. w j * (xs[i := v]) ! j) =
    (\<Sum>j\<in>{..<length xs} - {i}. w j * xs ! j)"
    by (rule sum.cong) auto
  then show ?thesis
    using sum.remove [OF fin mem, of "\<lambda>j. w j * (xs[i := v]) ! j"]
      sum.remove [OF fin mem, of "\<lambda>j. w j * xs ! j"] assms
    by (simp add: algebra_simps)
qed

section \<open>Little-endian byte strings\<close>

lemma u8_bounds: "0 \<le> uint (b :: u8)" "uint (b :: u8) < 256"
  using uint_lt2p [of b] by simp_all

fun le_value :: "u8 list \<Rightarrow> int" where
  "le_value [] = 0"
| "le_value (b # bs) = uint b + 256 * le_value bs"

lemma le_value_nonneg [simp]: "0 \<le> le_value bs"
  by (induction bs) auto

lemma le_value_bound: "le_value bs < 256 ^ length bs"
proof (induction bs)
  case (Cons b bs)
  have "uint b < 256" using uint_lt2p [of b] by simp
  with Cons show ?case by simp
qed simp

lemma le_value_append: "le_value (xs @ ys) = le_value xs + 256 ^ length xs * le_value ys"
  by (induction xs) (auto simp: algebra_simps)

lemma le_value_inj:
  "length xs = length ys \<Longrightarrow> le_value xs = le_value ys \<Longrightarrow> xs = ys"
proof (induction xs ys rule: list_induct2)
  case (Cons x xs y ys)
  have b: "uint x < 256" "uint y < 256" using uint_lt2p [of x] uint_lt2p [of y] by simp_all
  from Cons.prems have "(uint x + 256 * le_value xs) mod 256 = (uint y + 256 * le_value ys) mod 256"
    by simp
  with b have "uint x = uint y" by (simp add: mod_pos_pos_trivial)
  moreover from this Cons.prems have "le_value xs = le_value ys" by simp
  ultimately show ?case using Cons.IH by (simp add: word_uint_eq_iff)
qed simp

fun le_bytes :: "nat \<Rightarrow> int \<Rightarrow> u8 list" where
  "le_bytes 0 v = []"
| "le_bytes (Suc n) v = of_int v # le_bytes n (v div 256)"

lemma length_le_bytes [simp]: "length (le_bytes n v) = n"
  by (induction n arbitrary: v) simp_all

lemma le_value_le_bytes: "le_value (le_bytes n v) = v mod 256 ^ n"
proof (induction n arbitrary: v)
  case (Suc n)
  have "uint (of_int v :: u8) = v mod 256" by (simp add: uint_word_of_int)
  then show ?case using Suc by (simp add: zmod_zmult2_eq)
qed simp

lemma le_bytes_le_value: "length bs = n \<Longrightarrow> le_bytes n (le_value bs) = bs"
  using le_value_bound [of bs] by (intro le_value_inj) (simp_all add: le_value_le_bytes mod_pos_pos_trivial)

lemma le_value_take: "le_value (take n s) = le_value s mod 256 ^ n"
proof (cases "n \<le> length s")
  case True
  have "le_value s = le_value (take n s) + 256 ^ n * le_value (drop n s)"
    using True le_value_append [of "take n s" "drop n s"] by (simp add: min_absorb2)
  moreover have "le_value (take n s) < 256 ^ n"
    using le_value_bound [of "take n s"] True by (simp add: min_absorb2)
  ultimately show ?thesis by (simp add: mod_pos_pos_trivial)
next
  case False
  then have "le_value s < 256 ^ n"
    using le_value_bound [of s] power_increasing [of "length s" n "256 :: int"]
    by (meson less_imp_le not_le order_less_le_trans one_le_numeral)
  with False show ?thesis by (simp add: mod_pos_pos_trivial)
qed

lemma le_value_replicate_255: "le_value (replicate n 255) = 256 ^ n - 1"
  by (induction n) simp_all

lemma le_value_drop: "le_value (drop k s) = le_value s div 256 ^ k"
proof (induction k arbitrary: s)
  case (Suc k)
  have "(uint b + 256 * v) div 256 = v" for b :: u8 and v
    using uint_lt2p [of b] by (simp add: div_pos_pos_trivial)
  with Suc show ?case by (cases s) (simp_all add: zdiv_zmult2_eq)
qed simp

lemma mod_split_pow: "(x :: int) mod 2 ^ (m + n) = x mod 2 ^ m + 2 ^ m * (x div 2 ^ m mod 2 ^ n)"
  by (simp add: power_add zmod_zmult2_eq)

lemma mod_split_at:
  "k = m + n \<Longrightarrow> (x :: int) mod 2 ^ k = x mod 2 ^ m + 2 ^ m * (x div 2 ^ m mod 2 ^ n)"
  by (simp only: mod_split_pow)

section \<open>Packing limbs into bytes\<close>

text \<open>
  The C stores a limb by shifts, and a byte that two limbs share by
  \<open>(lo >> k) | (hi << j)\<close>. These lemmas read such bytes as numbers.
\<close>

lemma or_shift_add:
  assumes "uint (a :: 'a::len word) < 2 ^ k"
  shows "a OR push_bit k b = a + push_bit k b"
proof -
  have "take_bit k a = a"
    using assms by (simp add: word_uint_eq_iff unsigned_take_bit_eq take_bit_int_eq_self)
  then have "\<not> bit a n \<or> \<not> bit (push_bit k b) n" for n
    by (metis bit_push_bit_iff bit_take_bit_iff linorder_not_le)
  then show ?thesis by (intro disjunctive_add [symmetric])
qed

lemma or_join:
  assumes "0 \<le> x" "x < 2 ^ k"
  shows "(word_of_int x :: 'a::len word) OR push_bit k (word_of_int y) =
    word_of_int (x + 2 ^ k * y)"
proof -
  have "uint (word_of_int x :: 'a word) \<le> x"
    using assms by (simp add: uint_word_of_int zmod_le_nonneg_dividend)
  with assms show ?thesis by (subst or_shift_add) (simp_all add: push_bit_eq_mult mult.commute)
qed

lemma and_mask_int:
  "(word_of_int x :: 'a::len word) AND word_of_int (2 ^ n - 1) = word_of_int (x mod 2 ^ n)"
proof -
  have "(word_of_int x :: 'a word) AND word_of_int (mask n) = word_of_int (x AND mask n)"
    by transfer simp
  moreover have "x AND mask n = x mod 2 ^ n"
    by (simp flip: take_bit_eq_mask take_bit_eq_mod)
  ultimately show ?thesis by (simp add: mask_eq_exp_minus_1)
qed

lemma byte_of_int:
  assumes "8 \<le> LENGTH('a)"
  shows "uint (ucast (word_of_int x :: 'a::len word) :: u8) = x mod 256"
proof -
  have "(ucast (word_of_int x :: 'a word) :: u8) = word_of_int x"
    using assms by (intro ucast_down_wi) (simp_all add: is_down)
  then show ?thesis by (simp only: uint_word_of_int) simp
qed

lemma byte_of_limb:
  "8 \<le> LENGTH('a) \<Longrightarrow> uint (ucast (h :: 'a::len word) :: u8) = sint h mod 256"
  using byte_of_int [where 'a='a, of "sint h"] by simp

lemma sint_uint_small:
  assumes "0 \<le> sint (w :: 'a::len word)"
  shows "uint w = sint w"
proof -
  have "sint w < 2 ^ LENGTH('a)"
    using sint_less [of w] by (rule order_less_le_trans) simp
  with assms show ?thesis by (simp add: uint_sint take_bit_int_eq_self)
qed

lemma div_less_power:
  assumes x: "x < 2 ^ (k + j)"
  shows "x div 2 ^ k < (2 :: int) ^ j"
proof (rule ccontr)
  assume "\<not> x div 2 ^ k < 2 ^ j"
  then have "2 ^ k * 2 ^ j \<le> 2 ^ k * (x div 2 ^ k)" by (intro mult_left_mono) simp_all
  also have "\<dots> \<le> x"
    by (simp add: minus_mod_eq_mult_div [symmetric])
  finally show False using x by (simp add: power_add)
qed

lemma byte_shared:
  fixes lo hi :: "'a::len word"
  assumes "8 \<le> LENGTH('a)" "0 \<le> sint lo" "sint lo < 2 ^ (k + j)"
  shows "uint (ucast (signed_drop_bit k lo OR push_bit j hi) :: u8) =
    (sint lo div 2 ^ k + 2 ^ j * sint hi) mod 256"
proof -
  let ?a = "signed_drop_bit k lo"
  have a: "sint ?a = sint lo div 2 ^ k" by (rule sint_shift_right)
  have "0 \<le> sint ?a" using assms a by (simp add: pos_imp_zdiv_nonneg_iff)
  then have "uint ?a = sint ?a" by (rule sint_uint_small)
  moreover have "sint ?a < 2 ^ j"
    using div_less_power [OF assms(3)] a by simp
  ultimately have "?a OR push_bit j hi = ?a + push_bit j hi" by (intro or_shift_add) simp
  also have "\<dots> = word_of_int (sint ?a + 2 ^ j * sint hi)"
    by (simp add: push_bit_eq_mult mult.commute)
  finally have w: "?a OR push_bit j hi = word_of_int (sint ?a + 2 ^ j * sint hi)" .
  show ?thesis unfolding w byte_of_int [OF assms(1)] a ..
qed

lemma div_split: "0 < a \<Longrightarrow> (x :: int) div a = (x div a) mod 256 + 256 * (x div (a * 256))"
  using mult_div_mod_eq [of 256 "x div a"] by (simp add: zdiv_zmult2_eq)

lemma mod_shared:
  assumes "0 \<le> t" "t < c" "c * d = 256" "0 < d"
  shows "(t + c * h) mod 256 = t + c * (h mod (d :: int))"
proof -
  have "(t + c * h) mod (c * d) = c * ((t + c * h) div c mod d) + (t + c * h) mod c"
    using assms by (intro zmod_zmult2_eq) simp
  with assms show ?thesis by (simp add: mod_pos_pos_trivial div_pos_pos_trivial)
qed

section \<open>Nested divisions\<close>

lemma div_chain: "0 < a \<Longrightarrow> 0 < b \<Longrightarrow> (y + x div a) div b = (x + a * y) div (a * (b :: int))"
  by (simp add: zdiv_zmult2_eq add.commute)

end
