(* ===== verification/Limb_Machine.thy ===== *)
theory Limb_Machine
  imports Crypto_Prelude
begin

text \<open>
  Arithmetic on arrays of signed limbs, the core of the C files fe_*.c, sc_*.c and
  curve25519-donna.c. Those files are long runs of a few kinds of statements on the limbs of
  one array:
  \<^item> a carry, \<open>c = (s[i] + r) >> b; s[d] += c * k; s[i] -= c << b\<close>, or one whose \<open>c\<close> is
    the quotient rounded towards zero, or taken from negative limbs only;
  \<^item> a fold of a high limb into lower ones, \<open>s[d] += s[i] * k; \<dots>; s[i] = 0\<close>.
  Such a run is a list of steps here, in the order of the C statements, and its meaning on
  machine words (\<open>run_w\<close>, wrapping as the compiled code does) is compared with its meaning
  on exact integers where every intermediate is checked against the C type (\<open>run_z\<close>,
  \<open>None\<close> for a signed overflow). An interval analysis (\<open>run_i\<close>) shows that no overflow can
  happen, and a locale derives from it that the run keeps the value of the array modulo
  the field's or the group's prime.
\<close>

section \<open>Steps\<close>

datatype limb_step =
  Carry nat nat int "(nat \<times> int) list"
    \<comment> \<open>source limb, shift, rounding constant, targets of the carry with their factors\<close>
| Trunc nat nat "(nat \<times> int) list"
    \<comment> \<open>source limb, shift, targets; the quotient is rounded towards zero\<close>
| Borrow nat nat "(nat \<times> int) list"
    \<comment> \<open>source limb, shift, targets; only from a negative limb\<close>
| Fold nat "(nat \<times> int) list"
    \<comment> \<open>source limb, targets with their factors; the source becomes 0\<close>

text \<open>On machine words: two's complement, wrapping.\<close>

fun add_to_w :: "'a::len word \<Rightarrow> (nat \<times> int) list \<Rightarrow> 'a word list \<Rightarrow> 'a word list" where
  "add_to_w c [] s = s"
| "add_to_w c ((d, k) # ts) s = add_to_w c ts (s[d := s ! d + c * word_of_int k])"

definition move_w :: "'a::len word \<Rightarrow> nat \<Rightarrow> nat \<Rightarrow> (nat \<times> int) list \<Rightarrow> 'a word list \<Rightarrow> 'a word list" where
  "move_w c i b ts s = (let s' = add_to_w c ts s in s'[i := s' ! i - push_bit b c])"

text \<open>What is added to a negative number to round its quotient by \<open>2^b\<close> towards zero.\<close>

definition roundoff :: "nat \<Rightarrow> int \<Rightarrow> int" where
  "roundoff b x = (if x < 0 then 2 ^ b - 1 else 0)"

fun step_w :: "limb_step \<Rightarrow> 'a::len word list \<Rightarrow> 'a word list" where
  "step_w (Carry i b r ts) s = move_w (signed_drop_bit b (s ! i + word_of_int r)) i b ts s"
| "step_w (Trunc i b ts) s =
     move_w (signed_drop_bit b (s ! i + word_of_int (roundoff b (sint (s ! i))))) i b ts s"
| "step_w (Borrow i b ts) s =
     move_w (if sint (s ! i) < 0 then signed_drop_bit b (s ! i) else 0) i b ts s"
| "step_w (Fold i ts) s = (add_to_w (s ! i) ts s)[i := 0]"

fun run_w :: "limb_step list \<Rightarrow> 'a::len word list \<Rightarrow> 'a word list" where
  "run_w [] s = s"
| "run_w (x # p) s = run_w p (step_w x s)"

text \<open>On exact integers, with every intermediate checked against a \<open>W\<close>-bit signed type.\<close>

fun add_to_z :: "nat \<Rightarrow> int \<Rightarrow> (nat \<times> int) list \<Rightarrow> int list \<Rightarrow> int list option" where
  "add_to_z W c [] s = Some s"
| "add_to_z W c ((d, k) # ts) s =
     (if fits W (c * k) \<and> fits W (s ! d + c * k)
      then add_to_z W c ts (s[d := s ! d + c * k]) else None)"

definition move_z :: "nat \<Rightarrow> int \<Rightarrow> nat \<Rightarrow> nat \<Rightarrow> (nat \<times> int) list \<Rightarrow> int list \<Rightarrow> int list option" where
  "move_z W c i b ts s =
     (if fits W (c * 2 ^ b) \<and> fits W (s ! i - c * 2 ^ b)
      then (case add_to_z W c ts s of
              None \<Rightarrow> None
            | Some s' \<Rightarrow> Some (s'[i := s ! i - c * 2 ^ b]))
      else None)"

fun step_z :: "nat \<Rightarrow> limb_step \<Rightarrow> int list \<Rightarrow> int list option" where
  "step_z W (Carry i b r ts) s =
     (if fits W (s ! i + r) then move_z W ((s ! i + r) div 2 ^ b) i b ts s else None)"
| "step_z W (Trunc i b ts) s =
     (let t = s ! i + roundoff b (s ! i)
      in if fits W t then move_z W (t div 2 ^ b) i b ts s else None)"
| "step_z W (Borrow i b ts) s = move_z W (if s ! i < 0 then s ! i div 2 ^ b else 0) i b ts s"
| "step_z W (Fold i ts) s =
     (case add_to_z W (s ! i) ts s of None \<Rightarrow> None | Some s' \<Rightarrow> Some (s'[i := 0]))"

fun run_z :: "nat \<Rightarrow> limb_step list \<Rightarrow> int list \<Rightarrow> int list option" where
  "run_z W [] s = Some s"
| "run_z W (x # p) s = (case step_z W x s of None \<Rightarrow> None | Some s' \<Rightarrow> run_z W p s')"

text \<open>On intervals: \<open>None\<close> when an overflow cannot be excluded.\<close>

type_synonym ivl = "int \<times> int"

definition in_ivl :: "int \<Rightarrow> ivl \<Rightarrow> bool" where
  "in_ivl x I \<longleftrightarrow> fst I \<le> x \<and> x \<le> snd I"

definition fits_ivl :: "nat \<Rightarrow> ivl \<Rightarrow> bool" where
  "fits_ivl W I \<longleftrightarrow> fits W (fst I) \<and> fits W (snd I)"

definition scale_ivl :: "ivl \<Rightarrow> int \<Rightarrow> ivl" where
  "scale_ivl I k = (if 0 \<le> k then (fst I * k, snd I * k) else (snd I * k, fst I * k))"

definition plus_ivl :: "ivl \<Rightarrow> ivl \<Rightarrow> ivl" where
  "plus_ivl I J = (fst I + fst J, snd I + snd J)"

fun add_to_i :: "nat \<Rightarrow> ivl \<Rightarrow> (nat \<times> int) list \<Rightarrow> ivl list \<Rightarrow> ivl list option" where
  "add_to_i W c [] s = Some s"
| "add_to_i W c ((d, k) # ts) s =
     (let ck = scale_ivl c k; t = plus_ivl (s ! d) ck
      in if fits_ivl W ck \<and> fits_ivl W t then add_to_i W c ts (s[d := t]) else None)"

text \<open>A carry within \<open>c\<close>: what remains is within \<open>e\<close>, or exact when there is only one carry.\<close>

definition move_i :: "nat \<Rightarrow> ivl \<Rightarrow> ivl \<Rightarrow> nat \<Rightarrow> nat \<Rightarrow> (nat \<times> int) list \<Rightarrow> ivl list \<Rightarrow> ivl list option" where
  "move_i W c e i b ts s =
     (let e' = (if fst c = snd c then plus_ivl (s ! i) (- (fst c * 2 ^ b), - (fst c * 2 ^ b)) else e)
      in if fits_ivl W (scale_ivl c (2 ^ b)) \<and> fits_ivl W e'
         then (case add_to_i W c ts s of None \<Rightarrow> None | Some s' \<Rightarrow> Some (s'[i := e']))
         else None)"

fun step_i :: "nat \<Rightarrow> limb_step \<Rightarrow> ivl list \<Rightarrow> ivl list option" where
  "step_i W (Carry i b r ts) s =
     (let t = plus_ivl (s ! i) (r, r)
      in if fits_ivl W t
         then move_i W (fst t div 2 ^ b, snd t div 2 ^ b) (- r, 2 ^ b - 1 - r) i b ts s else None)"
| "step_i W (Trunc i b ts) s =
     (case s ! i of (lo, hi) \<Rightarrow>
        if fits_ivl W (lo, max hi (2 ^ b - 1))
        then move_i W ((lo + roundoff b lo) div 2 ^ b, (hi + roundoff b hi) div 2 ^ b)
          (if lo < 0 then 1 - 2 ^ b else 0, if 0 < hi then 2 ^ b - 1 else 0) i b ts s
        else None)"
| "step_i W (Borrow i b ts) s =
     (case s ! i of (lo, hi) \<Rightarrow>
        move_i W (if lo < 0 then lo div 2 ^ b else 0, if hi < 0 then hi div 2 ^ b else 0)
          (0, max hi (2 ^ b - 1)) i b ts s)"
| "step_i W (Fold i ts) s =
     (case add_to_i W (s ! i) ts s of None \<Rightarrow> None | Some s' \<Rightarrow> Some (s'[i := (0, 0)]))"

fun run_i :: "nat \<Rightarrow> limb_step list \<Rightarrow> ivl list \<Rightarrow> ivl list option" where
  "run_i W [] s = Some s"
| "run_i W (x # p) s = (case step_i W x s of None \<Rightarrow> None | Some s' \<Rightarrow> run_i W p s')"

definition in_ivls :: "int list \<Rightarrow> ivl list \<Rightarrow> bool" where
  "in_ivls s I \<longleftrightarrow> length s = length I \<and> (\<forall>i<length s. in_ivl (s ! i) (I ! i))"

section \<open>Exact integers and machine words agree while nothing overflows\<close>

fun targets_ok :: "nat \<Rightarrow> nat \<Rightarrow> (nat \<times> int) list \<Rightarrow> bool" where
  "targets_ok n i [] = True"
| "targets_ok n i ((d, k) # ts) = (d < n \<and> d \<noteq> i \<and> targets_ok n i ts)"

fun target_weight :: "(nat \<Rightarrow> int) \<Rightarrow> (nat \<times> int) list \<Rightarrow> int" where
  "target_weight w [] = 0"
| "target_weight w ((d, k) # ts) = w d * k + target_weight w ts"

text \<open>
  A step is well formed on \<open>n\<close> limbs of weights \<open>w\<close> modulo \<open>M\<close> when its targets are
  other limbs and what it adds to them weighs what it takes from its source. With \<open>M = 0\<close>
  the two are equal.
\<close>

fun step_ok :: "(nat \<Rightarrow> int) \<Rightarrow> int \<Rightarrow> nat \<Rightarrow> limb_step \<Rightarrow> bool" where
  "step_ok w M n (Carry i b r ts) =
     (i < n \<and> targets_ok n i ts \<and> (target_weight w ts - w i * 2 ^ b) mod M = 0)"
| "step_ok w M n (Trunc i b ts) =
     (i < n \<and> targets_ok n i ts \<and> (target_weight w ts - w i * 2 ^ b) mod M = 0)"
| "step_ok w M n (Borrow i b ts) =
     (i < n \<and> targets_ok n i ts \<and> (target_weight w ts - w i * 2 ^ b) mod M = 0)"
| "step_ok w M n (Fold i ts) =
     (i < n \<and> targets_ok n i ts \<and> (target_weight w ts - w i) mod M = 0)"

lemma length_add_to_w [simp]: "length (add_to_w c ts s) = length s"
  by (induction c ts s rule: add_to_w.induct) auto

lemma length_move_w [simp]: "length (move_w c i b ts s) = length s"
  by (simp add: move_w_def Let_def)

lemma length_step_w [simp]: "length (step_w x s) = length s"
  by (cases x) auto

lemma length_run_w [simp, len_simps]: "length (run_w p s) = length s"
  by (induction p arbitrary: s) auto

lemma run_w_append: "run_w (p @ q) s = run_w q (run_w p s)"
  by (induction p arbitrary: s) auto

lemma run_z_append:
  "run_z W (p @ q) s = (case run_z W p s of None \<Rightarrow> None | Some t \<Rightarrow> run_z W q t)"
  by (induction p arbitrary: s) (auto split: option.splits)

lemma add_to_z_length: "add_to_z W c ts s = Some s' \<Longrightarrow> length s' = length s"
  by (induction W c ts s rule: add_to_z.induct) (auto split: if_splits)

lemma add_to_z_source:
  "add_to_z W c ts s = Some s' \<Longrightarrow> targets_ok n i ts \<Longrightarrow> s' ! i = s ! i"
  by (induction W c ts s rule: add_to_z.induct) (auto split: if_splits)

lemma add_to_w_source: "targets_ok n i ts \<Longrightarrow> add_to_w c ts s ! i = s ! i"
  by (induction c ts s rule: add_to_w.induct) auto

lemma add_to_agree:
  fixes c :: "'a::len word"
  assumes "add_to_z LENGTH('a) (sint c) ts (map sint s) = Some z" "targets_ok (length s) i ts"
  shows "map sint (add_to_w c ts s) = z"
  using assms
proof (induction c ts s rule: add_to_w.induct)
  case (2 c d k ts s)
  let ?v = "s ! d + c * word_of_int k"
  have d: "d < length s" using 2 by simp
  have "sint (c * word_of_int k) = sint c * k"
    using 2 by (intro sint_mult_const) (auto split: if_splits)
  then have "sint ?v = map sint s ! d + sint c * k"
    using 2 d by (subst sint_add) (auto split: if_splits)
  then have "map sint (s[d := ?v]) = (map sint s)[d := map sint s ! d + sint c * k]"
    by (simp add: map_update)
  with 2 show ?case by (auto split: if_splits)
qed simp

lemma move_agree:
  fixes s :: "'a::len word list"
  assumes m: "move_z LENGTH('a) (sint c) i b ts (map sint s) = Some z"
    and i: "i < length s" "targets_ok (length s) i ts"
  shows "map sint (move_w c i b ts s) = z"
proof -
  obtain z' where z': "add_to_z LENGTH('a) (sint c) ts (map sint s) = Some z'"
    and z: "z = z'[i := sint (s ! i) - sint c * 2 ^ b]"
    and f: "fits LENGTH('a) (sint c * 2 ^ b)" "fits LENGTH('a) (sint (s ! i) - sint c * 2 ^ b)"
    using m i by (auto simp: move_z_def split: if_splits option.splits)
  have "sint (s ! i - push_bit b c) = sint (s ! i) - sint c * 2 ^ b"
    using f by (simp add: sint_sub sint_shift_left)
  then show ?thesis
    using add_to_agree [OF z' i(2)] z
    by (simp add: move_w_def Let_def map_update add_to_w_source [OF i(2)])
qed

lemma sint_rounded:
  fixes x :: "'a::len word"
  shows "fits LENGTH('a) (sint x + r) \<Longrightarrow>
    sint (signed_drop_bit b (x + word_of_int r)) = (sint x + r) div 2 ^ b"
  using sint_of_int [where 'a = 'a, of "sint x + r"] by (simp add: sint_shift_right)

lemma step_agree:
  fixes s :: "'a::len word list"
  assumes "step_z LENGTH('a) x (map sint s) = Some z" and ok: "step_ok w M (length s) x"
  shows "map sint (step_w x s) = z"
proof (cases x)
  case (Fold i ts)
  then show ?thesis using assms
    by (auto simp: map_update split: option.splits dest!: add_to_agree)
next
  case (Carry i b r ts)
  then show ?thesis
    using assms by (auto simp: sint_rounded split: if_splits intro!: move_agree)
next
  case (Trunc i b ts)
  then show ?thesis
    using assms by (auto simp: sint_rounded Let_def split: if_splits intro!: move_agree)
next
  case (Borrow i b ts)
  then show ?thesis
    using assms by (auto simp: sint_shift_right intro!: move_agree)
qed

lemma run_agree:
  fixes s :: "'a::len word list"
  assumes "run_z LENGTH('a) p (map sint s) = Some z" "list_all (step_ok w M (length s)) p"
  shows "map sint (run_w p s) = z"
  using assms
proof (induction p arbitrary: s)
  case (Cons x p)
  then obtain z' where z': "step_z LENGTH('a) x (map sint s) = Some z'"
    and r: "run_z LENGTH('a) p z' = Some z" by (auto split: option.splits)
  have ok: "step_ok w M (length s) x" using Cons.prems(2) by simp
  have "map sint (step_w x s) = z'" by (rule step_agree [OF z' ok])
  with r Cons show ?case by simp
qed simp

section \<open>The interval analysis is sound\<close>

lemma fits_ivl_fits: "fits_ivl W I \<Longrightarrow> in_ivl x I \<Longrightarrow> fits W x"
  by (auto simp: fits_ivl_def in_ivl_def intro: fits_trans)

lemma in_scale_ivl: "in_ivl x I \<Longrightarrow> in_ivl (x * k) (scale_ivl I k)"
  by (auto simp: in_ivl_def scale_ivl_def intro: mult_right_mono mult_right_mono_neg)

lemma in_plus_ivl: "in_ivl x I \<Longrightarrow> in_ivl y J \<Longrightarrow> in_ivl (x + y) (plus_ivl I J)"
  by (auto simp: in_ivl_def plus_ivl_def)

lemma in_point [simp]: "in_ivl x (a, a) \<longleftrightarrow> x = a"
  by (auto simp: in_ivl_def)

lemma in_ivls_update: "in_ivls s I \<Longrightarrow> in_ivl v J \<Longrightarrow> in_ivls (s[d := v]) (I[d := J])"
  unfolding in_ivls_def by (cases "d < length I") (auto simp: nth_list_update)

lemma in_ivls_nth: "in_ivls s I \<Longrightarrow> i < length I \<Longrightarrow> in_ivl (s ! i) (I ! i)"
  by (simp add: in_ivls_def)

lemma in_ivls_Cons: "in_ivls (x # s) (I # J) \<longleftrightarrow> in_ivl x I \<and> in_ivls s J"
  by (auto simp: in_ivls_def All_less_Suc2)

lemma in_ivls_Nil: "in_ivls [] []"
  by (simp add: in_ivls_def)

lemma in_ivl_weaken: "in_ivl x (a, b) \<Longrightarrow> c \<le> a \<Longrightarrow> b \<le> d \<Longrightarrow> in_ivl x (c, d)"
  by (auto simp: in_ivl_def)

lemma add_to_i_sound:
  assumes "add_to_i W C ts I = Some I'" "in_ivl c C" "in_ivls s I" "targets_ok (length I) i ts"
  shows "\<exists>s'. add_to_z W c ts s = Some s' \<and> in_ivls s' I'"
  using assms
proof (induction W C ts I arbitrary: s rule: add_to_i.induct)
  case (2 W C d k ts I)
  let ?T = "plus_ivl (I ! d) (scale_ivl C k)"
  have f: "fits_ivl W (scale_ivl C k)" "fits_ivl W ?T" "add_to_i W C ts (I[d := ?T]) = Some I'"
    using "2.prems"(1) by (auto simp: Let_def split: if_splits)
  have ck: "in_ivl (c * k) (scale_ivl C k)" using "2.prems"(2) by (rule in_scale_ivl)
  then have t: "in_ivl (s ! d + c * k) ?T"
    using "2.prems" by (auto intro: in_plus_ivl in_ivls_nth)
  have "in_ivls (s[d := s ! d + c * k]) (I[d := ?T])"
    using "2.prems"(3) t by (rule in_ivls_update)
  then have "\<exists>s'. add_to_z W c ts (s[d := s ! d + c * k]) = Some s' \<and> in_ivls s' I'"
    using "2.IH" f "2.prems" by (simp add: Let_def)
  then show ?case using f ck t by (auto intro: fits_ivl_fits)
qed simp

lemma carry_remainder: "x - ((x + r) div 2 ^ b) * 2 ^ b = (x + r) mod 2 ^ b - (r :: int)"
  using div_mult_mod_eq [of "x + r" "2 ^ b"] by (simp add: algebra_simps)

lemma move_i_sound:
  assumes m: "move_i W C E i b ts I = Some I'" and c: "in_ivl c C" and e: "in_ivl (s ! i - c * 2 ^ b) E"
    and s: "in_ivls s I" and i: "i < length I" "targets_ok (length I) i ts"
  shows "\<exists>s'. move_z W c i b ts s = Some s' \<and> in_ivls s' I'"
proof -
  define E' where "E' = (if fst C = snd C
    then plus_ivl (I ! i) (- (fst C * 2 ^ b), - (fst C * 2 ^ b)) else E)"
  obtain J where f: "fits_ivl W (scale_ivl C (2 ^ b))" "fits_ivl W E'"
    and J: "add_to_i W C ts I = Some J" and I': "I' = J[i := E']"
    using m unfolding move_i_def Let_def E'_def [symmetric] by (auto split: if_splits option.splits)
  have si: "in_ivl (s ! i) (I ! i)" using s i by (auto intro: in_ivls_nth)
  have e': "in_ivl (s ! i - c * 2 ^ b) E'"
  proof (cases "fst C = snd C")
    case True
    with c have "c = fst C" by (auto simp: in_ivl_def)
    then show ?thesis using True in_plus_ivl [OF si, of "- (c * 2 ^ b)"] by (simp add: E'_def)
  qed (use e in \<open>simp add: E'_def\<close>)
  obtain s' where "add_to_z W c ts s = Some s'" "in_ivls s' J"
    using add_to_i_sound [OF J c s i(2)] by auto
  then show ?thesis
    using I' f e' in_scale_ivl [OF c, of "2 ^ b"]
    by (auto simp: move_z_def intro: fits_ivl_fits in_ivls_update)
qed

text \<open>The quotient rounded towards zero grows with its argument and leaves a small remainder.\<close>

lemma roundoff_div:
  "(x + roundoff b x) div 2 ^ b = (if x < 0 then - (- x div 2 ^ b) else x div 2 ^ b)"
proof -
  have "(x + (2 ^ b - 1)) div 2 ^ b = - (- x div 2 ^ b)"
  proof -
    have "(- (- x div 2 ^ b)) * 2 ^ b = x + - x mod 2 ^ b"
      using div_mult_mod_eq [of "- x" "2 ^ b"] by simp
    moreover have "0 \<le> - x mod 2 ^ b" "- x mod 2 ^ b < 2 ^ b" by simp_all
    ultimately have "x + (2 ^ b - 1) = (- (- x div 2 ^ b)) * 2 ^ b + (2 ^ b - 1 - - x mod 2 ^ b)"
      "0 \<le> 2 ^ b - 1 - - x mod 2 ^ b" "2 ^ b - 1 - - x mod 2 ^ b < 2 ^ b" by linarith+
    then show ?thesis by (metis div_pos_pos_trivial add.right_neutral div_mult_self3 power_not_zero
          zero_neq_numeral)
  qed
  then show ?thesis by (simp add: roundoff_def)
qed

lemma roundoff_mono: "x \<le> y \<Longrightarrow> (x + roundoff b x) div 2 ^ b \<le> (y + roundoff b y) div 2 ^ b"
proof -
  assume a: "x \<le> y"
  have n: "0 \<le> - x div 2 ^ b" if "x < 0"
    using that by (intro pos_imp_zdiv_nonneg_iff [THEN iffD2]) simp_all
  have p: "0 \<le> y div 2 ^ b" if "0 \<le> y"
    using that by (intro pos_imp_zdiv_nonneg_iff [THEN iffD2]) simp_all
  show ?thesis
    using a n p zdiv_mono1 [of "- y" "- x" "2 ^ b"] zdiv_mono1 [of x y "2 ^ b"]
    by (auto simp: roundoff_div)
qed

lemma roundoff_remainder:
  fixes x :: int and b :: nat
  defines "e \<equiv> x - (x + roundoff b x) div 2 ^ b * 2 ^ b"
  shows "e \<le> (if 0 < x then 2 ^ b - 1 else 0)" "(if x < 0 then 1 - 2 ^ b else 0) \<le> e"
proof -
  define m n where "m = - x mod 2 ^ b" and "n = x mod 2 ^ b"
  have e: "e = (if x < 0 then - m else n)"
    using div_mult_mod_eq [of "- x" "2 ^ b"] div_mult_mod_eq [of x "2 ^ b"]
    by (auto simp: e_def roundoff_div m_def n_def)
  have m: "0 \<le> m" "m \<le> 2 ^ b - 1" "0 \<le> n" "n \<le> 2 ^ b - 1"
    unfolding m_def n_def by (simp_all add: zle_diff1_eq)
  have "x = 0 \<Longrightarrow> n = 0" by (simp add: n_def)
  with m show "e \<le> (if 0 < x then 2 ^ b - 1 else 0)" "(if x < 0 then 1 - 2 ^ b else 0) \<le> e"
    unfolding e by (cases "x < 0"; cases "x = 0"; simp)+
qed

lemma step_i_sound:
  assumes "step_i W x I = Some I'" "in_ivls s I" "step_ok w M (length I) x"
  shows "\<exists>s'. step_z W x s = Some s' \<and> in_ivls s' I'"
proof (cases x)
  case (Fold i ts)
  obtain J where J: "add_to_i W (I ! i) ts I = Some J" and I': "I' = J[i := (0, 0)]"
    using assms(1) Fold by (auto split: option.splits)
  obtain s' where "add_to_z W (s ! i) ts s = Some s'" "in_ivls s' J"
    using add_to_i_sound [OF J in_ivls_nth [OF assms(2)] assms(2)] assms(3) Fold by auto
  then show ?thesis using Fold I' by (auto intro: in_ivls_update)
next
  case (Carry i b r ts)
  define T where "T = plus_ivl (I ! i) (r, r)"
  have f: "fits_ivl W T" and m: "move_i W (fst T div 2 ^ b, snd T div 2 ^ b)
      (- r, 2 ^ b - 1 - r) i b ts I = Some I'" and i: "i < length I" "targets_ok (length I) i ts"
    using assms(1,3) Carry by (auto simp: Let_def T_def [symmetric] split: if_splits)
  have si: "in_ivl (s ! i) (I ! i)" using assms(2) i by (auto intro: in_ivls_nth)
  then have t: "in_ivl (s ! i + r) T" unfolding T_def by (rule in_plus_ivl) simp
  then have c: "in_ivl ((s ! i + r) div 2 ^ b) (fst T div 2 ^ b, snd T div 2 ^ b)"
    by (auto simp: in_ivl_def intro: zdiv_mono1)
  have "0 \<le> (s ! i + r) mod 2 ^ b" "(s ! i + r) mod 2 ^ b < 2 ^ b" by simp_all
  then have "in_ivl (s ! i - (s ! i + r) div 2 ^ b * 2 ^ b) (- r, 2 ^ b - 1 - r)"
    by (simp add: in_ivl_def carry_remainder)
  from move_i_sound [OF m c this assms(2) i] show ?thesis
    using Carry f t by (auto intro: fits_ivl_fits)
next
  case (Trunc i b ts)
  obtain lo hi where I: "I ! i = (lo, hi)" by fastforce
  let ?C = "((lo + roundoff b lo) div 2 ^ b, (hi + roundoff b hi) div 2 ^ b)"
  let ?E = "(if lo < 0 then 1 - 2 ^ b else 0, if 0 < hi then 2 ^ b - 1 else 0)"
  have f: "fits_ivl W (lo, max hi (2 ^ b - 1))" and m: "move_i W ?C ?E i b ts I = Some I'"
    and i: "i < length I" "targets_ok (length I) i ts"
    using assms(1,3) Trunc I by (auto split: if_splits)
  have si: "lo \<le> s ! i" "s ! i \<le> hi"
    using in_ivls_nth [OF assms(2) i(1)] by (simp_all add: in_ivl_def I)
  define q where "q = (s ! i + roundoff b (s ! i)) div 2 ^ b"
  have c: "in_ivl q ?C"
    unfolding q_def in_ivl_def fst_conv snd_conv using si by (intro conjI roundoff_mono)
  have e: "in_ivl (s ! i - q * 2 ^ b) ?E"
  proof -
    define e where "e = s ! i - q * 2 ^ b"
    have "e \<le> (if 0 < s ! i then 2 ^ b - 1 else 0)" "(if s ! i < 0 then 1 - 2 ^ b else 0) \<le> e"
      unfolding e_def q_def by (rule roundoff_remainder)+
    moreover have "(0 :: int) \<le> 2 ^ b - 1" by simp
    ultimately show ?thesis
      using si unfolding e_def [symmetric] in_ivl_def fst_conv snd_conv by (auto split: if_splits)
  qed
  have t: "in_ivl (s ! i + roundoff b (s ! i)) (lo, max hi (2 ^ b - 1))"
  proof -
    have "(0 :: int) \<le> 2 ^ b - 1" by simp
    then have "lo \<le> s ! i + (2 ^ b - 1)" using si(1) by linarith
    then show ?thesis using si by (auto simp: in_ivl_def roundoff_def)
  qed
  have "fits W (s ! i + roundoff b (s ! i))" using f t by (rule fits_ivl_fits)
  with move_i_sound [OF m c e assms(2) i] show ?thesis
    unfolding Trunc by (simp add: Let_def q_def)
next
  case (Borrow i b ts)
  obtain lo hi where I: "I ! i = (lo, hi)" by fastforce
  let ?C = "(if lo < 0 then lo div 2 ^ b else 0, if hi < 0 then hi div 2 ^ b else 0)"
  have m: "move_i W ?C (0, max hi (2 ^ b - 1)) i b ts I = Some I'"
    and i: "i < length I" "targets_ok (length I) i ts"
    using assms(1,3) Borrow I by auto
  have si: "lo \<le> s ! i" "s ! i \<le> hi"
    using in_ivls_nth [OF assms(2) i(1)] by (simp_all add: in_ivl_def I)
  define q where "q = (if s ! i < 0 then s ! i div 2 ^ b else 0)"
  have n: "x div 2 ^ b < 0" if "x < 0" for x :: int
    using that by (intro pos_imp_zdiv_neg_iff [THEN iffD2]) simp_all
  have c: "in_ivl q ?C"
    using si zdiv_mono1 [of lo "s ! i" "2 ^ b"] zdiv_mono1 [of "s ! i" hi "2 ^ b"]
      n [of lo] n [of "s ! i"]
    by (auto simp: in_ivl_def q_def)
  have e: "in_ivl (s ! i - q * 2 ^ b) (0, max hi (2 ^ b - 1))"
  proof (cases "s ! i < 0")
    case True
    define r where "r = s ! i mod 2 ^ b"
    have "0 \<le> r" "r \<le> 2 ^ b - 1" unfolding r_def by (simp_all add: zle_diff1_eq)
    moreover have "s ! i - q * 2 ^ b = r"
      using True by (simp add: q_def r_def minus_div_mult_eq_mod)
    ultimately show ?thesis by (simp add: in_ivl_def)
  qed (use si in \<open>simp add: in_ivl_def q_def\<close>)
  from move_i_sound [OF m c e assms(2) i] show ?thesis
    using Borrow by (auto simp: q_def)
qed

lemma add_to_i_length: "add_to_i W c ts I = Some J \<Longrightarrow> length J = length I"
  by (induction W c ts I rule: add_to_i.induct) (auto simp: Let_def split: if_splits)

lemma move_i_length: "move_i W C E i b ts I = Some J \<Longrightarrow> length J = length I"
  by (auto simp: move_i_def Let_def dest: add_to_i_length split: if_splits option.splits)

lemma step_i_length: "step_i W x I = Some J \<Longrightarrow> length J = length I"
  by (cases x) (auto simp: Let_def dest: add_to_i_length move_i_length
      split: if_splits option.splits prod.splits)

lemma run_i_sound:
  assumes "run_i W p I = Some I'" "in_ivls s I" "list_all (step_ok w M (length I)) p"
  shows "\<exists>s'. run_z W p s = Some s' \<and> in_ivls s' I'"
  using assms
proof (induction p arbitrary: s I)
  case (Cons x p)
  then obtain J where J: "step_i W x I = Some J" "run_i W p J = Some I'"
    by (auto split: option.splits)
  obtain s' where "step_z W x s = Some s'" "in_ivls s' J"
    using step_i_sound [OF J(1) Cons.prems(2)] Cons.prems(3) by auto
  then show ?case using Cons.IH [OF J(2), of s'] Cons.prems(3) step_i_length [OF J(1)] by simp
qed simp

section \<open>A run keeps the value of the array\<close>

definition limb_value :: "(nat \<Rightarrow> int) \<Rightarrow> int list \<Rightarrow> int" where
  "limb_value w s = (\<Sum>j<length s. w j * s ! j)"

lemma limb_value_update:
  "i < length s \<Longrightarrow> limb_value w (s[i := v]) = limb_value w s + w i * (v - s ! i)"
  unfolding limb_value_def by (simp add: sum_lessThan_update)

lemma limb_value_add_to:
  assumes "add_to_z W c ts s = Some s'" "targets_ok (length s) i ts"
  shows "limb_value w s' = limb_value w s + c * target_weight w ts"
  using assms
  by (induction W c ts s rule: add_to_z.induct)
    (auto simp: limb_value_update algebra_simps split: if_splits)

lemma limb_value_move:
  assumes m: "move_z W c i b ts s = Some s'" and i: "i < length s" "targets_ok (length s) i ts"
    and M: "M dvd target_weight w ts - w i * 2 ^ b"
  shows "M dvd limb_value w s' - limb_value w s \<and> length s' = length s"
proof -
  obtain t where t: "add_to_z W c ts s = Some t" "s' = t[i := s ! i - c * 2 ^ b]"
    using m by (auto simp: move_z_def split: if_splits option.splits)
  have "limb_value w s' - limb_value w s = c * (target_weight w ts - w i * 2 ^ b)"
    using t i add_to_z_length [OF t(1)] add_to_z_source [OF t(1)] limb_value_add_to [OF t(1)]
    by (simp add: limb_value_update algebra_simps)
  then show ?thesis using M t add_to_z_length [OF t(1)] by simp
qed

lemma limb_value_step:
  assumes "step_z W x s = Some s'" "step_ok w M (length s) x"
  shows "M dvd limb_value w s' - limb_value w s \<and> length s' = length s"
proof (cases x)
  case (Fold i ts)
  obtain t where t: "add_to_z W (s ! i) ts s = Some t" "s' = t[i := 0]"
    using assms(1) Fold by (auto split: option.splits)
  have ok: "i < length s" "targets_ok (length s) i ts" "M dvd target_weight w ts - w i"
    using assms(2) Fold by auto
  have "limb_value w s' - limb_value w s = s ! i * (target_weight w ts - w i)"
    using t ok add_to_z_length [OF t(1)] add_to_z_source [OF t(1)] limb_value_add_to [OF t(1)]
    by (simp add: limb_value_update algebra_simps)
  then show ?thesis using ok t add_to_z_length [OF t(1)] by simp
next
  case (Carry i b r ts)
  then have "move_z W ((s ! i + r) div 2 ^ b) i b ts s = Some s'"
    using assms(1) by (auto split: if_splits)
  then show ?thesis by (rule limb_value_move) (use Carry assms(2) in auto)
next
  case (Trunc i b ts)
  then have "move_z W ((s ! i + roundoff b (s ! i)) div 2 ^ b) i b ts s = Some s'"
    using assms(1) by (auto simp: Let_def split: if_splits)
  then show ?thesis by (rule limb_value_move) (use Trunc assms(2) in auto)
next
  case (Borrow i b ts)
  then have "move_z W (if s ! i < 0 then s ! i div 2 ^ b else 0) i b ts s = Some s'"
    using assms(1) by auto
  then show ?thesis by (rule limb_value_move) (use Borrow assms(2) in auto)
qed

lemma limb_value_run:
  assumes "run_z W p s = Some s'" "list_all (step_ok w M (length s)) p"
  shows "M dvd limb_value w s' - limb_value w s \<and> length s' = length s"
  using assms
proof (induction p arbitrary: s)
  case (Cons x p)
  then obtain t where t: "step_z W x s = Some t" "run_z W p t = Some s'"
    by (auto split: option.splits)
  have 1: "M dvd limb_value w t - limb_value w s" "length t = length s"
    using limb_value_step [OF t(1)] Cons.prems(2) by auto
  have 2: "M dvd limb_value w s' - limb_value w t" "length s' = length t"
    using Cons.IH [OF t(2)] Cons.prems(2) 1 by auto
  from dvd_add [OF 2(1) 1(1)] show ?case using 1 2 by simp
qed simp

section \<open>Programs that cannot overflow\<close>

text \<open>
  What a routine of the C code owes its caller: on arrays within the bounds \<open>I\<close> its steps
  meet no signed overflow, leave the array within \<open>J\<close> and keep its value modulo \<open>M\<close>. Each
  routine below is an interpretation, whose two assumptions are computed.
\<close>

locale limb_program =
  fixes ty :: "'a::len itself" and w :: "nat \<Rightarrow> int" and M :: int
    and p :: "limb_step list" and I :: "ivl list" and J :: "ivl list"
  assumes wf: "list_all (step_ok w M (length I)) p"
    and analysed: "run_i LENGTH('a) p I = Some J"
begin

lemma no_overflow:
  assumes "in_ivls (map sint (s :: 'a word list)) I"
  shows "run_z LENGTH('a) p (map sint s) = Some (map sint (run_w p s))"
proof -
  obtain z where z: "run_z LENGTH('a) p (map sint s) = Some z"
    using run_i_sound [OF analysed assms wf] by auto
  have "length s = length I" using assms by (simp add: in_ivls_def)
  with run_agree [OF z] wf z show ?thesis by simp
qed

lemma bounded:
  assumes "in_ivls (map sint (s :: 'a word list)) I"
  shows "in_ivls (map sint (run_w p s)) J"
  using run_i_sound [OF analysed assms wf] no_overflow [OF assms] by auto

lemma keeps_value:
  assumes "in_ivls (map sint (s :: 'a word list)) I"
  shows "limb_value w (map sint (run_w p s)) mod M = limb_value w (map sint s) mod M"
proof -
  have "length (map sint s) = length I" using assms by (simp add: in_ivls_def)
  then have "M dvd limb_value w (map sint (run_w p s)) - limb_value w (map sint s)"
    using limb_value_run [OF no_overflow [OF assms]] wf by simp
  then show ?thesis by (simp add: mod_eq_dvd_iff)
qed

end

end
