(* ===== verification/Fe.thy ===== *)
theory Fe
  imports Limb_Machine
begin

text \<open>
  Field elements of Z/(2^255-19), the files fe.h, fe_0.c, fe_1.c, fe_add.c, fe_sub.c,
  fe_neg.c, fe_copy.c and fe_cmov.c of Curve25519Kit/Sources/ed25519. A C \<open>fe\<close> is an array
  of ten \<open>crypto_int32\<close> in radix 2^25.5; here it is a list of ten 32-bit words, read as
  signed numbers. The routines write their result after reading all inputs, so an output
  that overlaps an input (which the C allows) needs no separate treatment.
\<close>

section \<open>Representation\<close>

type_synonym fe = "i32 list"

definition fe_p :: int where
  "fe_p = 2 ^ 255 - 19"

definition fe_exp :: "nat \<Rightarrow> nat" where
  "fe_exp i = (51 * i + 1) div 2"

definition fe_weight :: "nat \<Rightarrow> int" where
  "fe_weight i = 2 ^ fe_exp i"

definition fe_val :: "fe \<Rightarrow> int" where
  "fe_val f = limb_value fe_weight (map sint f)"

text \<open>
  The bounds of the C comments: limbs with an even index up to \<open>E\<close> in absolute value, limbs
  with an odd index up to \<open>O\<close>.
\<close>

definition fe_within :: "int \<Rightarrow> int \<Rightarrow> fe \<Rightarrow> bool" where
  "fe_within e d f \<longleftrightarrow>
     length f = 10 \<and> (\<forall>i<10. \<bar>sint (f ! i)\<bar> \<le> (if even i then e else d))"

section \<open>Constants, copies, sums\<close>

definition fe_0 :: fe where
  "fe_0 = [0, 0, 0, 0, 0, 0, 0, 0, 0, 0]"

definition fe_1 :: fe where
  "fe_1 = [1, 0, 0, 0, 0, 0, 0, 0, 0, 0]"

definition fe_copy :: "fe \<Rightarrow> fe" where
  "fe_copy f =
    [f ! 0, f ! 1, f ! 2, f ! 3, f ! 4, f ! 5, f ! 6, f ! 7, f ! 8, f ! 9]"

definition fe_add :: "fe \<Rightarrow> fe \<Rightarrow> fe" where
  "fe_add f g =
    [f ! 0 + g ! 0, f ! 1 + g ! 1, f ! 2 + g ! 2, f ! 3 + g ! 3, f ! 4 + g ! 4, f ! 5 + g ! 5,
     f ! 6 + g ! 6, f ! 7 + g ! 7, f ! 8 + g ! 8, f ! 9 + g ! 9]"

definition fe_sub :: "fe \<Rightarrow> fe \<Rightarrow> fe" where
  "fe_sub f g =
    [f ! 0 - g ! 0, f ! 1 - g ! 1, f ! 2 - g ! 2, f ! 3 - g ! 3, f ! 4 - g ! 4, f ! 5 - g ! 5,
     f ! 6 - g ! 6, f ! 7 - g ! 7, f ! 8 - g ! 8, f ! 9 - g ! 9]"

definition fe_neg :: "fe \<Rightarrow> fe" where
  "fe_neg f =
    [- f ! 0, - f ! 1, - f ! 2, - f ! 3, - f ! 4, - f ! 5, - f ! 6, - f ! 7, - f ! 8, - f ! 9]"

text \<open>The conditional move: every limb is combined through a mask, with no branch.\<close>

definition fe_cmov :: "fe \<Rightarrow> fe \<Rightarrow> i32 \<Rightarrow> fe" where
  "fe_cmov f g b =
    (let x = [f ! 0 XOR g ! 0, f ! 1 XOR g ! 1, f ! 2 XOR g ! 2, f ! 3 XOR g ! 3,
              f ! 4 XOR g ! 4, f ! 5 XOR g ! 5, f ! 6 XOR g ! 6, f ! 7 XOR g ! 7,
              f ! 8 XOR g ! 8, f ! 9 XOR g ! 9];
         b = - b;
         x = map (\<lambda>v. v AND b) x
     in [f ! 0 XOR x ! 0, f ! 1 XOR x ! 1, f ! 2 XOR x ! 2, f ! 3 XOR x ! 3, f ! 4 XOR x ! 4,
         f ! 5 XOR x ! 5, f ! 6 XOR x ! 6, f ! 7 XOR x ! 7, f ! 8 XOR x ! 8, f ! 9 XOR x ! 9])"

section \<open>Ten limbs\<close>

lemma list10:
  assumes "length f = 10"
  shows "f = [f ! 0, f ! 1, f ! 2, f ! 3, f ! 4, f ! 5, f ! 6, f ! 7, f ! 8, f ! 9]"
  by (rule nth_equalityI) (use assms in \<open>auto simp: less_Suc_eq numeral_eq_Suc\<close>)

lemma fe_withinD:
  assumes "fe_within e d f"
  shows "length f = 10" "\<And>i. i < 10 \<Longrightarrow> even i \<Longrightarrow> \<bar>sint (f ! i)\<bar> \<le> e"
    "\<And>i. i < 10 \<Longrightarrow> odd i \<Longrightarrow> \<bar>sint (f ! i)\<bar> \<le> d"
  using assms by (auto simp: fe_within_def)

lemma fe_within_mono: "fe_within e d f \<Longrightarrow> e \<le> e' \<Longrightarrow> d \<le> d' \<Longrightarrow> fe_within e' d' f"
  unfolding fe_within_def by (auto split: if_splits)

lemma all_less_10:
  "(\<forall>i<10. P i) \<longleftrightarrow> P 0 \<and> P 1 \<and> P 2 \<and> P 3 \<and> P 4 \<and> P 5 \<and> P 6 \<and> P 7 \<and> P 8 \<and> P (9::nat)"
  by (simp add: All_less_Suc numeral_eq_Suc conj_ac)

lemma sum_less_10:
  "(\<Sum>i<10. g (i::nat)) = g 0 + g 1 + g 2 + g 3 + g 4 + g 5 + g 6 + g 7 + g 8 + (g 9 :: int)"
  by (simp add: numeral_eq_Suc)

lemma fe_val_sum: "length f = 10 \<Longrightarrow> fe_val f = (\<Sum>i<10. fe_weight i * sint (f ! i))"
  by (simp add: fe_val_def limb_value_def)

lemma fe_limbwise:
  assumes "length h = 10" "length f = 10" "length g = 10"
    and "\<And>i. i < 10 \<Longrightarrow> sint (h ! i) = a * sint (f ! i) + b * sint (g ! i)"
  shows "fe_val h = a * fe_val f + b * fe_val g"
  using assms by (simp add: fe_val_sum sum_distrib_left sum.distrib [symmetric] algebra_simps)

lemma length_fe_ops [simp, len_simps]:
  "length fe_0 = 10" "length fe_1 = 10" "length (fe_copy f) = 10" "length (fe_add f g) = 10"
  "length (fe_sub f g) = 10" "length (fe_neg f) = 10" "length (fe_cmov f g b) = 10"
  by (simp_all add: fe_0_def fe_1_def fe_copy_def fe_add_def fe_sub_def fe_neg_def fe_cmov_def
      Let_def)

lemma fe_add_nth: "i < 10 \<Longrightarrow> fe_add f g ! i = f ! i + g ! i"
  by (auto simp: fe_add_def less_Suc_eq numeral_eq_Suc)

lemma fe_sub_nth: "i < 10 \<Longrightarrow> fe_sub f g ! i = f ! i - g ! i"
  by (auto simp: fe_sub_def less_Suc_eq numeral_eq_Suc)

lemma fe_neg_nth: "i < 10 \<Longrightarrow> fe_neg f ! i = - f ! i"
  by (auto simp: fe_neg_def less_Suc_eq numeral_eq_Suc)

lemma fe_copy_id: "length f = 10 \<Longrightarrow> fe_copy f = f"
  using list10 [of f] by (simp add: fe_copy_def)

section \<open>Sums, differences and negation are exact\<close>

lemma fits_abs: "\<bar>x\<bar> < 2 ^ (W - 1) \<Longrightarrow> fits W x"
  by (auto simp: fits_def)

lemma fe_within_sum:
  assumes "fe_within e d f" "fe_within e' d' g" "length h = 10"
    and "\<And>i. i < 10 \<Longrightarrow> \<bar>sint (h ! i)\<bar> \<le> \<bar>sint (f ! i)\<bar> + \<bar>sint (g ! i)\<bar>"
  shows "fe_within (e + e') (d + d') h"
  unfolding fe_within_def
proof (intro conjI allI impI)
  fix i :: nat
  assume i: "i < 10"
  have "\<bar>sint (f ! i)\<bar> \<le> (if even i then e else d)"
    "\<bar>sint (g ! i)\<bar> \<le> (if even i then e' else d')"
    using assms(1,2) i by (simp_all add: fe_within_def)
  with assms(4) [OF i] show "\<bar>sint (h ! i)\<bar> \<le> (if even i then e + e' else d + d')"
    by (simp split: if_splits)
qed (rule assms)

lemma fe_add_exact:
  assumes "fe_within e d f" "fe_within e' d' g" "e + e' < 2 ^ 31" "d + d' < 2 ^ 31"
  shows "fe_val (fe_add f g) = fe_val f + fe_val g"
    and "fe_within (e + e') (d + d') (fe_add f g)"
proof -
  have s: "sint (fe_add f g ! i) = sint (f ! i) + sint (g ! i)" if "i < 10" for i
  proof -
    have "\<bar>sint (f ! i)\<bar> \<le> (if even i then e else d)"
      "\<bar>sint (g ! i)\<bar> \<le> (if even i then e' else d')"
      using assms(1,2) that by (simp_all add: fe_within_def)
    then have "fits 32 (sint (f ! i) + sint (g ! i))"
      using assms(3,4) by (intro fits_abs) (simp split: if_splits)
    then show ?thesis using that by (simp add: fe_add_nth sint_add)
  qed
  show "fe_val (fe_add f g) = fe_val f + fe_val g"
    using fe_limbwise [of "fe_add f g" f g 1 1] s assms by (simp add: fe_withinD)
  show "fe_within (e + e') (d + d') (fe_add f g)"
    by (rule fe_within_sum [OF assms(1,2)]) (simp_all add: s)
qed

lemma fe_sub_exact:
  assumes "fe_within e d f" "fe_within e' d' g" "e + e' < 2 ^ 31" "d + d' < 2 ^ 31"
  shows "fe_val (fe_sub f g) = fe_val f - fe_val g"
    and "fe_within (e + e') (d + d') (fe_sub f g)"
proof -
  have s: "sint (fe_sub f g ! i) = sint (f ! i) - sint (g ! i)" if "i < 10" for i
  proof -
    have "\<bar>sint (f ! i)\<bar> \<le> (if even i then e else d)"
      "\<bar>sint (g ! i)\<bar> \<le> (if even i then e' else d')"
      using assms(1,2) that by (simp_all add: fe_within_def)
    then have "fits 32 (sint (f ! i) - sint (g ! i))"
      using assms(3,4) by (intro fits_abs) (simp split: if_splits)
    then show ?thesis using that by (simp add: fe_sub_nth sint_sub)
  qed
  show "fe_val (fe_sub f g) = fe_val f - fe_val g"
    using fe_limbwise [of "fe_sub f g" f g 1 "-1"] s assms by (simp add: fe_withinD)
  show "fe_within (e + e') (d + d') (fe_sub f g)"
    by (rule fe_within_sum [OF assms(1,2)]) (simp_all add: s)
qed

lemma fe_neg_exact:
  assumes "fe_within e d f" "e < 2 ^ 31" "d < 2 ^ 31"
  shows "fe_val (fe_neg f) = - fe_val f" and "fe_within e d (fe_neg f)"
proof -
  have s: "sint (fe_neg f ! i) = - sint (f ! i)" if "i < 10" for i
  proof -
    have "\<bar>sint (f ! i)\<bar> \<le> (if even i then e else d)"
      using assms(1) that by (simp add: fe_within_def)
    then have "fits 32 (- sint (f ! i))"
      using assms(2,3) by (intro fits_abs) (simp split: if_splits)
    then show ?thesis using that by (simp add: fe_neg_nth sint_neg)
  qed
  show "fe_val (fe_neg f) = - fe_val f"
    using fe_limbwise [of "fe_neg f" f f "-1" 0] s assms by (simp add: fe_withinD)
  show "fe_within e d (fe_neg f)" using assms s unfolding fe_within_def by auto
qed

lemma fe_cmov_select:
  assumes "length f = 10" "length g = 10"
  shows "fe_cmov f g 0 = f" and "fe_cmov f g 1 = g"
proof -
  show "fe_cmov f g 0 = f"
    by (rule nth_equalityI)
      (use assms in \<open>auto simp: fe_cmov_def Let_def less_Suc_eq numeral_eq_Suc\<close>)
  have x: "a XOR (a XOR b AND - 1) = b" for a b :: i32
    by (simp flip: xor.assoc)
  show "fe_cmov f g 1 = g"
    by (rule nth_equalityI)
      (use assms x in \<open>auto simp: fe_cmov_def Let_def less_Suc_eq numeral_eq_Suc\<close>)
qed

lemma fe_val_0 [simp]: "fe_val fe_0 = 0" and fe_val_1 [simp]: "fe_val fe_1 = 1"
  by (simp_all add: fe_val_sum sum_less_10 fe_0_def fe_1_def fe_weight_def fe_exp_def)

lemma fe_within_0_1: "0 \<le> e \<Longrightarrow> 0 \<le> d \<Longrightarrow> fe_within e d fe_0"
  "1 \<le> e \<Longrightarrow> 0 \<le> d \<Longrightarrow> fe_within e d fe_1"
  by (simp_all add: fe_within_def all_less_10 fe_0_def fe_1_def)

end
