(* ===== verification/Gf.thy ===== *)
theory Gf
  imports Fe
begin

text \<open>
  The residues modulo 2^255-19 as a type of their own, a commutative ring, in which the
  statements about point formulas and power chains are equations.
\<close>

section \<open>The ring\<close>

typedef gf = "{0 ..< fe_p}"
  by (rule exI [of _ 0]) (simp add: fe_p_def)

setup_lifting type_definition_gf

lemma fe_p_pos [simp]: "0 < fe_p" "1 < fe_p" "fe_p \<noteq> 0" "0 \<le> fe_p"
  by (simp_all add: fe_p_def)

instantiation gf :: comm_ring_1
begin

lift_definition zero_gf :: gf is 0 by simp
lift_definition one_gf :: gf is 1 by simp
lift_definition plus_gf :: "gf \<Rightarrow> gf \<Rightarrow> gf" is "\<lambda>x y. (x + y) mod fe_p" by simp
lift_definition minus_gf :: "gf \<Rightarrow> gf \<Rightarrow> gf" is "\<lambda>x y. (x - y) mod fe_p" by simp
lift_definition uminus_gf :: "gf \<Rightarrow> gf" is "\<lambda>x. (- x) mod fe_p" by simp
lift_definition times_gf :: "gf \<Rightarrow> gf \<Rightarrow> gf" is "\<lambda>x y. (x * y) mod fe_p" by simp

instance
proof
  fix a b c :: gf
  show "a + b + c = a + (b + c)" by transfer (simp add: mod_simps algebra_simps)
  show "a + b = b + a" by transfer (simp add: add.commute)
  show "0 + a = a" by transfer simp
  show "- a + a = 0" by transfer (simp add: mod_simps)
  show "a - b = a + - b" by transfer (simp add: mod_simps)
  show "a * b * c = a * (b * c)" by transfer (simp add: mod_simps algebra_simps)
  show "a * b = b * a" by transfer (simp add: mult.commute)
  show "1 * a = a" by transfer simp
  show "(a + b) * c = a * c + b * c" by transfer (simp add: mod_simps algebra_simps)
  show "(0 :: gf) \<noteq> 1" by transfer simp
qed

end

section \<open>Integers as residues\<close>

lemma Rep_gf_of_nat: "Rep_gf (of_nat n) = int n mod fe_p"
proof (induction n)
  case (Suc n)
  then show ?case by (simp add: plus_gf.rep_eq one_gf.rep_eq mod_simps)
qed (simp add: zero_gf.rep_eq)

lemma Rep_gf_of_int: "Rep_gf (of_int x) = x mod fe_p"
  by (cases x) (simp_all add: Rep_gf_of_nat uminus_gf.rep_eq mod_simps plus_gf.rep_eq
      one_gf.rep_eq minus_gf.rep_eq)

lemma gf_of_int_eq: "(of_int x :: gf) = of_int y \<longleftrightarrow> x mod fe_p = y mod fe_p"
  by (simp add: Rep_gf_inject [symmetric] Rep_gf_of_int)

lemma gf_of_int_0: "(of_int x :: gf) = 0 \<longleftrightarrow> x mod fe_p = 0"
  using gf_of_int_eq [of x 0] by simp

lemma gf_of_int_mod [simp]: "(of_int (x mod fe_p) :: gf) = of_int x"
  by (simp add: gf_of_int_eq)

text \<open>The residue of a field element of the C code.\<close>

definition fe_gf :: "fe \<Rightarrow> gf" where
  "fe_gf f = of_int (fe_val f)"

lemma fe_gf_eq: "fe_gf f = fe_gf g \<longleftrightarrow> fe_val f mod fe_p = fe_val g mod fe_p"
  by (simp add: fe_gf_def gf_of_int_eq)

lemma fe_gf_0: "fe_gf f = 0 \<longleftrightarrow> fe_val f mod fe_p = 0"
  by (simp add: fe_gf_def gf_of_int_0)

lemma fe_gf_consts [simp]: "fe_gf fe_0 = 0" "fe_gf fe_1 = 1"
  by (simp_all add: fe_gf_def)

end
