(* ===== verification/Octal.thy ===== *)
theory Octal
  imports Gf
begin

text \<open>
  Arithmetic on residues modulo 2^255-19 that the simplifier evaluates with one rewrite step
  per pair of octal digits. The certificates about concrete numbers (the primality of the
  modulus, the tables of the base point, the group order) are computed with it.
\<close>

section \<open>Octal numbers\<close>

text \<open>The least significant digit is outermost; \<open>E\<close> is the empty number.\<close>

datatype onum = E | D0 onum | D1 onum | D2 onum | D3 onum | D4 onum | D5 onum | D6 onum | D7 onum

primrec ov :: "onum \<Rightarrow> int" where
  "ov E = 0"
| "ov (D0 n) = 8 * ov n" | "ov (D1 n) = 1 + 8 * ov n" | "ov (D2 n) = 2 + 8 * ov n"
| "ov (D3 n) = 3 + 8 * ov n" | "ov (D4 n) = 4 + 8 * ov n" | "ov (D5 n) = 5 + 8 * ov n"
| "ov (D6 n) = 6 + 8 * ov n" | "ov (D7 n) = 7 + 8 * ov n"

text \<open>Digits as numbers, to define and verify the operations; they are not used to compute.\<close>

definition ocons :: "int \<Rightarrow> onum \<Rightarrow> onum" where
  "ocons d n = (if d = 0 then D0 n else if d = 1 then D1 n else if d = 2 then D2 n else if d = 3 then D3 n
     else if d = 4 then D4 n else if d = 5 then D5 n else if d = 6 then D6 n else D7 n)"

primrec ouncons :: "onum \<Rightarrow> int \<times> onum" where
  "ouncons E = (0, E)"
| "ouncons (D0 n) = (0, n)" | "ouncons (D1 n) = (1, n)" | "ouncons (D2 n) = (2, n)"
| "ouncons (D3 n) = (3, n)" | "ouncons (D4 n) = (4, n)" | "ouncons (D5 n) = (5, n)"
| "ouncons (D6 n) = (6, n)" | "ouncons (D7 n) = (7, n)"

lemma ov_ocons: "0 \<le> d \<Longrightarrow> d < 8 \<Longrightarrow> ov (ocons d n) = d + 8 * ov n"
  by (auto simp: ocons_def)

lemma ov_ouncons: "ov n = fst (ouncons n) + 8 * ov (snd (ouncons n))"
  "0 \<le> fst (ouncons n)" "fst (ouncons n) < 8"
  by (cases n; simp)+

lemma ov_nonneg [simp]: "0 \<le> ov n"
  by (induction n) auto

section \<open>Addition\<close>

definition oadd_digit :: "int \<Rightarrow> (bool \<Rightarrow> onum \<Rightarrow> onum) \<Rightarrow> bool \<Rightarrow> onum \<Rightarrow> onum" where
  "oadd_digit d add c y =
     (let s = d + fst (ouncons y) + of_bool c in ocons (s mod 8) (add (8 \<le> s) (snd (ouncons y))))"

primrec oinc :: "onum \<Rightarrow> onum" where
  "oinc E = D1 E"
| "oinc (D0 n) = D1 n" | "oinc (D1 n) = D2 n" | "oinc (D2 n) = D3 n" | "oinc (D3 n) = D4 n"
| "oinc (D4 n) = D5 n" | "oinc (D5 n) = D6 n" | "oinc (D6 n) = D7 n" | "oinc (D7 n) = D0 (oinc n)"

primrec oadd :: "onum \<Rightarrow> bool \<Rightarrow> onum \<Rightarrow> onum" where
  "oadd E = (\<lambda>c y. if c then oinc y else y)"
| "oadd (D0 x) = oadd_digit 0 (oadd x)" | "oadd (D1 x) = oadd_digit 1 (oadd x)"
| "oadd (D2 x) = oadd_digit 2 (oadd x)" | "oadd (D3 x) = oadd_digit 3 (oadd x)"
| "oadd (D4 x) = oadd_digit 4 (oadd x)" | "oadd (D5 x) = oadd_digit 5 (oadd x)"
| "oadd (D6 x) = oadd_digit 6 (oadd x)" | "oadd (D7 x) = oadd_digit 7 (oadd x)"

definition add0 :: "onum \<Rightarrow> onum \<Rightarrow> onum" where
  "add0 x y = oadd x False y"

definition add1 :: "onum \<Rightarrow> onum \<Rightarrow> onum" where
  "add1 x y = oadd x True y"

lemma ov_oinc: "ov (oinc x) = ov x + 1"
  by (induction x) simp_all

lemma ov_oadd_digit:
  assumes "\<And>c y. ov (add c y) = ov x + ov y + of_bool c" "0 \<le> d" "d < 8"
  shows "ov (oadd_digit d add c y) = d + 8 * ov x + ov y + of_bool c"
proof -
  note u = ov_ouncons [of y]
  define s where "s = d + fst (ouncons y) + of_bool c"
  have s: "0 \<le> s" "s < 16" using assms(2,3) u(2,3) by (auto simp: s_def)
  then have m: "s = s mod 8 + 8 * of_bool (8 \<le> s)"
  proof (cases "8 \<le> s")
    case True
    then have "(s - 8) mod 8 = s - 8" using s by (intro mod_pos_pos_trivial) simp_all
    then show ?thesis using True by simp
  qed (use s in simp)
  have "ov (oadd_digit d add c y) = s mod 8 + 8 * (ov x + ov (snd (ouncons y)) + of_bool (8 \<le> s))"
    by (simp add: oadd_digit_def Let_def s_def ov_ocons assms(1))
  then show ?thesis using m u(1) by (simp add: s_def)
qed

lemma ov_oadd: "ov (oadd x c y) = ov x + ov y + of_bool c"
proof (induction x arbitrary: c y)
  case E
  show ?case by (simp add: ov_oinc)
qed (simp_all add: ov_oadd_digit)

lemma ov_add: "ov (add0 x y) = ov x + ov y" "ov (add1 x y) = ov x + ov y + 1"
  by (simp_all add: add0_def add1_def ov_oadd)

text \<open>The rewrite rules: one for each pair of digits and carry.\<close>

lemma add_empty: "add0 E y = y" "add1 E y = oinc y"
  by (simp_all add: add0_def add1_def)

lemma add_empty_right: "add0 x E = x" "add1 x E = oinc x"
  by (induction x) (simp_all add: add0_def add1_def oadd_digit_def ocons_def)

lemma add_table:
  "add0 (D0 xs) (D0 ys) = D0 (add0 xs ys)" "add0 (D0 xs) (D1 ys) = D1 (add0 xs ys)"
  "add0 (D0 xs) (D2 ys) = D2 (add0 xs ys)" "add0 (D0 xs) (D3 ys) = D3 (add0 xs ys)"
  "add0 (D0 xs) (D4 ys) = D4 (add0 xs ys)" "add0 (D0 xs) (D5 ys) = D5 (add0 xs ys)"
  "add0 (D0 xs) (D6 ys) = D6 (add0 xs ys)" "add0 (D0 xs) (D7 ys) = D7 (add0 xs ys)"
  "add0 (D1 xs) (D0 ys) = D1 (add0 xs ys)" "add0 (D1 xs) (D1 ys) = D2 (add0 xs ys)"
  "add0 (D1 xs) (D2 ys) = D3 (add0 xs ys)" "add0 (D1 xs) (D3 ys) = D4 (add0 xs ys)"
  "add0 (D1 xs) (D4 ys) = D5 (add0 xs ys)" "add0 (D1 xs) (D5 ys) = D6 (add0 xs ys)"
  "add0 (D1 xs) (D6 ys) = D7 (add0 xs ys)" "add0 (D1 xs) (D7 ys) = D0 (add1 xs ys)"
  "add0 (D2 xs) (D0 ys) = D2 (add0 xs ys)" "add0 (D2 xs) (D1 ys) = D3 (add0 xs ys)"
  "add0 (D2 xs) (D2 ys) = D4 (add0 xs ys)" "add0 (D2 xs) (D3 ys) = D5 (add0 xs ys)"
  "add0 (D2 xs) (D4 ys) = D6 (add0 xs ys)" "add0 (D2 xs) (D5 ys) = D7 (add0 xs ys)"
  "add0 (D2 xs) (D6 ys) = D0 (add1 xs ys)" "add0 (D2 xs) (D7 ys) = D1 (add1 xs ys)"
  "add0 (D3 xs) (D0 ys) = D3 (add0 xs ys)" "add0 (D3 xs) (D1 ys) = D4 (add0 xs ys)"
  "add0 (D3 xs) (D2 ys) = D5 (add0 xs ys)" "add0 (D3 xs) (D3 ys) = D6 (add0 xs ys)"
  "add0 (D3 xs) (D4 ys) = D7 (add0 xs ys)" "add0 (D3 xs) (D5 ys) = D0 (add1 xs ys)"
  "add0 (D3 xs) (D6 ys) = D1 (add1 xs ys)" "add0 (D3 xs) (D7 ys) = D2 (add1 xs ys)"
  "add0 (D4 xs) (D0 ys) = D4 (add0 xs ys)" "add0 (D4 xs) (D1 ys) = D5 (add0 xs ys)"
  "add0 (D4 xs) (D2 ys) = D6 (add0 xs ys)" "add0 (D4 xs) (D3 ys) = D7 (add0 xs ys)"
  "add0 (D4 xs) (D4 ys) = D0 (add1 xs ys)" "add0 (D4 xs) (D5 ys) = D1 (add1 xs ys)"
  "add0 (D4 xs) (D6 ys) = D2 (add1 xs ys)" "add0 (D4 xs) (D7 ys) = D3 (add1 xs ys)"
  "add0 (D5 xs) (D0 ys) = D5 (add0 xs ys)" "add0 (D5 xs) (D1 ys) = D6 (add0 xs ys)"
  "add0 (D5 xs) (D2 ys) = D7 (add0 xs ys)" "add0 (D5 xs) (D3 ys) = D0 (add1 xs ys)"
  "add0 (D5 xs) (D4 ys) = D1 (add1 xs ys)" "add0 (D5 xs) (D5 ys) = D2 (add1 xs ys)"
  "add0 (D5 xs) (D6 ys) = D3 (add1 xs ys)" "add0 (D5 xs) (D7 ys) = D4 (add1 xs ys)"
  "add0 (D6 xs) (D0 ys) = D6 (add0 xs ys)" "add0 (D6 xs) (D1 ys) = D7 (add0 xs ys)"
  "add0 (D6 xs) (D2 ys) = D0 (add1 xs ys)" "add0 (D6 xs) (D3 ys) = D1 (add1 xs ys)"
  "add0 (D6 xs) (D4 ys) = D2 (add1 xs ys)" "add0 (D6 xs) (D5 ys) = D3 (add1 xs ys)"
  "add0 (D6 xs) (D6 ys) = D4 (add1 xs ys)" "add0 (D6 xs) (D7 ys) = D5 (add1 xs ys)"
  "add0 (D7 xs) (D0 ys) = D7 (add0 xs ys)" "add0 (D7 xs) (D1 ys) = D0 (add1 xs ys)"
  "add0 (D7 xs) (D2 ys) = D1 (add1 xs ys)" "add0 (D7 xs) (D3 ys) = D2 (add1 xs ys)"
  "add0 (D7 xs) (D4 ys) = D3 (add1 xs ys)" "add0 (D7 xs) (D5 ys) = D4 (add1 xs ys)"
  "add0 (D7 xs) (D6 ys) = D5 (add1 xs ys)" "add0 (D7 xs) (D7 ys) = D6 (add1 xs ys)"
  "add1 (D0 xs) (D0 ys) = D1 (add0 xs ys)" "add1 (D0 xs) (D1 ys) = D2 (add0 xs ys)"
  "add1 (D0 xs) (D2 ys) = D3 (add0 xs ys)" "add1 (D0 xs) (D3 ys) = D4 (add0 xs ys)"
  "add1 (D0 xs) (D4 ys) = D5 (add0 xs ys)" "add1 (D0 xs) (D5 ys) = D6 (add0 xs ys)"
  "add1 (D0 xs) (D6 ys) = D7 (add0 xs ys)" "add1 (D0 xs) (D7 ys) = D0 (add1 xs ys)"
  "add1 (D1 xs) (D0 ys) = D2 (add0 xs ys)" "add1 (D1 xs) (D1 ys) = D3 (add0 xs ys)"
  "add1 (D1 xs) (D2 ys) = D4 (add0 xs ys)" "add1 (D1 xs) (D3 ys) = D5 (add0 xs ys)"
  "add1 (D1 xs) (D4 ys) = D6 (add0 xs ys)" "add1 (D1 xs) (D5 ys) = D7 (add0 xs ys)"
  "add1 (D1 xs) (D6 ys) = D0 (add1 xs ys)" "add1 (D1 xs) (D7 ys) = D1 (add1 xs ys)"
  "add1 (D2 xs) (D0 ys) = D3 (add0 xs ys)" "add1 (D2 xs) (D1 ys) = D4 (add0 xs ys)"
  "add1 (D2 xs) (D2 ys) = D5 (add0 xs ys)" "add1 (D2 xs) (D3 ys) = D6 (add0 xs ys)"
  "add1 (D2 xs) (D4 ys) = D7 (add0 xs ys)" "add1 (D2 xs) (D5 ys) = D0 (add1 xs ys)"
  "add1 (D2 xs) (D6 ys) = D1 (add1 xs ys)" "add1 (D2 xs) (D7 ys) = D2 (add1 xs ys)"
  "add1 (D3 xs) (D0 ys) = D4 (add0 xs ys)" "add1 (D3 xs) (D1 ys) = D5 (add0 xs ys)"
  "add1 (D3 xs) (D2 ys) = D6 (add0 xs ys)" "add1 (D3 xs) (D3 ys) = D7 (add0 xs ys)"
  "add1 (D3 xs) (D4 ys) = D0 (add1 xs ys)" "add1 (D3 xs) (D5 ys) = D1 (add1 xs ys)"
  "add1 (D3 xs) (D6 ys) = D2 (add1 xs ys)" "add1 (D3 xs) (D7 ys) = D3 (add1 xs ys)"
  "add1 (D4 xs) (D0 ys) = D5 (add0 xs ys)" "add1 (D4 xs) (D1 ys) = D6 (add0 xs ys)"
  "add1 (D4 xs) (D2 ys) = D7 (add0 xs ys)" "add1 (D4 xs) (D3 ys) = D0 (add1 xs ys)"
  "add1 (D4 xs) (D4 ys) = D1 (add1 xs ys)" "add1 (D4 xs) (D5 ys) = D2 (add1 xs ys)"
  "add1 (D4 xs) (D6 ys) = D3 (add1 xs ys)" "add1 (D4 xs) (D7 ys) = D4 (add1 xs ys)"
  "add1 (D5 xs) (D0 ys) = D6 (add0 xs ys)" "add1 (D5 xs) (D1 ys) = D7 (add0 xs ys)"
  "add1 (D5 xs) (D2 ys) = D0 (add1 xs ys)" "add1 (D5 xs) (D3 ys) = D1 (add1 xs ys)"
  "add1 (D5 xs) (D4 ys) = D2 (add1 xs ys)" "add1 (D5 xs) (D5 ys) = D3 (add1 xs ys)"
  "add1 (D5 xs) (D6 ys) = D4 (add1 xs ys)" "add1 (D5 xs) (D7 ys) = D5 (add1 xs ys)"
  "add1 (D6 xs) (D0 ys) = D7 (add0 xs ys)" "add1 (D6 xs) (D1 ys) = D0 (add1 xs ys)"
  "add1 (D6 xs) (D2 ys) = D1 (add1 xs ys)" "add1 (D6 xs) (D3 ys) = D2 (add1 xs ys)"
  "add1 (D6 xs) (D4 ys) = D3 (add1 xs ys)" "add1 (D6 xs) (D5 ys) = D4 (add1 xs ys)"
  "add1 (D6 xs) (D6 ys) = D5 (add1 xs ys)" "add1 (D6 xs) (D7 ys) = D6 (add1 xs ys)"
  "add1 (D7 xs) (D0 ys) = D0 (add1 xs ys)" "add1 (D7 xs) (D1 ys) = D1 (add1 xs ys)"
  "add1 (D7 xs) (D2 ys) = D2 (add1 xs ys)" "add1 (D7 xs) (D3 ys) = D3 (add1 xs ys)"
  "add1 (D7 xs) (D4 ys) = D4 (add1 xs ys)" "add1 (D7 xs) (D5 ys) = D5 (add1 xs ys)"
  "add1 (D7 xs) (D6 ys) = D6 (add1 xs ys)" "add1 (D7 xs) (D7 ys) = D7 (add1 xs ys)"
  by (simp_all add: add0_def add1_def oadd_digit_def ocons_def)

section \<open>Multiplication\<close>

text \<open>The multiples of \<open>x\<close> by the digits are computed once.\<close>

primrec omul_rows :: "onum \<Rightarrow> onum \<Rightarrow> onum \<Rightarrow> onum \<Rightarrow> onum \<Rightarrow> onum \<Rightarrow> onum \<Rightarrow> onum \<Rightarrow> onum" where
  "omul_rows x1 x2 x3 x4 x5 x6 x7 E = E"
| "omul_rows x1 x2 x3 x4 x5 x6 x7 (D0 y) = D0 (omul_rows x1 x2 x3 x4 x5 x6 x7 y)"
| "omul_rows x1 x2 x3 x4 x5 x6 x7 (D1 y) = add0 x1 (D0 (omul_rows x1 x2 x3 x4 x5 x6 x7 y))"
| "omul_rows x1 x2 x3 x4 x5 x6 x7 (D2 y) = add0 x2 (D0 (omul_rows x1 x2 x3 x4 x5 x6 x7 y))"
| "omul_rows x1 x2 x3 x4 x5 x6 x7 (D3 y) = add0 x3 (D0 (omul_rows x1 x2 x3 x4 x5 x6 x7 y))"
| "omul_rows x1 x2 x3 x4 x5 x6 x7 (D4 y) = add0 x4 (D0 (omul_rows x1 x2 x3 x4 x5 x6 x7 y))"
| "omul_rows x1 x2 x3 x4 x5 x6 x7 (D5 y) = add0 x5 (D0 (omul_rows x1 x2 x3 x4 x5 x6 x7 y))"
| "omul_rows x1 x2 x3 x4 x5 x6 x7 (D6 y) = add0 x6 (D0 (omul_rows x1 x2 x3 x4 x5 x6 x7 y))"
| "omul_rows x1 x2 x3 x4 x5 x6 x7 (D7 y) = add0 x7 (D0 (omul_rows x1 x2 x3 x4 x5 x6 x7 y))"

definition omul3 :: "onum \<Rightarrow> onum \<Rightarrow> onum \<Rightarrow> onum \<Rightarrow> onum \<Rightarrow> onum" where
  "omul3 x x2 x3 x4 y = omul_rows x x2 x3 x4 (add0 x3 x2) (add0 x3 x3) (add0 x4 x3) y"

definition omul2 :: "onum \<Rightarrow> onum \<Rightarrow> onum \<Rightarrow> onum" where
  "omul2 x x2 y = omul3 x x2 (add0 x2 x) (add0 x2 x2) y"

definition omul :: "onum \<Rightarrow> onum \<Rightarrow> onum" where
  "omul x y = omul2 x (add0 x x) y"

lemma ov_omul_rows:
  assumes "ov x2 = 2 * ov x1" "ov x3 = 3 * ov x1" "ov x4 = 4 * ov x1" "ov x5 = 5 * ov x1"
    "ov x6 = 6 * ov x1" "ov x7 = 7 * ov x1"
  shows "ov (omul_rows x1 x2 x3 x4 x5 x6 x7 y) = ov x1 * ov y"
  by (induction y) (simp_all add: ov_add assms algebra_simps)

lemma ov_omul: "ov (omul x y) = ov x * ov y"
  unfolding omul_def omul2_def omul3_def by (rule ov_omul_rows) (simp_all add: ov_add)

section \<open>Reduction modulo 2^255-19\<close>

text \<open>2^255 is 8^85: the digits above the 85th weigh 19.\<close>

primrec osplit :: "unit list \<Rightarrow> onum \<Rightarrow> onum \<times> onum" where
  "osplit [] = (\<lambda>x. (E, x))"
| "osplit (u # us) = (\<lambda>x. (ocons (fst (ouncons x)) (fst (osplit us (snd (ouncons x)))),
     snd (osplit us (snd (ouncons x)))))"

lemma ov_osplit: "ov x = ov (fst (osplit us x)) + 8 ^ length us * ov (snd (osplit us x))"
proof (induction us arbitrary: x)
  case (Cons u us)
  show ?case using ov_ouncons [of x] Cons [of "snd (ouncons x)"] by (simp add: ov_ocons algebra_simps)
qed simp

text \<open>The same with a rewrite rule for each digit.\<close>

fun osplit_cons :: "(onum \<Rightarrow> onum) \<Rightarrow> onum \<times> onum \<Rightarrow> onum \<times> onum" where
  "osplit_cons d (a, b) = (d a, b)"

lemma osplit_cons_split: "osplit_cons d p = (d (fst p), snd p)"
  by (cases p) simp

lemma osplit_rules:
  "osplit [] x = (E, x)" "osplit (u # us) E = osplit_cons D0 (osplit us E)"
  "osplit (u # us) (D0 x) = osplit_cons D0 (osplit us x)" "osplit (u # us) (D1 x) = osplit_cons D1 (osplit us x)"
  "osplit (u # us) (D2 x) = osplit_cons D2 (osplit us x)" "osplit (u # us) (D3 x) = osplit_cons D3 (osplit us x)"
  "osplit (u # us) (D4 x) = osplit_cons D4 (osplit us x)" "osplit (u # us) (D5 x) = osplit_cons D5 (osplit us x)"
  "osplit (u # us) (D6 x) = osplit_cons D6 (osplit us x)" "osplit (u # us) (D7 x) = osplit_cons D7 (osplit us x)"
  by (simp_all add: ocons_def prod_eq_iff osplit_cons_split)

definition digits85 :: "unit list" where
  "digits85 = [(), (), (), (), (), (), (), (), (), (), (), (), (), (), (), (), (), (), (), (), (), (),
      (), (), (), (), (), (), (), (), (), (), (), (), (), (), (), (), (), (), (), (), (), (),
      (), (), (), (), (), (), (), (), (), (), (), (), (), (), (), (), (), (), (), (), (), (),
      (), (), (), (), (), (), (), (), (), (), (), (), (), (), (), (), (), (), ()]"

lemma length_digits85 [simp]: "length digits85 = 85"
  by (simp add: digits85_def)

definition ored2 :: "onum \<Rightarrow> onum \<Rightarrow> onum \<Rightarrow> onum" where
  "ored2 lo hi hi2 = add0 lo (add0 (add0 hi hi2) (D0 hi2))"

fun ored1 :: "onum \<times> onum \<Rightarrow> onum" where
  "ored1 (lo, hi) = ored2 lo hi (add0 hi hi)"

definition ored :: "onum \<Rightarrow> onum" where
  "ored x = ored1 (osplit digits85 x)"

definition og :: "onum \<Rightarrow> gf" where
  "og x = of_int (ov x)"

lemma gf_two_255: "(2 :: gf) ^ 255 = 19"
proof -
  have "(of_int (2 ^ 255) :: gf) = of_int 19" unfolding gf_of_int_eq by (simp add: fe_p_def)
  then show ?thesis by (simp only: of_int_power of_int_numeral)
qed

lemma og_split: "og x = og (fst (osplit digits85 x)) + 19 * og (snd (osplit digits85 x))"
proof -
  have "(8 :: int) ^ 85 = 2 ^ 255" by simp
  then have "ov x = ov (fst (osplit digits85 x)) + 2 ^ 255 * ov (snd (osplit digits85 x))"
    using ov_osplit [of x digits85] by (simp only: length_digits85)
  then have "og x = og (fst (osplit digits85 x)) + 2 ^ 255 * og (snd (osplit digits85 x))"
    unfolding og_def by (simp only: of_int_add of_int_mult of_int_power of_int_numeral)
  then show ?thesis by (simp only: gf_two_255)
qed

lemma og_ored: "og (ored x) = og x"
proof -
  obtain lo hi where s: "osplit digits85 x = (lo, hi)" by (rule prod.exhaust)
  have "ov (ored x) = ov lo + 19 * ov hi" by (simp add: ored_def s ored2_def ov_add)
  then show ?thesis using og_split [of x] by (simp add: s og_def)
qed

definition gmul :: "onum \<Rightarrow> onum \<Rightarrow> onum" where
  "gmul x y = ored (ored (omul x y))"

definition gadd :: "onum \<Rightarrow> onum \<Rightarrow> onum" where
  "gadd x y = ored (add0 x y)"

lemma og_ops: "og (gmul x y) = og x * og y" "og (gadd x y) = og x + og y"
  by (simp_all only: gmul_def gadd_def og_ored) (simp_all add: og_def ov_omul ov_add)

text \<open>The canonical representative: one subtraction of the modulus when adding 19 reaches 2^255.\<close>

fun opick :: "onum \<Rightarrow> onum \<times> onum \<Rightarrow> onum" where
  "opick x (lo, hi) = (if ov hi = 1 then lo else x)"

lemma opick_rules:
  "opick x (lo, E) = x" "opick x (lo, D0 E) = x" "opick x (lo, D1 E) = lo" "opick x (lo, D0 (D0 E)) = x"
  "opick x (lo, D1 (D0 E)) = lo"
  by simp_all

definition gnorm1 :: "onum \<Rightarrow> onum" where
  "gnorm1 x = opick x (osplit digits85 (add0 x (D3 (D2 E))))"

definition gnorm :: "onum \<Rightarrow> onum" where
  "gnorm x = gnorm1 (ored (ored x))"

lemma og_gnorm: "og (gnorm x) = og x"
proof -
  have "og (gnorm1 y) = og y" for y
  proof -
    obtain lo hi where s: "osplit digits85 (add0 y (D3 (D2 E))) = (lo, hi)" by (rule prod.exhaust)
    have "og y + 19 = og lo + 19 * og hi"
      using og_split [of "add0 y (D3 (D2 E))"] by (simp add: s og_def ov_add)
    then have "ov hi = 1 \<Longrightarrow> og lo = og y" by (simp add: og_def)
    then show ?thesis by (simp add: gnorm1_def s)
  qed
  then show ?thesis by (simp add: gnorm_def og_ored)
qed

definition oeq :: "onum \<Rightarrow> onum \<Rightarrow> bool" where
  "oeq x y \<longleftrightarrow> ov x = ov y"

lemma oeq_rules:
  "oeq E E" "oeq (D0 x) E = oeq x E" "oeq E (D0 x) = oeq E x"
  "oeq (D0 x) (D0 y) = oeq x y" "oeq (D1 x) (D1 y) = oeq x y" "oeq (D2 x) (D2 y) = oeq x y"
  "oeq (D3 x) (D3 y) = oeq x y" "oeq (D4 x) (D4 y) = oeq x y" "oeq (D5 x) (D5 y) = oeq x y"
  "oeq (D6 x) (D6 y) = oeq x y" "oeq (D7 x) (D7 y) = oeq x y"
  by (auto simp: oeq_def)

definition geq :: "onum \<Rightarrow> onum \<Rightarrow> bool" where
  "geq x y \<longleftrightarrow> oeq (gnorm x) (gnorm y)"

lemma geqD: "geq x y \<Longrightarrow> og x = og y"
  using og_gnorm [of x] og_gnorm [of y] by (simp add: geq_def oeq_def og_def)

section \<open>Evaluation\<close>

lemmas octal_eval = oinc.simps add_empty add_empty_right add_table omul_rows.simps omul3_def omul2_def omul_def
  osplit_rules osplit_cons.simps digits85_def ored2_def ored1.simps ored_def gmul_def gadd_def
  opick_rules gnorm1_def gnorm_def oeq_rules geq_def

end
