(* ===== verification/Primality.thy ===== *)
theory Primality
  imports Crypto_Prelude
begin

text \<open>
  Prime numbers, Fermat's theorem and a primality criterion that needs one large prime factor
  of the predecessor.
\<close>

section \<open>Primes\<close>

definition is_prime :: "int \<Rightarrow> bool" where
  "is_prime p \<longleftrightarrow> 1 < p \<and> (\<forall>d. 1 < d \<longrightarrow> d dvd p \<longrightarrow> d = p)"

lemma prime_coprime:
  assumes p: "is_prime p" and a: "\<not> p dvd a"
  shows "coprime a p"
proof -
  define g where "g = gcd a p"
  have g: "g dvd a" "g dvd p" "0 < g" using p by (auto simp: g_def is_prime_def)
  then have "\<not> 1 < g" using p a by (auto simp: is_prime_def)
  with g(3) have "g = 1" by simp
  then show ?thesis by (simp add: g_def coprime_iff_gcd_eq_1)
qed

lemma prime_dvd_product: "is_prime p \<Longrightarrow> p dvd a * b \<longleftrightarrow> p dvd a \<or> p dvd b"
  using prime_coprime [of p a] coprime_dvd_mult_right_iff [of p a b]
  by (auto simp: coprime_commute)

lemma prime_divisor:
  assumes "1 < (n :: int)"
  obtains q where "is_prime q" "q dvd n"
proof -
  define m where "m = (LEAST d. 1 < d \<and> int d dvd n)"
  have "1 < nat n \<and> int (nat n) dvd n" using assms by simp
  then have m: "1 < m \<and> int m dvd n" unfolding m_def by (rule LeastI)
  have "is_prime (int m)"
    unfolding is_prime_def
  proof (intro conjI allI impI)
    fix d :: int
    assume d: "1 < d" "d dvd int m"
    then have "1 < nat d \<and> int (nat d) dvd n" using m by (auto intro: dvd_trans)
    then have "m \<le> nat d" unfolding m_def by (rule Least_le)
    moreover have "d \<le> int m" using d m by (intro zdvd_imp_le) simp_all
    ultimately show "d = int m" using d(1) by simp
  qed (use m in simp)
  with m that show ?thesis by blast
qed

section \<open>Fermat's theorem\<close>

lemma fermat:
  assumes p: "is_prime p" and a: "\<not> p dvd a"
  shows "a ^ nat (p - 1) mod p = 1"
proof -
  have p1: "1 < p" using p by (simp add: is_prime_def)
  define S where "S = {1..<p}"
  define f where "f x = a * x mod p" for x
  have S: "\<not> p dvd x" if "x \<in> S" for x
    using that zdvd_imp_le [of p x] by (auto simp: S_def)
  have "f x \<in> S" if "x \<in> S" for x
  proof -
    have "f x \<noteq> 0" using S [OF that] a prime_dvd_product [OF p, of a x] by (simp add: f_def dvd_eq_mod_eq_0)
    moreover have "0 \<le> f x" "f x < p" using p1 by (simp_all add: f_def)
    ultimately show ?thesis by (simp add: S_def)
  qed
  moreover have inj: "inj_on f S"
  proof (rule inj_onI)
    fix x y
    assume xy: "x \<in> S" "y \<in> S" "f x = f y"
    then have "p dvd a * (x - y)" by (simp add: f_def mod_eq_dvd_iff right_diff_distrib)
    then have "p dvd x - y" using a prime_dvd_product [OF p] by simp
    moreover have "\<bar>x - y\<bar> < p" using xy by (auto simp: S_def)
    ultimately show "x = y" using zdvd_imp_le [of p "\<bar>x - y\<bar>"] by (cases "x = y") auto
  qed
  ultimately have "f ` S = S" by (intro endo_inj_surj) (auto simp: S_def)
  then have "prod f S = \<Prod>S" using prod.reindex [OF inj, of id] by (simp add: comp_def)
  then have "(\<Prod>x\<in>S. a * x) mod p = \<Prod>S mod p"
    by (simp add: f_def [abs_def] mod_prod_eq [of "\<lambda>x. a * x" p S, symmetric])
  then have "p dvd a ^ card S * \<Prod>S - \<Prod>S" by (simp add: prod.distrib mod_eq_dvd_iff)
  then have "p dvd (a ^ card S - 1) * \<Prod>S" by (simp add: left_diff_distrib)
  moreover have "\<not> p dvd \<Prod>S"
  proof -
    have "coprime (\<Prod>S) p" by (intro prod_coprime_left) (use prime_coprime [OF p] S in auto)
    then have "p dvd 1" if "p dvd \<Prod>S" using that by (rule coprime_common_divisor) simp
    then show ?thesis using p1 by (auto dest: zdvd_imp_le)
  qed
  ultimately have "p dvd a ^ card S - 1" using prime_dvd_product [OF p] by blast
  moreover have "card S = nat (p - 1)" by (simp add: S_def)
  ultimately have "a ^ nat (p - 1) mod p = 1 mod p" by (simp add: mod_eq_dvd_iff)
  then show ?thesis using p1 by simp
qed

section \<open>Orders\<close>

lemma power_mod_1: "(b :: int) ^ m mod p = 1 \<Longrightarrow> 1 < p \<Longrightarrow> b ^ (m * k) mod p = 1"
  using power_mod [of "b ^ m" p k] by (simp add: power_mult)

lemma prime_order:
  fixes b p :: int
  assumes l: "is_prime (int l)" and p: "1 < p"
    and b: "b ^ l mod p = 1" "b mod p \<noteq> 1" and m: "b ^ m mod p = 1"
  shows "l dvd m"
proof (rule ccontr)
  assume "\<not> l dvd m"
  then have "coprime (int m) (int l)" by (intro prime_coprime [OF l]) simp
  then have "gcd l m = 1" by (simp add: coprime_int_iff coprime_iff_gcd_eq_1 gcd.commute)
  moreover have "l \<noteq> 0" using l by (auto simp: is_prime_def)
  ultimately obtain x y where xy: "l * x = m * y + 1" using bezout_nat [of l m] by auto
  have "b ^ (l * x) mod p = 1" by (rule power_mod_1 [OF b(1) p])
  moreover have "b ^ (l * x) mod p = (b ^ (m * y) mod p) * b mod p"
    by (simp add: xy power_add mod_mult_right_eq mult.commute)
  ultimately show False using power_mod_1 [OF m p, of y] b(2) by simp
qed

section \<open>The criterion\<close>

lemma divisor_residue:
  assumes l: "1 < (l :: int)" and p: "\<And>q. is_prime q \<Longrightarrow> q dvd n \<Longrightarrow> q mod l = 1"
    and n: "0 < n" "d dvd n" "0 < d"
  shows "d mod l = 1"
  using n(2,3)
proof (induction "nat d" arbitrary: d rule: less_induct)
  case less
  show ?case
  proof (cases "1 < d")
    case True
    then obtain q where q: "is_prime q" "q dvd d" by (rule prime_divisor)
    then obtain e where e: "d = q * e" by blast
    have q1: "1 < q" using q(1) by (simp add: is_prime_def)
    then have "0 < e" using less.prems(2) e by (simp add: zero_less_mult_iff)
    moreover have "e < d" using e q1 \<open>0 < e\<close> by simp
    ultimately have "e mod l = 1" using less.prems(1) e by (intro less.hyps) auto
    moreover have "q mod l = 1" using q less.prems(1) by (intro p) (auto intro: dvd_trans)
    ultimately show ?thesis using l unfolding e by (metis mod_mult_eq mult_1 mod_pos_pos_trivial zero_le_one)
  next
    case False
    then have "d = 1" using less.prems(2) by simp
    then show ?thesis using l by simp
  qed
qed

lemma prime_criterion:
  fixes n a :: int
  assumes l: "is_prime (int l)" and n: "n = int l * int R + 1" "0 < R"
    and R: "R = t * l + u" "t + 1 < u" "u < l"
    and a: "a ^ (l * R) mod n = 1" "coprime (a ^ R - 1) n"
  shows "is_prime n"
proof -
  have l1: "1 < int l" using l by (simp add: is_prime_def)
  have n1: "1 < n" using n l1 by simp
  have res: "q mod int l = 1" if q: "is_prime q" "q dvd n" for q
  proof -
    have q1: "1 < q" using q(1) by (simp add: is_prime_def)
    have al: "(a ^ R) ^ l mod q = 1"
    proof -
      have "n dvd a ^ (l * R) - 1" using a(1) n1 mod_eq_dvd_iff [of "a ^ (l * R)" n 1] by simp
      then have "q dvd a ^ (l * R) - 1" using q(2) by (rule dvd_trans [rotated])
      then have "a ^ (l * R) mod q = 1 mod q" by (simp add: mod_eq_dvd_iff)
      then show ?thesis using q1 by (simp add: power_mult [symmetric] mult.commute)
    qed
    have ne: "a ^ R mod q \<noteq> 1"
    proof
      assume "a ^ R mod q = 1"
      then have "q dvd a ^ R - 1" using q1 mod_eq_dvd_iff [of "a ^ R" q 1] by simp
      from coprime_common_divisor [OF a(2) this q(2)] show False using q1 by (auto dest: zdvd_imp_le)
    qed
    have "\<not> q dvd a ^ R"
    proof
      assume "q dvd a ^ R"
      moreover have "0 < l" using l1 by simp
      ultimately have "q dvd (a ^ R) ^ l" by (meson dvd_power dvd_trans)
      then show False using al by (simp add: dvd_eq_mod_eq_0)
    qed
    from fermat [OF q(1) this] have "l dvd nat (q - 1)" by (rule prime_order [OF l q1 al ne])
    then have "int l dvd q - 1" using q1 by (metis int_dvd_int_iff int_nat_eq diff_gt_0_iff_gt less_imp_le)
    then show ?thesis using l1 mod_eq_dvd_iff [of q "int l" 1] by simp
  qed
  show ?thesis
    unfolding is_prime_def
  proof (intro conjI allI impI)
    fix d
    assume d: "1 < d" "d dvd n"
    then obtain e where e: "n = d * e" by blast
    have e0: "0 < e" using e n1 d(1) by (metis less_trans zero_less_mult_pos zero_less_one)
    have "d mod int l = 1" "e mod int l = 1"
      using divisor_residue [OF l1 res _ d(2)] divisor_residue [OF l1 res, of e] d e e0 n1 by auto
    then have "int l dvd d - 1" "int l dvd e - 1"
      using l1 mod_eq_dvd_iff [of d "int l" 1] mod_eq_dvd_iff [of e "int l" 1] by simp_all
    then obtain x y where xy: "d - 1 = int l * x" "e - 1 = int l * y" by (auto elim!: dvdE)
    show "d = n"
    proof (rule ccontr)
      assume "d \<noteq> n"
      then have "e \<noteq> 1" using e by auto
      with e0 have "0 < int l * y" using xy(2) by simp
      then have y: "0 < y" using l1 by (simp add: zero_less_mult_iff)
      have "0 < int l * x" using xy(1) d(1) by simp
      then have x: "0 < x" using l1 by (simp add: zero_less_mult_iff)
      have "d = int l * x + 1" "e = int l * y + 1" using xy by simp_all
      then have "int l * int R = int l * (x + y + int l * (x * y))"
        using e n(1) by (simp add: algebra_simps)
      then have Re: "int R = x + y + int l * (x * y)" using l1 by simp
      have Rt: "int R = int t * int l + int u" using R(1) by simp
      have "x * y \<le> int t"
      proof (rule ccontr)
        assume "\<not> x * y \<le> int t"
        then have "int l * (int t + 1) \<le> int l * (x * y)" using l1 by (intro mult_left_mono) simp_all
        then show False using Re Rt R(3) x y by (simp add: algebra_simps)
      qed
      moreover have "x + y \<le> x * y + 1"
      proof -
        have "0 \<le> (x - 1) * (y - 1)" using x y by simp
        then show ?thesis by (simp add: algebra_simps)
      qed
      ultimately have xyu: "x + y < int u" using R(2) by simp
      have "int l * (x * y - int t) = int u - (x + y)" using Re Rt by (simp add: algebra_simps)
      then have "int l dvd int u - (x + y)" by (metis dvd_triv_left)
      then have "int l \<le> int u - (x + y)" using xyu by (intro zdvd_imp_le) simp_all
      then show False using R(3) x y by simp
    qed
  qed (rule n1)
qed

end
