(* ===== verification/Octal_Power.thy ===== *)
theory Octal_Power
  imports Octal Primality
begin

text \<open>
  Powers of 2 modulo an arbitrary number in octal digits. The quotient of each reduction is
  estimated with a precomputed reciprocal; the step checks the estimate, so nothing has to be
  proved about its accuracy.
\<close>

fun qred2 :: "onum \<Rightarrow> onum \<Rightarrow> onum \<times> onum \<Rightarrow> onum" where
  "qred2 t k (lo, hi) = (if oeq hi k then lo else t)"

definition qred1 :: "onum \<Rightarrow> unit list \<Rightarrow> onum \<Rightarrow> onum \<Rightarrow> onum" where
  "qred1 c u3 t k = qred2 t k (osplit u3 (add0 t (omul k c)))"

definition qred :: "unit list \<Rightarrow> onum \<Rightarrow> unit list \<Rightarrow> onum \<Rightarrow> unit list \<Rightarrow> onum \<Rightarrow> onum" where
  "qred u1 mu u2 c u3 t = qred1 c u3 t (snd (osplit u2 (omul (snd (osplit u1 t)) mu)))"

definition qdouble :: "bool \<Rightarrow> onum \<Rightarrow> onum" where
  "qdouble b x = (if b then add0 x x else x)"

primrec qpow :: "unit list \<Rightarrow> onum \<Rightarrow> unit list \<Rightarrow> onum \<Rightarrow> unit list \<Rightarrow> bool list \<Rightarrow> onum \<Rightarrow> onum" where
  "qpow u1 mu u2 c u3 [] x = x"
| "qpow u1 mu u2 c u3 (b # bs) x = qpow u1 mu u2 c u3 bs (qdouble b (qred u1 mu u2 c u3 (omul x x)))"

lemma ov_qred:
  assumes "ov c + N = 8 ^ length u3"
  shows "ov (qred u1 mu u2 c u3 t) mod N = ov t mod N"
proof -
  define k where "k = snd (osplit u2 (omul (snd (osplit u1 t)) mu))"
  obtain lo hi where s: "osplit u3 (add0 t (omul k c)) = (lo, hi)" by (rule prod.exhaust)
  have e: "ov t + ov k * ov c = ov lo + 8 ^ length u3 * ov hi"
    using ov_osplit [of "add0 t (omul k c)" u3] by (simp add: s ov_add ov_omul)
  have "ov lo = ov t - N * ov k" if "ov hi = ov k"
    using e that by (simp add: assms [symmetric] algebra_simps)
  then have "ov lo mod N = ov t mod N" if "ov hi = ov k" using that by (simp add: mod_eq_dvd_iff)
  then show ?thesis by (simp add: qred_def qred1_def k_def [symmetric] s oeq_def)
qed

definition bits_from :: "nat \<Rightarrow> bool list \<Rightarrow> nat" where
  "bits_from v bs = foldl (\<lambda>v b. 2 * v + of_bool b) v bs"

lemma ov_qpow:
  assumes c: "ov c + N = 8 ^ length u3" and x: "ov x mod N = 2 ^ v mod N"
  shows "ov (qpow u1 mu u2 c u3 bs x) mod N = 2 ^ bits_from v bs mod N"
  using x
proof (induction bs arbitrary: x v)
  case (Cons b bs)
  define y where "y = qred u1 mu u2 c u3 (omul x x)"
  have "ov y mod N = (ov x mod N) * (ov x mod N) mod N"
    by (simp add: y_def ov_qred [OF c] ov_omul mod_mult_eq)
  also have "\<dots> = 2 ^ (2 * v) mod N" by (simp add: Cons.prems mod_mult_eq mult_2 power_add)
  finally have y: "ov y mod N = 2 ^ (2 * v) mod N" .
  have "ov (qdouble b y) = 2 ^ of_bool b * ov y" by (simp add: qdouble_def ov_add)
  then have "ov (qdouble b y) mod N = 2 ^ of_bool b * (ov y mod N) mod N" by (simp add: mod_mult_right_eq)
  also have "\<dots> = 2 ^ (2 * v + of_bool b) mod N" by (simp add: y mod_mult_right_eq power_add mult.commute)
  finally show ?case using Cons.IH by (simp add: y_def [symmetric] bits_from_def)
qed (simp add: bits_from_def)

lemma qpow_rules:
  "qred2 t k (lo, hi) = (if oeq hi k then lo else t)" "qdouble False x = x" "qdouble True x = add0 x x"
  "snd (a, b) = b"
  by (simp_all add: qdouble_def)

lemmas qpow_eval = octal_eval qpow_rules qred1_def qred_def qpow.simps if_True

end
