(* ===== verification/Prime_25519.thy ===== *)
theory Prime_25519
  imports Octal_Power
begin

text \<open>
  The modulus of the curve is prime: a chain of six primes, each justified by the next with
  powers of 2. The chain of squarings that ends it also shows that 2 is not a square.
\<close>

section \<open>Checked powers\<close>

text \<open>\<open>x\<close> is the power \<open>2^v\<close> modulo \<open>N\<close>; the power itself must never be evaluated.\<close>

definition pow2 :: "int \<Rightarrow> nat \<Rightarrow> int \<Rightarrow> bool" where
  "pow2 N v x \<longleftrightarrow> x mod N = 2 ^ v mod N"

primrec ipow :: "int \<Rightarrow> bool list \<Rightarrow> int \<Rightarrow> int" where
  "ipow N [] x = x"
| "ipow N (b # bs) x = ipow N bs ((if b then 2 * (x * x) else x * x) mod N)"

lemma pow2_0: "pow2 N 0 1" "pow2 N 0 (ov (D1 E))"
  by (simp_all add: pow2_def)

lemma pow2_ipow: "pow2 N v x \<Longrightarrow> pow2 N (bits_from v bs) (ipow N bs x)"
proof (induction bs arbitrary: v x)
  case (Cons b bs)
  have "x * x mod N = (x mod N) * (x mod N) mod N" by (simp add: mod_mult_eq)
  also have "\<dots> = 2 ^ (2 * v) mod N"
    using Cons.prems by (simp add: pow2_def mod_mult_eq mult_2 power_add)
  finally have sq: "x * x mod N = 2 ^ (2 * v) mod N" .
  have "2 * (x * x) mod N = 2 * (x * x mod N) mod N" by (simp add: mod_mult_right_eq)
  also have "\<dots> = 2 ^ (2 * v + 1) mod N" by (simp add: sq mod_mult_right_eq)
  finally have "pow2 N (2 * v + of_bool b) ((if b then 2 * (x * x) else x * x) mod N)"
    using sq by (simp add: pow2_def)
  from Cons.IH [OF this] show ?case by (simp add: bits_from_def)
qed (simp add: bits_from_def)

lemma pow2_qpow:
  assumes "pow2 N v (ov x)" "ov c + N = 8 ^ length u3" "oeq (qpow u1 mu u2 c u3 bs x) y" "bits_from v bs = w"
  shows "pow2 N w (ov y)"
  using ov_qpow [OF assms(2), of x v u1 mu u2 bs] assms(1,3,4) by (simp add: pow2_def oeq_def)

lemma criterion:
  assumes l: "is_prime (int l)" and n: "n = int l * int R + 1" "0 < R"
    and R: "R = t * l + u" "t + 1 < u" "u < l"
    and x: "pow2 n R x" "(x - 1) * w = 1 + k * n"
    and y: "pow2 n (l * R) y" "y = 1 + j * n"
  shows "is_prime n"
proof (rule prime_criterion [OF l n R])
  have n1: "1 < n" using n l by (simp add: is_prime_def)
  show "2 ^ (l * R) mod n = 1" using y n1 by (simp add: pow2_def)
  have "n dvd x - 2 ^ R" using x(1) by (simp add: pow2_def mod_eq_dvd_iff)
  then obtain i where i: "x - 2 ^ R = n * i" by blast
  show "coprime (2 ^ R - 1) n"
  proof (rule coprimeI)
    fix c
    assume c: "c dvd 2 ^ R - 1" "c dvd n"
    have "c dvd (2 ^ R - 1) + n * i" using c by (intro dvd_add dvd_mult2)
    also have "(2 ^ R - 1) + n * i = x - 1" using i by simp
    finally have "c dvd x - 1" .
    then have "c dvd (x - 1) * w - k * n" using c(2) by (simp add: dvd_diff dvd_mult dvd_mult2)
    then show "is_unit c" by (simp add: x(2))
  qed
qed

section \<open>The small primes\<close>

lemma prime_trial:
  assumes "1 < n" "n < m * m" "list_all (\<lambda>d. n mod d \<noteq> 0) [2..m - 1]" "1 < m"
  shows "is_prime n"
  unfolding is_prime_def
proof (intro conjI allI impI)
  fix d
  assume d: "1 < d" "d dvd n"
  then obtain e where e: "n = d * e" by blast
  then have "0 < d * e" using assms(1) by simp
  then have e0: "0 < e" using d(1) by (intro zero_less_mult_pos [of d e]) simp_all
  have no: "\<not> x dvd n" if "1 < x" "x < m" for x
    using assms(3) that by (simp add: list_all_iff dvd_eq_mod_eq_0)
  show "d = n"
  proof (rule ccontr)
    assume "d \<noteq> n"
    then have "1 < e" using e e0 by (cases "e = 1") simp_all
    moreover have "e dvd n" using e by simp
    ultimately have "m \<le> d" "m \<le> e" using no d by force+
    then have "m * m \<le> d * e" using assms(4) by (intro mult_mono) simp_all
    then show False using e assms(2) by simp
  qed
qed (rule assms(1))

lemma prime_991: "is_prime 991"
proof (rule prime_trial)
  show "list_all (\<lambda>d. 991 mod d \<noteq> 0) [2..32 - 1 :: int]" by code_simp
qed simp_all

lemma prime_8574133: "is_prime 8574133"
proof (rule criterion [where l = 991 and R = 8652 and t = 8 and u = 724 and x = 3435729 and w = 1014251 and k = 406419 and y = 1 and j = 0])
  show "is_prime (int 991)" using prime_991 by simp
  have "bits_from 0 [True, False, False, False, False, True, True, True, False, False, True, True, False, False] = 8652"
    by (simp add: bits_from_def)
  moreover have "ipow 8574133 [True, False, False, False, False, True, True, True, False, False, True, True, False, False] 1 = 3435729"
    by code_simp
  ultimately show "pow2 8574133 (8652) 3435729"
    using pow2_ipow [OF pow2_0(1)] by metis
  have "bits_from 0 [True, False, False, False, False, False, True, False, True, True, False, True, False, True,
     False, False, True, False, True, True, False, True, False, False] = 8574132"
    by (simp add: bits_from_def)
  moreover have "ipow 8574133 [True, False, False, False, False, False, True, False, True, True, False, True, False, True,
     False, False, True, False, True, True, False, True, False, False] 1 = 1"
    by code_simp
  ultimately show "pow2 8574133 (991 * 8652) 1"
    using pow2_ipow [OF pow2_0(1)] by (simp only: arith_simps) metis
qed simp_all

lemma prime_1919519569386763: "is_prime 1919519569386763"
proof (rule criterion [where l = 8574133 and R = 223873314 and t = 26 and u = 945856 and x = 1059928654987441 and w = 1290547218147893 and k = 712619969572013 and y = 1 and j = 0])
  show "is_prime (int 8574133)" using prime_8574133 by simp
  have "bits_from 0 [True, True, False, True, False, True, False, True, True, False, False, False, False, False,
     False, False, True, False, False, True, False, False, True, False, False, False, True, False] = 223873314"
    by (simp add: bits_from_def)
  moreover have "ipow 1919519569386763 [True, True, False, True, False, True, False, True, True, False, False, False, False, False,
     False, False, True, False, False, True, False, False, True, False, False, False, True, False] 1 = 1059928654987441"
    by code_simp
  ultimately show "pow2 1919519569386763 (223873314) 1059928654987441"
    using pow2_ipow [OF pow2_0(1)] by metis
  have "bits_from 0 [True, True, False, True, True, False, True, False, False, False, True, True, True, False,
     False, True, False, True, False, True, True, True, True, True, False, True, False, False, False,
     False, True, False, False, True, False, True, False, False, True, True, True, False, True,
     False, False, False, False, True, False, True, False] = 1919519569386762"
    by (simp add: bits_from_def)
  moreover have "ipow 1919519569386763 [True, True, False, True, True, False, True, False, False, False, True, True, True, False,
     False, True, False, True, False, True, True, True, True, True, False, True, False, False, False,
     False, True, False, False, True, False, True, False, False, True, True, True, False, True,
     False, False, False, False, True, False, True, False] 1 = 1"
    by code_simp
  ultimately show "pow2 1919519569386763 (8574133 * 223873314) 1"
    using pow2_ipow [OF pow2_0(1)] by (simp only: arith_simps) metis
qed simp_all

section \<open>The large primes\<close>

definition r_low :: "unit list" where
  "r_low = [(), (), (), (), (), (), (), (), (), (), (), (), (), (), (), (), (), (), (), (), (), (), (), (),
     (), (), (), (), (), (), (), (), (), (), (), ()]"

definition r_quot :: "unit list" where
  "r_quot = [(), (), (), (), (), (), (), (), (), (), (), (), (), (), (), (), (), (), (), (), (), (), (), (),
     (), (), (), (), (), (), (), (), (), (), (), (), (), (), (), (), (), (), (), ()]"

definition r_mod :: "unit list" where
  "r_mod = [(), (), (), (), (), (), (), (), (), (), (), (), (), (), (), (), (), (), (), (), (), (), (), (),
     (), (), (), (), (), (), (), (), (), (), (), (), (), (), (), ()]"

definition r_recip :: onum where
  "r_recip = (D2 (D1 (D1 (D1 (D0 (D4 (D0 (D3 (D6 (D6 (D1 (D5 (D2 (D1 (D0 (D2 (D2 (D2 (D2 (D5 (D7 (D4 (D7 (D3
     (D6 (D5 (D5 (D3 (D6 (D0 (D1 (D3 (D6 (D7 (D5 (D5 (D4 (D4 (D7 (D4 (D1 (D2
     E))))))))))))))))))))))))))))))))))))))))))"

definition r_comp :: onum where
  "r_comp = (D7 (D3 (D0 (D6 (D5 (D1 (D1 (D5 (D6 (D0 (D3 (D4 (D7 (D0 (D2 (D6 (D6 (D0 (D2 (D7 (D5 (D4 (D2 (D7
     (D7 (D0 (D1 (D4 (D0 (D7 (D6 (D2 (D5 (D7 (D0 (D4 (D7 (D2 (D4 (D7
     E))))))))))))))))))))))))))))))))))))))))"

lemmas r_consts = r_low_def r_quot_def r_mod_def r_recip_def r_comp_def

abbreviation r_pow :: "bool list \<Rightarrow> onum \<Rightarrow> onum" where
  "r_pow \<equiv> qpow r_low r_recip r_quot r_comp r_mod"

lemma r_modulus: "ov r_comp + 75445702479781427272750846543864801 = 8 ^ length r_mod"
  by (simp add: r_comp_def r_mod_def)

definition r_low_power_0 :: onum where
  "r_low_power_0 = (D3 (D7 (D7 (D4 (D6 (D7 (D1 (D6 (D4 (D1 (D0 (D5 (D6 (D4 (D4 (D7 (D7 (D0 (D2 (D7 (D1 (D0 (D3 (D2
     (D4 (D2 (D6 (D5 (D3 (D7 (D6 (D1 (D7 (D3 (D4 (D6 (D5 E)))))))))))))))))))))))))))))))))))))"

lemma r_low_power_0_step: "pow2 75445702479781427272750846543864801 614132369394490462 (ov r_low_power_0)"
proof (rule pow2_qpow [OF pow2_0(2) r_modulus])
  show "oeq (r_pow [True, False, False, False, True, False, False, False, False, True, False, True, True, True,
     False, True, False, True, True, False, False, False, True, False, False, False, True, False,
     True, True, False, True, True, False, True, False, True, True, False, True, False, False, True,
     True, True, True, False, True, True, True, False, False, False, True, False, True, True, True,
     True, False] (D1 E)) r_low_power_0"
    unfolding r_consts r_low_power_0_def by (simp only: qpow_eval)
  show "bits_from 0 [True, False, False, False, True, False, False, False, False, True, False, True, True, True,
     False, True, False, True, True, False, False, False, True, False, False, False, True, False,
     True, True, False, True, True, False, True, False, True, True, False, True, False, False, True,
     True, True, True, False, True, True, True, False, False, False, True, False, True, True, True,
     True, False] = 614132369394490462"
    by (simp add: bits_from_def)
qed

definition r_low_power_1 :: onum where
  "r_low_power_1 = (D3 (D0 (D0 (D2 (D5 (D2 (D3 (D1 (D2 (D6 (D6 (D7 (D2 (D6 (D7 (D2 (D2 (D1 (D7 (D1 (D6 (D3 (D3 (D4
     (D6 (D7 (D1 (D1 (D3 (D5 (D2 (D0 (D0 (D3 (D7 (D6 (D6 (D5 (D2
     E)))))))))))))))))))))))))))))))))))))))"

lemma r_low_power_1_step: "pow2 75445702479781427272750846543864801 39304471641247389600 (ov r_low_power_1)"
proof (rule pow2_qpow [OF r_low_power_0_step r_modulus])
  show "oeq (r_pow [True, False, False, False, False, False] r_low_power_0) r_low_power_1"
    unfolding r_consts r_low_power_0_def r_low_power_1_def by (simp only: qpow_eval)
  show "bits_from 614132369394490462 [True, False, False, False, False, False] = 39304471641247389600"
    by (simp add: bits_from_def)
qed

definition r_full_power_0 :: onum where
  "r_full_power_0 = (D2 (D5 (D1 (D2 (D4 (D1 (D3 (D2 (D1 (D2 (D4 (D7 (D7 (D2 (D4 (D0 (D3 (D5 (D1 (D3 (D0 (D7 (D2 (D4
     (D4 (D5 (D3 (D0 (D3 (D7 (D4 (D1 (D6 (D7 (D4 (D2 (D7 (D4 (D2
     E)))))))))))))))))))))))))))))))))))))))"

lemma r_full_power_0_step: "pow2 75445702479781427272750846543864801 1047019450025907617 (ov r_full_power_0)"
proof (rule pow2_qpow [OF pow2_0(2) r_modulus])
  show "oeq (r_pow [True, True, True, False, True, False, False, False, False, True, True, True, True, True, False,
     False, False, False, True, False, True, False, True, False, False, True, False, False, False,
     True, True, True, False, True, True, True, True, False, True, True, True, False, False, False,
     False, False, False, True, False, True, False, True, True, False, True, False, False, False,
     False, True] (D1 E)) r_full_power_0"
    unfolding r_consts r_full_power_0_def by (simp only: qpow_eval)
  show "bits_from 0 [True, True, True, False, True, False, False, False, False, True, True, True, True, True, False,
     False, False, False, True, False, True, False, True, False, False, True, False, False, False,
     True, True, True, False, True, True, True, True, False, True, True, True, False, False, False,
     False, False, False, True, False, True, False, True, True, False, True, False, False, False,
     False, True] = 1047019450025907617"
    by (simp add: bits_from_def)
qed

definition r_full_power_1 :: onum where
  "r_full_power_1 = (D2 (D4 (D7 (D1 (D2 (D6 (D6 (D2 (D1 (D7 (D4 (D3 (D0 (D7 (D5 (D1 (D1 (D7 (D5 (D0 (D2 (D3 (D5 (D0
     (D0 (D7 (D6 (D3 (D7 (D0 (D1 (D5 (D2 (D0 (D7 (D3 (D0 (D5 (D3
     E)))))))))))))))))))))))))))))))))))))))"

lemma r_full_power_1_step: "pow2 75445702479781427272750846543864801 75445702479781427272750846543864800 (ov r_full_power_1)"
proof (rule pow2_qpow [OF r_full_power_0_step r_modulus])
  show "oeq (r_pow [False, True, True, True, True, False, False, True, False, False, True, True, False, True, True,
     True, True, False, False, False, False, True, True, True, False, False, True, True, True, False,
     False, True, False, True, False, True, True, False, True, True, False, False, True, False,
     False, False, True, True, True, True, True, False, False, False, False, False] r_full_power_0) r_full_power_1"
    unfolding r_consts r_full_power_0_def r_full_power_1_def by (simp only: qpow_eval)
  show "bits_from 1047019450025907617 [False, True, True, True, True, False, False, True, False, False, True, True, False, True, True,
     True, True, False, False, False, False, True, True, True, False, False, True, True, True, False,
     False, True, False, True, False, True, True, False, True, True, False, False, True, False,
     False, False, True, True, True, True, True, False, False, False, False, False] = 75445702479781427272750846543864800"
    by (simp add: bits_from_def)
qed

lemma prime_r: "is_prime 75445702479781427272750846543864801"
proof (rule criterion [where l = 1919519569386763 and R = 39304471641247389600 and t = 20476 and u = 388938484030412 and
    x = "ov r_low_power_1" and y = "ov r_full_power_1" and
    w = 74602835786463724888147869570305675 and
    k = 56113048138023733339996598108928949 and j = 1])
  show "is_prime (int 1919519569386763)" using prime_1919519569386763 by simp
  show "pow2 75445702479781427272750846543864801 39304471641247389600 (ov r_low_power_1)" by (rule r_low_power_1_step)
  show "pow2 75445702479781427272750846543864801 (1919519569386763 * 39304471641247389600) (ov r_full_power_1)" using r_full_power_1_step by (simp only: arith_simps)
qed (simp_all add: r_low_power_1_def r_full_power_1_def)

definition q_low :: "unit list" where
  "q_low = [(), (), (), (), (), (), (), (), (), (), (), (), (), (), (), (), (), (), (), (), (), (), (), (),
     (), (), (), (), (), (), (), (), (), (), (), (), (), (), (), (), (), (), (), (), (), (), (), (),
     (), (), (), (), (), (), (), (), (), (), (), (), (), (), (), (), (), (), (), (), (), (), (), (),
     (), (), (), ()]"

definition q_quot :: "unit list" where
  "q_quot = [(), (), (), (), (), (), (), (), (), (), (), (), (), (), (), (), (), (), (), (), (), (), (), (),
     (), (), (), (), (), (), (), (), (), (), (), (), (), (), (), (), (), (), (), (), (), (), (), (),
     (), (), (), (), (), (), (), (), (), (), (), (), (), (), (), (), (), (), (), (), (), (), (), (),
     (), (), (), (), (), (), (), (), (), (), (), ()]"

definition q_mod :: "unit list" where
  "q_mod = [(), (), (), (), (), (), (), (), (), (), (), (), (), (), (), (), (), (), (), (), (), (), (), (),
     (), (), (), (), (), (), (), (), (), (), (), (), (), (), (), (), (), (), (), (), (), (), (), (),
     (), (), (), (), (), (), (), (), (), (), (), (), (), (), (), (), (), (), (), (), (), (), (), (),
     (), (), (), (), (), (), (), ()]"

definition q_recip :: onum where
  "q_recip = (D0 (D0 (D0 (D0 (D0 (D0 (D0 (D0 (D0 (D0 (D0 (D0 (D0 (D0 (D0 (D0 (D0 (D0 (D0 (D0 (D0 (D0 (D0 (D0
     (D0 (D0 (D0 (D0 (D0 (D0 (D0 (D0 (D0 (D0 (D0 (D0 (D0 (D0 (D0 (D0 (D0 (D0 (D0 (D0 (D0 (D0 (D0 (D0
     (D0 (D0 (D0 (D0 (D0 (D0 (D0 (D0 (D0 (D0 (D0 (D0 (D0 (D0 (D0 (D0 (D0 (D0 (D0 (D0 (D0 (D0 (D0 (D0
     (D0 (D0 (D0 (D4 (D0 (D7 (D6 (D6 (D7 (D2
     E))))))))))))))))))))))))))))))))))))))))))))))))))))))))))))))))))))))))))))))))))"

definition q_comp :: onum where
  "q_comp = (D5 (D2 (D7 (D5 (D7 (D3 (D3 (D2 (D0 (D6 (D1 (D3 (D7 (D6 (D6 (D7 (D7 (D0 (D0 (D1 (D5 (D4 (D7 (D1
     (D6 (D0 (D6 (D4 (D3 (D7 (D2 (D7 (D6 (D4 (D1 (D1 (D3 (D2 (D0 (D2 (D2 (D6 (D6 (D4 (D7 (D0 (D5 (D2
     (D4 (D2 (D5 (D1 (D3 (D2 (D7 (D1 (D5 (D1 (D3 (D0 (D7 (D5 (D0 (D0 (D3 (D5 (D5 (D7 (D4 (D2 (D6 (D1
     (D7 (D0 (D4 (D2 (D4 (D2 (D5 (D7
     E))))))))))))))))))))))))))))))))))))))))))))))))))))))))))))))))))))))))))))))))"

lemmas q_consts = q_low_def q_quot_def q_mod_def q_recip_def q_comp_def

abbreviation q_pow :: "bool list \<Rightarrow> onum \<Rightarrow> onum" where
  "q_pow \<equiv> qpow q_low q_recip q_quot q_comp q_mod"

lemma q_modulus: "ov q_comp + 74058212732561358302231226437062788676166966415465897661863160754340907 = 8 ^ length q_mod"
  by (simp add: q_comp_def q_mod_def)

definition q_low_power_0 :: onum where
  "q_low_power_0 = (D6 (D0 (D2 (D4 (D3 (D6 (D7 (D0 (D7 (D5 (D0 (D7 (D0 (D6 (D2 (D5 (D5 (D2 (D6 (D2 (D2 (D1 (D0 (D6
     (D1 (D6 (D6 (D5 (D1 (D2 (D4 (D1 (D2 (D4 (D6 (D0 (D2 (D4 (D3 (D4 (D1 (D2 (D3 (D7 (D4 (D2 (D2 (D1
     (D7 (D7 (D6 (D3 (D6 (D2 (D5 (D7 (D4 (D0 (D6 (D0 (D2 (D1 (D6 (D2 (D5 (D3 (D4 (D5 (D6 (D4 (D0 (D1
     (D3 (D5 (D3 (D7 (D4 (D2 (D5
     E)))))))))))))))))))))))))))))))))))))))))))))))))))))))))))))))))))))))))))))))"

lemma q_low_power_0_step: "pow2 74058212732561358302231226437062788676166966415465897661863160754340907 851410458074051873 (ov q_low_power_0)"
proof (rule pow2_qpow [OF pow2_0(2) q_modulus])
  show "oeq (q_pow [True, False, True, True, True, True, False, True, False, False, False, False, True, True,
     False, True, False, False, False, True, False, True, False, False, True, True, False, False,
     True, True, True, True, False, True, True, True, True, False, False, False, True, True, True,
     False, False, True, True, True, False, True, False, True, False, False, True, False, False,
     False, False, True] (D1 E)) q_low_power_0"
    unfolding q_consts q_low_power_0_def by (simp only: qpow_eval)
  show "bits_from 0 [True, False, True, True, True, True, False, True, False, False, False, False, True, True,
     False, True, False, False, False, True, False, True, False, False, True, True, False, False,
     True, True, True, True, False, True, True, True, True, False, False, False, True, True, True,
     False, False, True, True, True, False, True, False, True, False, False, True, False, False,
     False, False, True] = 851410458074051873"
    by (simp add: bits_from_def)
qed

definition q_low_power_1 :: onum where
  "q_low_power_1 = (D0 (D1 (D4 (D1 (D0 (D3 (D0 (D6 (D2 (D3 (D0 (D1 (D1 (D1 (D2 (D6 (D3 (D3 (D5 (D2 (D0 (D5 (D2 (D5
     (D4 (D6 (D3 (D2 (D6 (D0 (D7 (D1 (D2 (D7 (D6 (D7 (D5 (D4 (D5 (D6 (D6 (D6 (D4 (D3 (D7 (D3 (D7 (D2
     (D4 (D4 (D3 (D4 (D6 (D3 (D6 (D2 (D3 (D5 (D6 (D5 (D4 (D0 (D6 (D0 (D0 (D3 (D7 (D4 (D7 (D1 (D4 (D5
     (D6 (D1 (D6 (D0 (D1 (D4 (D2
     E)))))))))))))))))))))))))))))))))))))))))))))))))))))))))))))))))))))))))))))))"

lemma q_low_power_1_step: "pow2 74058212732561358302231226437062788676166966415465897661863160754340907 981609426360740691344999861639072106 (ov q_low_power_1)"
proof (rule pow2_qpow [OF q_low_power_0_step q_modulus])
  show "oeq (q_pow [True, False, True, False, False, False, True, True, False, False, True, False, True, False,
     False, True, False, False, False, True, True, False, False, False, True, False, False, False,
     True, True, True, False, True, False, False, True, True, True, True, True, True, False, True,
     False, False, True, False, False, True, False, False, True, False, True, True, False, True,
     False, True, False] q_low_power_0) q_low_power_1"
    unfolding q_consts q_low_power_0_def q_low_power_1_def by (simp only: qpow_eval)
  show "bits_from 851410458074051873 [True, False, True, False, False, False, True, True, False, False, True, False, True, False,
     False, True, False, False, False, True, True, False, False, False, True, False, False, False,
     True, True, True, False, True, False, False, True, True, True, True, True, True, False, True,
     False, False, True, False, False, True, False, False, True, False, True, True, False, True,
     False, True, False] = 981609426360740691344999861639072106"
    by (simp add: bits_from_def)
qed

definition q_full_power_0 :: onum where
  "q_full_power_0 = (D0 (D7 (D5 (D5 (D0 (D1 (D0 (D3 (D4 (D3 (D4 (D1 (D6 (D5 (D6 (D7 (D0 (D6 (D4 (D5 (D5 (D1 (D1 (D5
     (D5 (D5 (D6 (D7 (D4 (D4 (D0 (D3 (D0 (D1 (D1 (D4 (D1 (D5 (D1 (D0 (D2 (D7 (D0 (D6 (D2 (D1 (D2 (D3
     (D5 (D2 (D7 (D4 (D0 (D7 (D4 (D0 (D3 (D0 (D0 (D2 (D4 (D0 (D7 (D2 (D2 (D2 (D4 (D2 (D0 (D5 (D6 (D0
     (D6 (D7 (D3 (D3 (D7 (D7 (D1
     E)))))))))))))))))))))))))))))))))))))))))))))))))))))))))))))))))))))))))))))))"

lemma q_full_power_0_step: "pow2 74058212732561358302231226437062788676166966415465897661863160754340907 773203818297228559 (ov q_full_power_0)"
proof (rule pow2_qpow [OF pow2_0(2) q_modulus])
  show "oeq (q_pow [True, False, True, False, True, False, True, True, True, False, True, False, True, True, True,
     True, True, False, False, False, True, True, False, False, False, True, True, False, True,
     False, True, True, False, False, False, False, True, False, False, True, False, True, False,
     False, True, True, True, True, True, True, False, True, False, False, False, False, True, True,
     True, True] (D1 E)) q_full_power_0"
    unfolding q_consts q_full_power_0_def by (simp only: qpow_eval)
  show "bits_from 0 [True, False, True, False, True, False, True, True, True, False, True, False, True, True, True,
     True, True, False, False, False, True, True, False, False, False, True, True, False, True,
     False, True, True, False, False, False, False, True, False, False, True, False, True, False,
     False, True, True, True, True, True, True, False, True, False, False, False, False, True, True,
     True, True] = 773203818297228559"
    by (simp add: bits_from_def)
qed

definition q_full_power_1 :: onum where
  "q_full_power_1 = (D4 (D6 (D1 (D7 (D3 (D1 (D7 (D6 (D6 (D5 (D0 (D2 (D5 (D6 (D6 (D6 (D7 (D3 (D3 (D7 (D1 (D5 (D5 (D6
     (D0 (D2 (D0 (D4 (D7 (D7 (D3 (D3 (D1 (D0 (D3 (D7 (D3 (D6 (D6 (D4 (D7 (D7 (D7 (D3 (D2 (D7 (D6 (D0
     (D3 (D2 (D7 (D0 (D4 (D2 (D4 (D5 (D0 (D3 (D5 (D1 (D4 (D7 (D6 (D1 (D7 (D5 (D2 (D6 (D2 (D2 (D6 (D2
     (D0 (D7 (D5 (D7 (D0 (D5 (D2
     E)))))))))))))))))))))))))))))))))))))))))))))))))))))))))))))))))))))))))))))))"

lemma q_full_power_1_step: "pow2 74058212732561358302231226437062788676166966415465897661863160754340907 891443309558999868467966286526702811 (ov q_full_power_1)"
proof (rule pow2_qpow [OF q_full_power_0_step q_modulus])
  show "oeq (q_pow [False, False, True, True, False, False, True, False, True, True, False, False, False, False,
     True, False, True, True, False, False, True, True, False, False, True, False, True, False, True,
     False, True, True, True, False, True, False, True, False, True, True, True, False, False, False,
     False, True, True, False, False, True, False, False, True, True, False, True, True, False, True,
     True] q_full_power_0) q_full_power_1"
    unfolding q_consts q_full_power_0_def q_full_power_1_def by (simp only: qpow_eval)
  show "bits_from 773203818297228559 [False, False, True, True, False, False, True, False, True, True, False, False, False, False,
     True, False, True, True, False, False, True, True, False, False, True, False, True, False, True,
     False, True, True, True, False, True, False, True, False, True, True, True, False, False, False,
     False, True, True, False, False, True, False, False, True, True, False, True, True, False, True,
     True] = 891443309558999868467966286526702811"
    by (simp add: bits_from_def)
qed

definition q_full_power_2 :: onum where
  "q_full_power_2 = (D2 (D4 (D6 (D1 (D3 (D7 (D6 (D7 (D5 (D0 (D1 (D5 (D5 (D1 (D4 (D3 (D2 (D7 (D2 (D5 (D7 (D0 (D3 (D1
     (D2 (D0 (D0 (D5 (D0 (D5 (D5 (D7 (D2 (D2 (D4 (D2 (D1 (D0 (D1 (D1 (D7 (D3 (D7 (D5 (D4 (D7 (D3 (D1
     (D6 (D1 (D7 (D1 (D6 (D1 (D1 (D4 (D1 (D1 (D5 (D1 (D6 (D7 (D6 (D7 (D4 (D0 (D3 (D5 (D2 (D2 (D6 (D6
     (D1 (D6 (D4 (D4 (D1 (D5
     E))))))))))))))))))))))))))))))))))))))))))))))))))))))))))))))))))))))))))))))"

lemma q_full_power_2_step: "pow2 74058212732561358302231226437062788676166966415465897661863160754340907 1027764161728469381771200830647844235934503887223505325 (ov q_full_power_2)"
proof (rule pow2_qpow [OF q_full_power_1_step q_modulus])
  show "oeq (q_pow [True, True, True, False, True, True, False, False, True, True, False, True, True, False, False,
     True, True, False, False, True, False, False, False, True, False, True, False, False, False,
     True, False, False, False, True, True, False, False, True, True, True, True, False, False, True,
     True, True, False, False, False, False, False, True, True, False, True, False, True, True,
     False, True] q_full_power_1) q_full_power_2"
    unfolding q_consts q_full_power_1_def q_full_power_2_def by (simp only: qpow_eval)
  show "bits_from 891443309558999868467966286526702811 [True, True, True, False, True, True, False, False, True, True, False, True, True, False, False,
     True, True, False, False, True, False, False, False, True, False, True, False, False, False,
     True, False, False, False, True, True, False, False, True, True, True, True, False, False, True,
     True, True, False, False, False, False, False, True, True, False, True, False, True, True,
     False, True] = 1027764161728469381771200830647844235934503887223505325"
    by (simp add: bits_from_def)
qed

definition q_full_power_3 :: onum where
  "q_full_power_3 = (D4 (D5 (D0 (D2 (D0 (D4 (D4 (D5 (D7 (D1 (D6 (D4 (D0 (D1 (D1 (D0 (D0 (D7 (D7 (D6 (D2 (D3 (D0 (D6
     (D1 (D7 (D1 (D3 (D4 (D0 (D5 (D0 (D1 (D3 (D6 (D6 (D4 (D5 (D7 (D5 (D5 (D1 (D1 (D3 (D0 (D7 (D2 (D5
     (D3 (D5 (D2 (D6 (D4 (D5 (D0 (D6 (D2 (D6 (D4 (D7 (D0 (D2 (D7 (D7 (D4 (D2 (D2 (D0 (D3 (D5 (D1 (D6
     (D0 (D7 (D3 (D5 (D3 (D5 (D2
     E)))))))))))))))))))))))))))))))))))))))))))))))))))))))))))))))))))))))))))))))"

lemma q_full_power_3_step: "pow2 74058212732561358302231226437062788676166966415465897661863160754340907 74058212732561358302231226437062788676166966415465897661863160754340906 (ov q_full_power_3)"
proof (rule pow2_qpow [OF q_full_power_2_step q_modulus])
  show "oeq (q_pow [True, True, True, True, True, False, False, False, False, False, False, False, False, True,
     False, False, True, False, False, False, True, False, False, True, True, False, False, False,
     True, True, True, True, True, False, True, True, False, False, True, False, False, False, False,
     False, False, True, False, False, False, False, True, False, True, False, True, False] q_full_power_2) q_full_power_3"
    unfolding q_consts q_full_power_2_def q_full_power_3_def by (simp only: qpow_eval)
  show "bits_from 1027764161728469381771200830647844235934503887223505325 [True, True, True, True, True, False, False, False, False, False, False, False, False, True,
     False, False, True, False, False, False, True, False, False, True, True, False, False, False,
     True, True, True, True, True, False, True, True, False, False, True, False, False, False, False,
     False, False, True, False, False, False, False, True, False, True, False, True, False] = 74058212732561358302231226437062788676166966415465897661863160754340906"
    by (simp add: bits_from_def)
qed

lemma prime_q: "is_prime 74058212732561358302231226437062788676166966415465897661863160754340907"
proof (rule criterion [where l = 75445702479781427272750846543864801 and R = 981609426360740691344999861639072106 and t = 13 and u = 815294123582136799238856568829693 and
    x = "ov q_low_power_1" and y = "ov q_full_power_3" and
    w = 70463328703800545008217672123162676565183935400628861884889913886334520 and
    k = 66117633491858138461393741777649859022484251587227054915412604379442197 and j = 1])
  show "is_prime (int 75445702479781427272750846543864801)" using prime_r by simp
  show "pow2 74058212732561358302231226437062788676166966415465897661863160754340907 981609426360740691344999861639072106 (ov q_low_power_1)" by (rule q_low_power_1_step)
  show "pow2 74058212732561358302231226437062788676166966415465897661863160754340907 (75445702479781427272750846543864801 * 981609426360740691344999861639072106) (ov q_full_power_3)" using q_full_power_3_step by (simp only: arith_simps)
qed (simp_all add: q_low_power_1_def q_full_power_3_def)

section \<open>The modulus\<close>

primrec gsquares :: "unit list \<Rightarrow> onum \<Rightarrow> onum" where
  "gsquares [] x = x"
| "gsquares (u # us) x = gsquares us (gmul x x)"

lemma og_gsquares: "og (gsquares us x) = og x ^ (2 ^ length us)"
  by (induction us arbitrary: x) (simp_all add: og_ops power_mult power2_eq_square mult.commute)

lemma pow2_fe_p: "pow2 fe_p v (ov x) \<longleftrightarrow> og x = 2 ^ v"
proof -
  have "(2 :: gf) ^ v = of_int (2 ^ v)" by simp
  then show ?thesis by (simp only: pow2_def og_def gf_of_int_eq)
qed

lemma pow2_gsquares:
  assumes "pow2 fe_p v (ov x)" "geq (gsquares us x) y" "v * 2 ^ length us = w"
  shows "pow2 fe_p w (ov y)"
proof -
  have "og y = (2 ^ v) ^ (2 ^ length us)"
    using assms(1) geqD [OF assms(2)] by (simp only: pow2_fe_p og_gsquares)
  then show ?thesis by (simp only: pow2_fe_p power_mult [symmetric] assms(3))
qed

definition p_square_6 :: onum where
  "p_square_6 = (D0 (D0 (D0 (D0 (D0 (D0 (D0 (D0 (D0 (D0 (D0 (D0 (D0 (D0 (D0 (D0 (D0 (D0 (D0 (D0 (D0 (D2
     E))))))))))))))))))))))"

lemma p_square_6_step: "pow2 fe_p 64 (ov p_square_6)"
  by (simp add: pow2_def p_square_6_def)

definition p_square_56 :: onum where
  "p_square_56 = (D2 (D3 (D5 (D5 (D0 (D2 (D1 (D1 (D1 (D3 (D6 (D0 (D2 (D4 (D6 (D4 (D6 (D4 (D5 (D1 (D0 (D0 (D0 (D2
     (D1 (D0 (D6 (D1 (D5 (D2 (D6 (D3 (D4 (D3 (D5 (D6 (D2 (D3 (D3 (D5 (D6 (D2 (D2 (D1 (D2 (D5 (D4 (D2
     (D1 (D1 (D5 (D1 (D3 (D4 (D4 (D1 (D3 (D4 (D6 (D7 (D4 (D0 (D5 (D0 (D7 (D5 (D1 (D4 (D7 (D6 (D6 (D1
     (D7 (D3 (D1 (D5 (D1 (D1 (D4 (D3 (D2 (D3 (D2 (D0 (D6
     E)))))))))))))))))))))))))))))))))))))))))))))))))))))))))))))))))))))))))))))))))))))"

lemma p_square_56_step: "pow2 fe_p 72057594037927936 (ov p_square_56)"
proof (rule pow2_gsquares [OF p_square_6_step])
  show "geq (gsquares [(), (), (), (), (), (), (), (), (), (), (), (), (), (), (), (), (), (), (), (), (), (), (), (),
     (), (), (), (), (), (), (), (), (), (), (), (), (), (), (), (), (), (), (), (), (), (), (), (),
     (), ()] p_square_6) p_square_56"
    unfolding p_square_6_def p_square_56_def by (simp only: octal_eval gsquares.simps)
  show "64 * 2 ^ length [(), (), (), (), (), (), (), (), (), (), (), (), (), (), (), (), (), (), (), (), (), (), (), (),
     (), (), (), (), (), (), (), (), (), (), (), (), (), (), (), (), (), (), (), (), (), (), (), (),
     (), ()] = (72057594037927936 :: nat)"
    by simp
qed

definition p_square_106 :: onum where
  "p_square_106 = (D3 (D4 (D5 (D4 (D3 (D2 (D0 (D2 (D1 (D3 (D0 (D1 (D6 (D1 (D4 (D7 (D1 (D7 (D4 (D3 (D0 (D5 (D2 (D5
     (D3 (D6 (D5 (D4 (D1 (D1 (D3 (D1 (D2 (D3 (D3 (D0 (D4 (D4 (D6 (D0 (D0 (D1 (D7 (D7 (D0 (D5 (D0 (D7
     (D3 (D4 (D4 (D5 (D3 (D5 (D3 (D4 (D2 (D7 (D4 (D7 (D1 (D1 (D0 (D5 (D4 (D0 (D7 (D5 (D3 (D6 (D0 (D5
     (D4 (D2 (D6 (D1 (D1 (D7 (D1 (D2 (D6 (D3 (D6 (D4 (D7
     E)))))))))))))))))))))))))))))))))))))))))))))))))))))))))))))))))))))))))))))))))))))"

lemma p_square_106_step: "pow2 fe_p 81129638414606681695789005144064 (ov p_square_106)"
proof (rule pow2_gsquares [OF p_square_56_step])
  show "geq (gsquares [(), (), (), (), (), (), (), (), (), (), (), (), (), (), (), (), (), (), (), (), (), (), (), (),
     (), (), (), (), (), (), (), (), (), (), (), (), (), (), (), (), (), (), (), (), (), (), (), (),
     (), ()] p_square_56) p_square_106"
    unfolding p_square_56_def p_square_106_def by (simp only: octal_eval gsquares.simps)
  show "72057594037927936 * 2 ^ length [(), (), (), (), (), (), (), (), (), (), (), (), (), (), (), (), (), (), (), (), (), (), (), (),
     (), (), (), (), (), (), (), (), (), (), (), (), (), (), (), (), (), (), (), (), (), (), (), (),
     (), ()] = (81129638414606681695789005144064 :: nat)"
    by simp
qed

definition p_square_156 :: onum where
  "p_square_156 = (D4 (D5 (D1 (D0 (D2 (D2 (D2 (D4 (D5 (D7 (D0 (D3 (D4 (D4 (D5 (D7 (D6 (D5 (D3 (D3 (D6 (D7 (D7 (D4
     (D1 (D6 (D4 (D6 (D2 (D3 (D7 (D6 (D5 (D7 (D0 (D3 (D2 (D1 (D4 (D6 (D3 (D6 (D1 (D5 (D3 (D1 (D7 (D3
     (D0 (D3 (D4 (D3 (D5 (D7 (D3 (D4 (D6 (D6 (D0 (D4 (D5 (D4 (D5 (D4 (D4 (D3 (D4 (D0 (D6 (D3 (D7 (D5
     (D7 (D2 (D7 (D0 (D4 (D2 (D6 (D4 (D6 (D7 (D4 (D7 (D5
     E)))))))))))))))))))))))))))))))))))))))))))))))))))))))))))))))))))))))))))))))))))))"

lemma p_square_156_step: "pow2 fe_p 91343852333181432387730302044767688728495783936 (ov p_square_156)"
proof (rule pow2_gsquares [OF p_square_106_step])
  show "geq (gsquares [(), (), (), (), (), (), (), (), (), (), (), (), (), (), (), (), (), (), (), (), (), (), (), (),
     (), (), (), (), (), (), (), (), (), (), (), (), (), (), (), (), (), (), (), (), (), (), (), (),
     (), ()] p_square_106) p_square_156"
    unfolding p_square_106_def p_square_156_def by (simp only: octal_eval gsquares.simps)
  show "81129638414606681695789005144064 * 2 ^ length [(), (), (), (), (), (), (), (), (), (), (), (), (), (), (), (), (), (), (), (), (), (), (), (),
     (), (), (), (), (), (), (), (), (), (), (), (), (), (), (), (), (), (), (), (), (), (), (), (),
     (), ()] = (91343852333181432387730302044767688728495783936 :: nat)"
    by simp
qed

definition p_square_206 :: onum where
  "p_square_206 = (D6 (D1 (D1 (D1 (D1 (D3 (D7 (D7 (D6 (D5 (D2 (D7 (D3 (D4 (D7 (D6 (D2 (D6 (D4 (D1 (D1 (D6 (D0 (D5
     (D1 (D3 (D7 (D2 (D1 (D7 (D0 (D3 (D5 (D6 (D5 (D5 (D5 (D2 (D0 (D5 (D2 (D3 (D0 (D1 (D3 (D6 (D0 (D5
     (D7 (D0 (D0 (D2 (D3 (D5 (D4 (D5 (D4 (D5 (D6 (D7 (D6 (D3 (D2 (D3 (D1 (D2 (D4 (D4 (D6 (D5 (D4 (D7
     (D2 (D4 (D6 (D2 (D6 (D4 (D4 (D4 (D5 (D3 (D1 (D7 (D1
     E)))))))))))))))))))))))))))))))))))))))))))))))))))))))))))))))))))))))))))))))))))))"

lemma p_square_206_step: "pow2 fe_p 102844034832575377634685573909834406561420991602098741459288064 (ov p_square_206)"
proof (rule pow2_gsquares [OF p_square_156_step])
  show "geq (gsquares [(), (), (), (), (), (), (), (), (), (), (), (), (), (), (), (), (), (), (), (), (), (), (), (),
     (), (), (), (), (), (), (), (), (), (), (), (), (), (), (), (), (), (), (), (), (), (), (), (),
     (), ()] p_square_156) p_square_206"
    unfolding p_square_156_def p_square_206_def by (simp only: octal_eval gsquares.simps)
  show "91343852333181432387730302044767688728495783936 * 2 ^ length [(), (), (), (), (), (), (), (), (), (), (), (), (), (), (), (), (), (), (), (), (), (), (), (),
     (), (), (), (), (), (), (), (), (), (), (), (), (), (), (), (), (), (), (), (), (), (), (), (),
     (), ()] = (102844034832575377634685573909834406561420991602098741459288064 :: nat)"
    by simp
qed

definition p_square_254 :: onum where
  "p_square_254 = (D5 (D5 (D7 (D5 (D7 (D7 (D7 (D7 (D7 (D7 (D7 (D7 (D7 (D7 (D7 (D7 (D7 (D7 (D7 (D7 (D7 (D7 (D7 (D7
     (D7 (D7 (D7 (D7 (D7 (D7 (D7 (D7 (D7 (D7 (D7 (D7 (D7 (D7 (D7 (D7 (D7 (D7 (D7 (D7 (D7 (D7 (D7 (D7
     (D7 (D7 (D7 (D7 (D7 (D7 (D7 (D7 (D7 (D7 (D7 (D7 (D7 (D7 (D7 (D7 (D7 (D7 (D7 (D7 (D7 (D7 (D7 (D7
     (D7 (D7 (D7 (D7 (D7 (D7 (D7 (D7 (D7 (D7 (D7 (D7 (D7
     E)))))))))))))))))))))))))))))))))))))))))))))))))))))))))))))))))))))))))))))))))))))"

lemma p_square_254_step: "pow2 fe_p 28948022309329048855892746252171976963317496166410141009864396001978282409984 (ov p_square_254)"
proof (rule pow2_gsquares [OF p_square_206_step])
  show "geq (gsquares [(), (), (), (), (), (), (), (), (), (), (), (), (), (), (), (), (), (), (), (), (), (), (), (),
     (), (), (), (), (), (), (), (), (), (), (), (), (), (), (), (), (), (), (), (), (), (), (), ()] p_square_206) p_square_254"
    unfolding p_square_206_def p_square_254_def by (simp only: octal_eval gsquares.simps)
  show "102844034832575377634685573909834406561420991602098741459288064 * 2 ^ length [(), (), (), (), (), (), (), (), (), (), (), (), (), (), (), (), (), (), (), (), (), (), (), (),
     (), (), (), (), (), (), (), (), (), (), (), (), (), (), (), (), (), (), (), (), (), (), (), ()] = (28948022309329048855892746252171976963317496166410141009864396001978282409984 :: nat)"
    by simp
qed

definition p_square_255 :: onum where
  "p_square_255 = (D0 (D0 (D0 (D0 (D0 (D0 (D4 E)))))))"

lemma p_square_255_step: "pow2 fe_p 57896044618658097711785492504343953926634992332820282019728792003956564819968 (ov p_square_255)"
proof (rule pow2_gsquares [OF p_square_254_step])
  show "geq (gsquares [()] p_square_254) p_square_255"
    unfolding p_square_254_def p_square_255_def by (simp only: octal_eval gsquares.simps)
  show "28948022309329048855892746252171976963317496166410141009864396001978282409984 * 2 ^ length [()] = (57896044618658097711785492504343953926634992332820282019728792003956564819968 :: nat)"
    by simp
qed

definition p_low :: "unit list" where
  "p_low = [(), (), (), (), (), (), (), (), (), (), (), (), (), (), (), (), (), (), (), (), (), (), (), (),
     (), (), (), (), (), (), (), (), (), (), (), (), (), (), (), (), (), (), (), (), (), (), (), (),
     (), (), (), (), (), (), (), (), (), (), (), (), (), (), (), (), (), (), (), (), (), (), (), (),
     (), (), (), (), (), (), (), (), (), ()]"

definition p_quot :: "unit list" where
  "p_quot = [(), (), (), (), (), (), (), (), (), (), (), (), (), (), (), (), (), (), (), (), (), (), (), (),
     (), (), (), (), (), (), (), (), (), (), (), (), (), (), (), (), (), (), (), (), (), (), (), (),
     (), (), (), (), (), (), (), (), (), (), (), (), (), (), (), (), (), (), (), (), (), (), (), (),
     (), (), (), (), (), (), (), (), (), (), (), (), (), (), (), (), (), ()]"

definition p_mod :: "unit list" where
  "p_mod = [(), (), (), (), (), (), (), (), (), (), (), (), (), (), (), (), (), (), (), (), (), (), (), (),
     (), (), (), (), (), (), (), (), (), (), (), (), (), (), (), (), (), (), (), (), (), (), (), (),
     (), (), (), (), (), (), (), (), (), (), (), (), (), (), (), (), (), (), (), (), (), (), (), (),
     (), (), (), (), (), (), (), (), (), (), (), (), (), ()]"

definition p_recip :: onum where
  "p_recip = (D0 (D0 (D3 (D2 (D0 (D0 (D0 (D0 (D0 (D0 (D0 (D0 (D0 (D0 (D0 (D0 (D0 (D0 (D0 (D0 (D0 (D0 (D0 (D0
     (D0 (D0 (D0 (D0 (D0 (D0 (D0 (D0 (D0 (D0 (D0 (D0 (D0 (D0 (D0 (D0 (D0 (D0 (D0 (D0 (D0 (D0 (D0 (D0
     (D0 (D0 (D0 (D0 (D0 (D0 (D0 (D0 (D0 (D0 (D0 (D0 (D0 (D0 (D0 (D0 (D0 (D0 (D0 (D0 (D0 (D0 (D0 (D0
     (D0 (D0 (D0 (D0 (D0 (D0 (D0 (D0 (D0 (D0 (D0 (D0 (D0 (D0 (D0 (D1
     E))))))))))))))))))))))))))))))))))))))))))))))))))))))))))))))))))))))))))))))))))))))))"

definition p_comp :: onum where
  "p_comp = (D3 (D2 (D0 (D0 (D0 (D0 (D0 (D0 (D0 (D0 (D0 (D0 (D0 (D0 (D0 (D0 (D0 (D0 (D0 (D0 (D0 (D0 (D0 (D0
     (D0 (D0 (D0 (D0 (D0 (D0 (D0 (D0 (D0 (D0 (D0 (D0 (D0 (D0 (D0 (D0 (D0 (D0 (D0 (D0 (D0 (D0 (D0 (D0
     (D0 (D0 (D0 (D0 (D0 (D0 (D0 (D0 (D0 (D0 (D0 (D0 (D0 (D0 (D0 (D0 (D0 (D0 (D0 (D0 (D0 (D0 (D0 (D0
     (D0 (D0 (D0 (D0 (D0 (D0 (D0 (D0 (D0 (D0 (D0 (D0 (D0 (D7
     E))))))))))))))))))))))))))))))))))))))))))))))))))))))))))))))))))))))))))))))))))))))"

lemmas p_consts = p_low_def p_quot_def p_mod_def p_recip_def p_comp_def

abbreviation p_pow :: "bool list \<Rightarrow> onum \<Rightarrow> onum" where
  "p_pow \<equiv> qpow p_low p_recip p_quot p_comp p_mod"

lemma p_modulus: "ov p_comp + 57896044618658097711785492504343953926634992332820282019728792003956564819949 = 8 ^ length p_mod"
  by (simp add: p_comp_def p_mod_def)

definition p_low_power_0 :: onum where
  "p_low_power_0 = (D1 (D1 (D1 (D5 (D5 (D6 (D1 (D5 (D1 (D4 (D1 (D7 (D3 (D0 (D4 (D5 (D7 (D6 (D7 (D0 (D3 (D0 (D5 (D3
     (D0 (D3 (D0 (D6 (D2 (D0 (D5 (D0 (D3 (D2 (D2 (D4 (D4 (D2 (D3 (D3 (D1 (D1 (D4 (D5 (D3 (D3 (D4 (D1
     (D3 (D0 (D1 (D2 (D7 (D6 (D6 (D0 (D4 (D7 (D7 (D4 (D4 (D0 (D7 (D1 (D0 (D7 (D3 (D7 (D6 (D5 (D7 (D0
     (D1 (D1 (D1 (D6 (D0 (D4 (D6 (D5 (D1 (D6 (D3
     E)))))))))))))))))))))))))))))))))))))))))))))))))))))))))))))))))))))))))))))))))))"

lemma p_low_power_0_step: "pow2 57896044618658097711785492504343953926634992332820282019728792003956564819949 781764 (ov p_low_power_0)"
proof (rule pow2_qpow [OF pow2_0(2) p_modulus])
  show "oeq (p_pow [True, False, True, True, True, True, True, False, True, True, False, True, True, True, False,
     False, False, True, False, False] (D1 E)) p_low_power_0"
    unfolding p_consts p_low_power_0_def by (simp only: qpow_eval)
  show "bits_from 0 [True, False, True, True, True, True, True, False, True, True, False, True, True, True, False,
     False, False, True, False, False] = 781764"
    by (simp add: bits_from_def)
qed

lemma cancel_two:
  assumes "odd n" "pow2 n (e + k) (2 ^ k)"
  shows "pow2 n e 1"
proof -
  have "n dvd 2 ^ k * (2 ^ e - 1)"
    using assms(2) by (simp add: pow2_def mod_eq_dvd_iff power_add algebra_simps dvd_diff_commute)
  moreover have "coprime n (2 ^ k)" using assms(1) by (simp add: coprime_right_2_iff_odd)
  ultimately have "n dvd 2 ^ e - 1" by (simp add: coprime_dvd_mult_right_iff)
  then show ?thesis by (simp add: pow2_def mod_eq_dvd_iff dvd_diff_commute)
qed

lemma fermat_two: "pow2 fe_p 57896044618658097711785492504343953926634992332820282019728792003956564819948 1"
proof (rule cancel_two [where k = 20])
  have "ov p_square_255 = 2 ^ 20" by (simp add: p_square_255_def)
  then show "pow2 fe_p (57896044618658097711785492504343953926634992332820282019728792003956564819948 + 20) (2 ^ 20)" using p_square_255_step by (simp only: arith_simps)
qed (simp add: fe_p_def)

theorem prime_fe_p: "is_prime fe_p"
proof (rule criterion [where l = 74058212732561358302231226437062788676166966415465897661863160754340907 and R = 781764 and t = 0 and u = 781764 and
    x = "ov p_low_power_0" and y = 1 and
    w = 55540832096118778044507775605005710249233119951144946814680141076505643269084 and
    k = 409719996120619553712206717513598108624848060785013849502386565616653579131 and j = 0])
  show "is_prime (int 74058212732561358302231226437062788676166966415465897661863160754340907)" using prime_q by simp
  show "pow2 fe_p 781764 (ov p_low_power_0)" using p_low_power_0_step by (simp only: fe_p_def) simp
  show "pow2 fe_p (74058212732561358302231226437062788676166966415465897661863160754340907 * 781764) 1" using fermat_two by (simp only: arith_simps)
qed (simp_all add: fe_p_def p_low_power_0_def)

end
