(* ===== verification/Gf_Field.thy ===== *)
theory Gf_Field
  imports Prime_25519
begin

text \<open>
  The residues modulo 2^255-19 are a field, whose inverse is the power the code computes, and
  the constant d of the curve is not a square in it.
\<close>

section \<open>Inverses\<close>

lemma Rep_gf_power: "Rep_gf (x ^ n) = Rep_gf x ^ n mod fe_p"
proof (induction n)
  case (Suc n)
  then show ?case by (simp add: times_gf.rep_eq mod_mult_right_eq)
qed (simp add: one_gf.rep_eq)

lemma gf_fermat:
  assumes "(x :: gf) \<noteq> 0"
  shows "x ^ nat (fe_p - 1) = 1"
proof -
  have "0 \<le> Rep_gf x" "Rep_gf x < fe_p" using Rep_gf [of x] by simp_all
  moreover have "Rep_gf x \<noteq> 0" using assms Rep_gf_inject [of x 0] by (simp add: zero_gf.rep_eq)
  ultimately have "\<not> fe_p dvd Rep_gf x" by (auto dest: zdvd_imp_le)
  from fermat [OF prime_fe_p this] have "Rep_gf (x ^ nat (fe_p - 1)) = Rep_gf 1"
    by (simp add: Rep_gf_power one_gf.rep_eq)
  then show ?thesis by (simp only: Rep_gf_inject)
qed

instantiation gf :: field
begin

definition inverse_gf :: "gf \<Rightarrow> gf" where
  "inverse_gf x = x ^ (2 ^ 255 - 21)"

definition divide_gf :: "gf \<Rightarrow> gf \<Rightarrow> gf" where
  "divide_gf x y = x * inverse y"

instance
proof
  fix x y :: gf
  show "inverse (0 :: gf) = 0" by (simp add: inverse_gf_def)
  show "x div y = x * inverse y" by (rule divide_gf_def)
  assume "x \<noteq> 0"
  have "nat (fe_p - 1) = Suc (2 ^ 255 - 21)" by (simp add: fe_p_def)
  with gf_fermat [OF \<open>x \<noteq> 0\<close>] show "inverse x * x = 1"
    by (simp only: inverse_gf_def power_Suc mult.commute)
qed

end

lemma gf_numeral_ne_0:
  assumes "(numeral n :: int) mod fe_p \<noteq> 0"
  shows "(numeral n :: gf) \<noteq> 0"
  using assms gf_of_int_0 [of "numeral n"] by simp

section \<open>Squares\<close>

lemma gf_two_ne_0: "(2 :: gf) \<noteq> 0"
  by (rule gf_numeral_ne_0) (simp add: fe_p_def)

text \<open>
  Euler's criterion on the chain of squarings of the primality proof: 2^(2^254) is -(2^10),
  while a square would have given 2^10.
\<close>

lemma two_not_square: "z * z \<noteq> (2 :: gf)"
proof
  assume z: "z * z = 2"
  then have z0: "z \<noteq> 0" using gf_two_ne_0 by auto
  have e: "nat (fe_p - 1) + 20 = 2 * 2 ^ 254" by (simp add: fe_p_def)
  have "z ^ (nat (fe_p - 1) + 20) = z ^ 20" by (simp only: power_add gf_fermat [OF z0] mult_1)
  then have "(z * z) ^ (2 ^ 254) = (z * z) ^ 10"
    unfolding e power_mult power2_eq_square [symmetric] by (simp only: power_mult [symmetric]) simp
  then have "(2 :: gf) ^ (2 ^ 254) = 2 ^ 10" by (simp only: z)
  moreover have "og p_square_254 = 2 ^ (2 ^ 254)"
  proof -
    have "(2 :: nat) ^ 254 = 28948022309329048855892746252171976963317496166410141009864396001978282409984" by simp
    with p_square_254_step show ?thesis by (simp only: pow2_fe_p)
  qed
  ultimately have "og p_square_254 = 2 ^ 10" by (rule trans [rotated])
  also have "\<dots> = of_int (2 ^ 10)" by (simp only: of_int_power of_int_numeral)
  finally have "og p_square_254 = of_int (2 ^ 10)" .
  then have "ov p_square_254 mod fe_p = 2 ^ 10 mod fe_p" by (simp only: og_def gf_of_int_eq)
  then show False by (simp add: p_square_254_def fe_p_def)
qed

end
