(* ===== verification/Edwards.thy ===== *)
theory Edwards
  imports Gf
begin

text \<open>
  What the point code of ed25519 promises: addition on the twisted Edwards curve
  -x^2 + y^2 = 1 + d x^2 y^2 over the residues modulo 2^255-19, in extended coordinates
  (X, Y, Z, T) with x = X/Z, y = Y/Z and x y = T/Z.
\<close>

section \<open>The curve\<close>

type_synonym ext = "gf \<times> gf \<times> gf \<times> gf"

text \<open>The constant d = -121665/121666 as a residue, and a square root of -1.\<close>

definition ed_d :: gf where
  "ed_d = of_int
    37095705934669439343138083508754565189542113879843219016388785533085940283555"

definition ed_i :: gf where
  "ed_i = of_int
    19681161376707505956807079304988542015446066515923890162744021073123829784752"

lemma ed_d_ratio: "121666 * ed_d = - 121665"
proof -
  have "(of_int (121666 *
      37095705934669439343138083508754565189542113879843219016388785533085940283555) :: gf) =
    of_int (- 121665)"
    unfolding gf_of_int_eq by (simp add: fe_p_def)
  then show ?thesis by (simp only: ed_d_def of_int_mult of_int_minus of_int_numeral)
qed

lemma ed_i_square: "ed_i * ed_i = - 1"
proof -
  let ?i = "19681161376707505956807079304988542015446066515923890162744021073123829784752 :: int"
  have "?i * ?i + 1 =
      6690407189080634018507799843845558368979872843924222843531373839242004886245 * fe_p"
    by (simp add: fe_p_def)
  then have "(of_int (?i * ?i + 1) :: gf) = of_int 0" by (simp only: gf_of_int_0 of_int_0 mod_mult_self2_is_0)
  then have "ed_i * ed_i + 1 = 0" by (simp only: ed_i_def of_int_mult of_int_add of_int_1 of_int_0)
  then show ?thesis by (simp only: add_eq_0_iff2)
qed

fun on_curve :: "ext \<Rightarrow> bool" where
  "on_curve (X, Y, Z, T) \<longleftrightarrow> Y * Y - X * X = Z * Z + ed_d * T * T \<and> X * Y = Z * T"

text \<open>Two coordinate vectors of one affine point.\<close>

fun ext_eq :: "ext \<Rightarrow> ext \<Rightarrow> bool" where
  "ext_eq (X1, Y1, Z1, T1) (X2, Y2, Z2, T2) \<longleftrightarrow>
     X1 * Z2 = X2 * Z1 \<and> Y1 * Z2 = Y2 * Z1 \<and> T1 * Z2 = T2 * Z1"

definition ext_zero :: ext where
  "ext_zero = (0, 1, 1, 0)"

fun ext_neg :: "ext \<Rightarrow> ext" where
  "ext_neg (X, Y, Z, T) = (- X, Y, Z, - T)"

section \<open>Addition and doubling\<close>

fun ext_add :: "ext \<Rightarrow> ext \<Rightarrow> ext" where
  "ext_add (X1, Y1, Z1, T1) (X2, Y2, Z2, T2) =
     (let A = (Y1 - X1) * (Y2 - X2);
          B = (Y1 + X1) * (Y2 + X2);
          C = 2 * ed_d * T1 * T2;
          D = 2 * Z1 * Z2;
          E = B - A; F = D - C; G = D + C; H = B + A
      in (E * F, G * H, F * G, E * H))"

fun ext_dbl :: "ext \<Rightarrow> ext" where
  "ext_dbl (X, Y, Z, T) =
     (let E = 2 * X * Y; H = Y * Y + X * X; G = Y * Y - X * X; F = 2 * Z * Z - G
      in (E * F, G * H, F * G, E * H))"

text \<open>
  The affine law x3 = (x1 y2 + y1 x2) / (1 + d x1 x2 y1 y2),
  y3 = (y1 y2 + x1 x2) / (1 - d x1 x2 y1 y2) with its denominators multiplied out.
\<close>

fun ed_law :: "ext \<Rightarrow> ext \<Rightarrow> ext \<Rightarrow> bool" where
  "ed_law (X1, Y1, Z1, T1) (X2, Y2, Z2, T2) (X3, Y3, Z3, T3) \<longleftrightarrow>
     (let w = Z1 * Z2; k = ed_d * X1 * X2 * Y1 * Y2
      in X3 * (w * w + k) = Z3 * w * (X1 * Y2 + Y1 * X2) \<and>
         Y3 * (w * w - k) = Z3 * w * (Y1 * Y2 + X1 * X2))"

text \<open>Ring identities behind the curve equation and the law; the hypotheses enter as cofactors.\<close>

lemma ext_cross:
  fixes X1 :: "'a::comm_ring_1"
  assumes "Y1 * Y1 - X1 * X1 = Z1 * Z1 + d * T1 * T1" "X1 * Y1 = Z1 * T1"
    "Y2 * Y2 - X2 * X2 = Z2 * Z2 + d * T2 * T2" "X2 * Y2 = Z2 * T2"
  shows "(Z1 * Z2 - d * T1 * T2) * (Z1 * T2 - T1 * Z2) =
    - ((Y1 * Y2 + X1 * X2) * (X1 * Y2 - Y1 * X2))"
proof -
  have "(Z1 * Z2 - d * T1 * T2) * (Z1 * T2 - T1 * Z2) =
    (Z2 * T2) * (Z1 * Z1 + d * T1 * T1) - (Z1 * T1) * (Z2 * Z2 + d * T2 * T2)" by (simp add: algebra_simps)
  also have "\<dots> = (X2 * Y2) * (Y1 * Y1 - X1 * X1) - (X1 * Y1) * (Y2 * Y2 - X2 * X2)"
    by (simp only: assms)
  also have "\<dots> = - ((Y1 * Y2 + X1 * X2) * (X1 * Y2 - Y1 * X2))" by (simp add: algebra_simps)
  finally show ?thesis .
qed

lemma ext_add_identity:
  fixes X1 :: "'a::comm_ring_1"
  assumes "e = X1 * Y2 + Y1 * X2" "h = Y1 * Y2 + X1 * X2"
    and "f = Z1 * Z2 - d * T1 * T2" "g = Z1 * Z2 + d * T1 * T2"
  shows "(g * h) * (g * h) - (e * f) * (e * f) - ((f * g) * (f * g) + d * (e * h) * (e * h)) =
    f * f * ((Y1 * Y1 - X1 * X1) * (Y2 * Y2 - X2 * X2) -
      (Z1 * Z1 + d * T1 * T1) * (Z2 * Z2 + d * T2 * T2)) +
    d * ((f * (Z1 * T2 - T1 * Z2)) * (f * (Z1 * T2 - T1 * Z2)) -
      (- (h * (X1 * Y2 - Y1 * X2))) * (- (h * (X1 * Y2 - Y1 * X2)))) +
    4 * d * h * h * ((Z1 * T1) * (Z2 * T2) - (X1 * Y1) * (X2 * Y2))"
  unfolding assms by (simp add: algebra_simps)

lemma ext_add_curve:
  fixes X1 :: "'a::comm_ring_1"
  assumes c: "Y1 * Y1 - X1 * X1 = Z1 * Z1 + d * T1 * T1" "X1 * Y1 = Z1 * T1"
    "Y2 * Y2 - X2 * X2 = Z2 * Z2 + d * T2 * T2" "X2 * Y2 = Z2 * T2"
    and e: "e = X1 * Y2 + Y1 * X2" "h = Y1 * Y2 + X1 * X2"
      "f = Z1 * Z2 - d * T1 * T2" "g = Z1 * Z2 + d * T1 * T2"
  shows "(g * h) * (g * h) - (e * f) * (e * f) = (f * g) * (f * g) + d * (e * h) * (e * h)"
  using ext_add_identity [OF e] ext_cross [OF c] by (simp add: e(2,3) c)

lemma ext_add_factors:
  "ext_add (X1, Y1, Z1, T1) (X2, Y2, Z2, T2) =
    (let E = 2 * (X1 * Y2 + Y1 * X2); H = 2 * (Y1 * Y2 + X1 * X2);
         F = 2 * (Z1 * Z2 - ed_d * T1 * T2); G = 2 * (Z1 * Z2 + ed_d * T1 * T2)
     in (E * F, G * H, F * G, E * H))"
  unfolding ext_add.simps Let_def prod.inject by (intro conjI; simp add: algebra_simps)

lemma ext_add_law:
  assumes "on_curve P" "on_curve Q"
  shows "ed_law P Q (ext_add P Q)"
proof (cases P; cases Q)
  fix X1 Y1 Z1 T1 X2 Y2 Z2 T2
  assume P: "P = (X1, Y1, Z1, T1)" and Q: "Q = (X2, Y2, Z2, T2)"
  have "X1 * Y1 = Z1 * T1" "X2 * Y2 = Z2 * T2" using assms by (simp_all add: P Q)
  moreover have "ed_d * X1 * X2 * Y1 * Y2 = ed_d * (X1 * Y1) * (X2 * Y2)" by (simp add: algebra_simps)
  ultimately have k: "ed_d * X1 * X2 * Y1 * Y2 = ed_d * (Z1 * T1) * (Z2 * T2)" by simp
  show ?thesis
    unfolding P Q ext_add_factors ed_law.simps Let_def k by (intro conjI; simp add: algebra_simps)
qed

lemma ext_add_on_curve:
  assumes "on_curve P" "on_curve Q"
  shows "on_curve (ext_add P Q)"
proof (cases P; cases Q)
  fix X1 Y1 Z1 T1 X2 Y2 Z2 T2
  assume P: "P = (X1, Y1, Z1, T1)" and Q: "Q = (X2, Y2, Z2, T2)"
  have c: "Y1 * Y1 - X1 * X1 = Z1 * Z1 + ed_d * T1 * T1" "X1 * Y1 = Z1 * T1"
    "Y2 * Y2 - X2 * X2 = Z2 * Z2 + ed_d * T2 * T2" "X2 * Y2 = Z2 * T2"
    using assms by (simp_all add: P Q)
  have quad: "(2 * g * (2 * h)) * (2 * g * (2 * h)) - (2 * e * (2 * f)) * (2 * e * (2 * f)) =
      (2 * f * (2 * g)) * (2 * f * (2 * g)) + ed_d * (2 * e * (2 * h)) * (2 * e * (2 * h))"
    if "(g * h) * (g * h) - (e * f) * (e * f) = (f * g) * (f * g) + ed_d * (e * h) * (e * h)"
    for e f g h :: gf
  proof -
    have "(2 * g * (2 * h)) * (2 * g * (2 * h)) - (2 * e * (2 * f)) * (2 * e * (2 * f)) =
        16 * ((g * h) * (g * h) - (e * f) * (e * f))" by (simp add: algebra_simps)
    also have "\<dots> = 16 * ((f * g) * (f * g) + ed_d * (e * h) * (e * h))" unfolding that ..
    also have "\<dots> = (2 * f * (2 * g)) * (2 * f * (2 * g)) +
        ed_d * (2 * e * (2 * h)) * (2 * e * (2 * h))" by (simp add: algebra_simps)
    finally show ?thesis .
  qed
  show ?thesis
    unfolding P Q ext_add_factors Let_def on_curve.simps
    by (intro conjI quad ext_add_curve [OF c] refl) (simp only: ac_simps)
qed

text \<open>On the curve, the doubling formula is the sum of a point with itself.\<close>

lemma ext_dbl_denominators:
  assumes "on_curve (X, Y, Z, T)"
  shows "Y * Y - X * X = Z * Z + ed_d * T * T"
    and "2 * Z * Z - (Y * Y - X * X) = Z * Z - ed_d * T * T"
proof -
  show c: "Y * Y - X * X = Z * Z + ed_d * T * T" using assms by simp
  show "2 * Z * Z - (Y * Y - X * X) = Z * Z - ed_d * T * T" unfolding c by (simp add: algebra_simps)
qed

lemma ext_dbl_factors:
  assumes "on_curve (X, Y, Z, T)"
  shows "ext_dbl (X, Y, Z, T) =
    (let E = X * Y + Y * X; H = Y * Y + X * X; F = Z * Z - ed_d * T * T; G = Z * Z + ed_d * T * T
     in (E * F, G * H, F * G, E * H))"
  using ext_dbl_denominators [OF assms] by (simp add: Let_def mult.commute mult_2)

lemma ext_add_self:
  "ext_add (X, Y, Z, T) (X, Y, Z, T) =
    (let E = X * Y + Y * X; H = Y * Y + X * X; F = Z * Z - ed_d * T * T; G = Z * Z + ed_d * T * T
     in (4 * (E * F), 4 * (G * H), 4 * (F * G), 4 * (E * H)))"
  unfolding ext_add_factors Let_def prod.inject by (intro conjI; simp add: algebra_simps)

lemma ext_dbl_add:
  assumes "on_curve P"
  shows "ext_eq (ext_dbl P) (ext_add P P)"
proof (cases P)
  fix X Y Z T
  assume P: "P = (X, Y, Z, T)"
  show ?thesis
    using assms unfolding P ext_add_self
    by (simp only: ext_dbl_factors Let_def ext_eq.simps) (simp add: algebra_simps)
qed

lemma ext_dbl_on_curve:
  assumes "on_curve P"
  shows "on_curve (ext_dbl P)"
proof (cases P)
  fix X Y Z T
  assume P: "P = (X, Y, Z, T)"
  note c = assms [unfolded P]
  have e: "Y * Y - X * X = Z * Z + ed_d * T * T" "X * Y = Z * T" using c by simp_all
  show ?thesis
    unfolding P ext_dbl_factors [OF c] Let_def on_curve.simps
    by (intro conjI ext_add_curve [OF e e] refl) (simp only: ac_simps)
qed

lemma ext_dbl_law:
  assumes "on_curve P"
  shows "ed_law P P (ext_dbl P)"
proof (cases P)
  fix X Y Z T
  assume P: "P = (X, Y, Z, T)"
  note c = assms [unfolded P]
  have "X * Y = Z * T" using c by simp
  moreover have "ed_d * X * X * Y * Y = ed_d * (X * Y) * (X * Y)" by (simp add: algebra_simps)
  ultimately have k: "ed_d * X * X * Y * Y = ed_d * (Z * T) * (Z * T)" by simp
  show ?thesis
    unfolding P ext_dbl_factors [OF c] ed_law.simps Let_def k by (intro conjI; simp add: algebra_simps)
qed

lemma ext_zero_on_curve: "on_curve ext_zero"
  by (simp add: ext_zero_def)

lemma ext_neg_on_curve: "on_curve P \<Longrightarrow> on_curve (ext_neg P)"
  by (cases P) simp

lemma ext_add_commute: "ext_add P Q = ext_add Q P"
proof (cases P; cases Q)
  fix X1 Y1 Z1 T1 X2 Y2 Z2 T2
  assume P: "P = (X1, Y1, Z1, T1)" and Q: "Q = (X2, Y2, Z2, T2)"
  show ?thesis
    unfolding P Q ext_add_factors Let_def prod.inject
    by (intro conjI; simp add: algebra_simps)
qed

lemma ext_scaled_product:
  assumes "on_curve (X, Y, Z, T)"
  shows "X * (Y * (Z * 4)) = T * (Z * (Z * 4))"
proof -
  have "X * (Y * (Z * 4)) = (X * Y) * (Z * 4)" by (simp only: mult.assoc)
  also have "X * Y = Z * T" using assms by simp
  finally show ?thesis by (simp only: ac_simps)
qed

lemma ext_add_zero:
  assumes "on_curve P"
  shows "ext_eq (ext_add P ext_zero) P"
proof (cases P)
  fix X Y Z T
  assume P: "P = (X, Y, Z, T)"
  show ?thesis
    unfolding P ext_zero_def ext_add_factors ext_eq.simps Let_def
    by (intro conjI; simp add: algebra_simps ext_scaled_product [OF assms [unfolded P]])
qed

lemma ext_add_neg:
  assumes "on_curve P"
  shows "ext_eq (ext_add P (ext_neg P)) ext_zero"
proof (cases P)
  fix X Y Z T
  assume P: "P = (X, Y, Z, T)"
  have c: "Y * Y + X * - X = Z * Z - ed_d * T * - T"
    using assms by (simp add: P)
  show ?thesis
    unfolding P ext_neg.simps ext_add_factors ext_eq.simps ext_zero_def Let_def c
    by (intro conjI; simp add: algebra_simps)
qed

end
