(* ===== verification/Edwards_Group.thy ===== *)
theory Edwards_Group
  imports Gf_Field Edwards
begin

text \<open>
  The points of the curve -x^2 + y^2 = 1 + d x^2 y^2 over the field form an abelian group
  under the addition law, without exceptional cases because d is not a square.
\<close>

section \<open>Completeness\<close>

definition ed_curve :: "gf \<Rightarrow> gf \<Rightarrow> bool" where
  "ed_curve x y \<longleftrightarrow> y * y - x * x = 1 + ed_d * (x * x) * (y * y)"

text \<open>The product of d and 2 is a square; 2 is not.\<close>

definition ed_root :: gf where
  "ed_root = of_int 55487632915927625549282413919184614932259505768049324239291840100650878933168"

lemma ed_root_square: "ed_root * ed_root = 2 * ed_d"
proof -
  let ?r = "55487632915927625549282413919184614932259505768049324239291840100650878933168 :: int"
  have "?r * ?r - 2 * 37095705934669439343138083508754565189542113879843219016388785533085940283555 = 53179408487959267070981863600993299124359631661352230105186135972200424991586 * fe_p"
    by (simp add: fe_p_def)
  then have "(of_int (?r * ?r - 2 * 37095705934669439343138083508754565189542113879843219016388785533085940283555) :: gf) = of_int 0"
    by (simp only: gf_of_int_0 of_int_0 mod_mult_self2_is_0)
  then have "ed_root * ed_root - 2 * ed_d = 0"
    by (simp only: ed_root_def ed_d_def of_int_mult of_int_diff of_int_numeral of_int_0)
  then show ?thesis by simp
qed

lemma ed_d_ne_0: "ed_d \<noteq> 0"
proof
  assume "ed_d = 0"
  then have "ed_root = 0" using ed_root_square by simp
  then have "55487632915927625549282413919184614932259505768049324239291840100650878933168 mod fe_p = (0 :: int)" unfolding ed_root_def gf_of_int_0 .
  then show False by (simp add: fe_p_def)
qed

lemma ed_d_not_square: "z * z \<noteq> ed_d"
proof
  assume z: "z * z = ed_d"
  then have z0: "z \<noteq> 0" using ed_d_ne_0 by auto
  have "(ed_root / z) * (ed_root / z) = 2"
    using ed_root_square z ed_d_ne_0 by (simp add: divide_simps)
  then show False using two_not_square by blast
qed

lemma square_ratio: "a * a = ed_d * (b * b) \<Longrightarrow> b = 0"
proof (rule ccontr)
  assume a: "a * a = ed_d * (b * b)" "b \<noteq> 0"
  then have "(a / b) * (a / b) = ed_d" by (simp add: divide_simps)
  then show False using ed_d_not_square by blast
qed

text \<open>The denominators of the addition law never vanish.\<close>

lemma ed_complete:
  assumes "ed_curve x1 y1" "ed_curve x2 y2"
  defines "k \<equiv> ed_d * x1 * x2 * y1 * y2"
  shows "k * k \<noteq> 1"
proof
  assume k: "k * k = 1"
  have c1: "y1 * y1 - x1 * x1 = 1 + ed_d * (x1 * x1) * (y1 * y1)"
    and c2: "y2 * y2 - x2 * x2 = 1 + ed_d * (x2 * x2) * (y2 * y2)"
    using assms(1,2) by (simp_all add: ed_curve_def)
  have s: "x1 * y1 * (y2 + j * x2) = 0" if j: "j * j = - 1" for j
  proof (rule square_ratio)
    have "(j * x1 + k * y1) * (j * x1 + k * y1) =
        j * j * (x1 * x1) + k * k * (y1 * y1) + 2 * j * k * x1 * y1" by (simp add: algebra_simps)
    also have "\<dots> = (1 + ed_d * (x1 * x1) * (y1 * y1)) + 2 * j * k * x1 * y1"
      unfolding j k c1 [symmetric] by simp
    also have "\<dots> = k * k + ed_d * (x1 * x1) * (y1 * y1) + 2 * j * k * x1 * y1" by (simp only: k)
    also have "\<dots> = ed_d * (x1 * x1) * (y1 * y1) * (1 + ed_d * (x2 * x2) * (y2 * y2) + 2 * j * x2 * y2)"
      unfolding k_def by (simp add: algebra_simps)
    also have "\<dots> = ed_d * ((x1 * y1 * (y2 + j * x2)) * (x1 * y1 * (y2 + j * x2))) -
        ed_d * (x1 * x1) * (y1 * y1) * ((j * j + 1) * (x2 * x2))"
      unfolding c2 [symmetric] by (simp add: algebra_simps)
    finally show "(j * x1 + k * y1) * (j * x1 + k * y1) =
        ed_d * ((x1 * y1 * (y2 + j * x2)) * (x1 * y1 * (y2 + j * x2)))" by (simp add: j)
  qed
  have "k \<noteq> 0" using k by auto
  then have n: "x1 \<noteq> 0" "y1 \<noteq> 0" "y2 \<noteq> 0" by (auto simp: k_def)
  have "y2 + ed_i * x2 = 0" "y2 + (- ed_i) * x2 = 0"
    using s [of ed_i] s [of "- ed_i"] n ed_i_square by simp_all
  then have "2 * y2 = 0" by algebra
  then show False using n(3) gf_two_ne_0 by simp
qed

lemma ed_denominators:
  assumes "ed_curve x1 y1" "ed_curve x2 y2"
  shows "1 + ed_d * x1 * x2 * y1 * y2 \<noteq> 0" "1 - ed_d * x1 * x2 * y1 * y2 \<noteq> 0"
proof -
  define k where "k = ed_d * x1 * x2 * y1 * y2"
  have "(1 + k) * (1 - k) \<noteq> 0" using ed_complete [OF assms] by (simp add: k_def algebra_simps)
  then show "1 + ed_d * x1 * x2 * y1 * y2 \<noteq> 0" "1 - ed_d * x1 * x2 * y1 * y2 \<noteq> 0" by (auto simp: k_def)
qed

section \<open>Associativity\<close>

lemma ed_assoc_x:
  fixes d :: "'a::field"
  assumes "y1 * y1 - x1 * x1 = 1 + d * (x1 * x1) * (y1 * y1)"
    "y2 * y2 - x2 * x2 = 1 + d * (x2 * x2) * (y2 * y2)"
    "y3 * y3 - x3 * x3 = 1 + d * (x3 * x3) * (y3 * y3)"
  defines "A \<equiv> x1 * y2 + y1 * x2" and "B \<equiv> y1 * y2 + x1 * x2" and "k \<equiv> d * x1 * x2 * y1 * y2"
    and "A' \<equiv> x2 * y3 + y2 * x3" and "B' \<equiv> y2 * y3 + x2 * x3" and "k' \<equiv> d * x2 * x3 * y2 * y3"
  shows "(A * y3 * (1 - k) + B * x3 * (1 + k)) * ((1 + k') * (1 - k') + d * x1 * y1 * A' * B') =
    (x1 * B' * (1 + k') + y1 * A' * (1 - k')) * ((1 + k) * (1 - k) + d * A * B * x3 * y3)"
  using assms(1-3) unfolding A_def B_def k_def A'_def B'_def k'_def by algebra

lemma ed_assoc_y:
  fixes d :: "'a::field"
  assumes "y1 * y1 - x1 * x1 = 1 + d * (x1 * x1) * (y1 * y1)"
    "y2 * y2 - x2 * x2 = 1 + d * (x2 * x2) * (y2 * y2)"
    "y3 * y3 - x3 * x3 = 1 + d * (x3 * x3) * (y3 * y3)"
  defines "A \<equiv> x1 * y2 + y1 * x2" and "B \<equiv> y1 * y2 + x1 * x2" and "k \<equiv> d * x1 * x2 * y1 * y2"
    and "A' \<equiv> x2 * y3 + y2 * x3" and "B' \<equiv> y2 * y3 + x2 * x3" and "k' \<equiv> d * x2 * x3 * y2 * y3"
  shows "(B * y3 * (1 + k) + A * x3 * (1 - k)) * ((1 + k') * (1 - k') - d * x1 * y1 * A' * B') =
    (y1 * B' * (1 + k') + x1 * A' * (1 - k')) * ((1 + k) * (1 - k) - d * A * B * x3 * y3)"
  using assms(1-3) unfolding A_def B_def k_def A'_def B'_def k'_def by algebra

lemma ed_closed_identity:
  fixes d :: "'a::field"
  assumes "y1 * y1 - x1 * x1 = 1 + d * (x1 * x1) * (y1 * y1)"
    "y2 * y2 - x2 * x2 = 1 + d * (x2 * x2) * (y2 * y2)"
  defines "A \<equiv> x1 * y2 + y1 * x2" and "B \<equiv> y1 * y2 + x1 * x2" and "k \<equiv> d * x1 * x2 * y1 * y2"
  shows "B * B * ((1 + k) * (1 + k)) - A * A * ((1 - k) * (1 - k)) =
    (1 + k) * (1 + k) * ((1 - k) * (1 - k)) + d * (A * A) * (B * B)"
  using assms(1,2) unfolding A_def B_def k_def by algebra

section \<open>The group\<close>

typedef edpoint = "{(x, y). ed_curve x y}"
  by (rule exI [of _ "(0, 1)"]) (simp add: ed_curve_def)

definition ex :: "edpoint \<Rightarrow> gf" where
  "ex P = fst (Rep_edpoint P)"

definition ey :: "edpoint \<Rightarrow> gf" where
  "ey P = snd (Rep_edpoint P)"

definition ed_point :: "gf \<Rightarrow> gf \<Rightarrow> edpoint" where
  "ed_point x y = Abs_edpoint (x, y)"

lemma ed_on_curve: "ed_curve (ex P) (ey P)"
  using Rep_edpoint [of P] by (auto simp: ex_def ey_def)

lemma ed_point_coords [simp]: "ed_curve x y \<Longrightarrow> ex (ed_point x y) = x" "ed_curve x y \<Longrightarrow> ey (ed_point x y) = y"
  by (simp_all add: ex_def ey_def ed_point_def Abs_edpoint_inverse)

lemma edpoint_eqI: "ex P = ex Q \<Longrightarrow> ey P = ey Q \<Longrightarrow> P = Q"
  by (simp add: ex_def ey_def Rep_edpoint_inject [symmetric] prod_eq_iff)

lemmas ed_on_curve_eq = ed_on_curve [unfolded ed_curve_def]

definition ed_k :: "edpoint \<Rightarrow> edpoint \<Rightarrow> gf" where
  "ed_k P Q = ed_d * ex P * ex Q * ey P * ey Q"

lemma ed_k_ne: "1 + ed_k P Q \<noteq> 0" "1 - ed_k P Q \<noteq> 0"
  using ed_denominators [OF ed_on_curve ed_on_curve, of P Q] by (simp_all add: ed_k_def)

instantiation edpoint :: ab_group_add
begin

definition zero_edpoint :: edpoint where
  "zero_edpoint = ed_point 0 1"

definition uminus_edpoint :: "edpoint \<Rightarrow> edpoint" where
  "uminus_edpoint P = ed_point (- ex P) (ey P)"

definition plus_edpoint :: "edpoint \<Rightarrow> edpoint \<Rightarrow> edpoint" where
  "plus_edpoint P Q = ed_point ((ex P * ey Q + ey P * ex Q) / (1 + ed_k P Q))
     ((ey P * ey Q + ex P * ex Q) / (1 - ed_k P Q))"

definition minus_edpoint :: "edpoint \<Rightarrow> edpoint \<Rightarrow> edpoint" where
  "minus_edpoint P Q = P + - Q"

lemma zero_coords: "ex 0 = 0" "ey 0 = 1"
  by (simp_all add: zero_edpoint_def ed_curve_def)

lemma uminus_coords: "ex (- P) = - ex P" "ey (- P) = ey P"
proof -
  have "ed_curve (- ex P) (ey P)" using ed_on_curve [of P] by (simp add: ed_curve_def)
  then show "ex (- P) = - ex P" "ey (- P) = ey P" by (simp_all add: uminus_edpoint_def)
qed

lemma plus_coords:
  "ex (P + Q) = (ex P * ey Q + ey P * ex Q) / (1 + ed_k P Q)"
  "ey (P + Q) = (ey P * ey Q + ex P * ex Q) / (1 - ed_k P Q)"
proof -
  define A where "A = ex P * ey Q + ey P * ex Q"
  define B where "B = ey P * ey Q + ex P * ex Q"
  define k where "k = ed_k P Q"
  have n: "1 + k \<noteq> 0" "1 - k \<noteq> 0" using ed_k_ne by (simp_all add: k_def)
  have "B * B * ((1 + k) * (1 + k)) - A * A * ((1 - k) * (1 - k)) =
      (1 + k) * (1 + k) * ((1 - k) * (1 - k)) + ed_d * (A * A) * (B * B)"
    using ed_closed_identity [OF ed_on_curve_eq ed_on_curve_eq, of P Q] by (simp add: ed_k_def k_def A_def B_def)
  then have "(B * B * ((1 + k) * (1 + k)) - A * A * ((1 - k) * (1 - k))) / ((1 + k) * (1 + k) * ((1 - k) * (1 - k))) =
      ((1 + k) * (1 + k) * ((1 - k) * (1 - k)) + ed_d * (A * A) * (B * B)) / ((1 + k) * (1 + k) * ((1 - k) * (1 - k)))"
    by simp
  then have "ed_curve (A / (1 + k)) (B / (1 - k))"
    using n by (simp add: ed_curve_def diff_divide_distrib add_divide_distrib)
  then show "ex (P + Q) = (ex P * ey Q + ey P * ex Q) / (1 + ed_k P Q)"
    "ey (P + Q) = (ey P * ey Q + ex P * ex Q) / (1 - ed_k P Q)"
    by (simp_all add: plus_edpoint_def A_def B_def k_def)
qed

text \<open>A sum with a sum, over a common denominator.\<close>

lemma nested_fraction:
  fixes e :: "'a::field"
  assumes "e \<noteq> 0" "f \<noteq> 0"
  shows "(A / e * y + B / f * x) / (1 + d * (A / e) * x * (B / f) * y) =
    (A * y * f + B * x * e) / (e * f + d * A * B * x * y)"
    "1 + d * (A / e) * x * (B / f) * y = (e * f + d * A * B * x * y) / (e * f)"
proof -
  show d: "1 + d * (A / e) * x * (B / f) * y = (e * f + d * A * B * x * y) / (e * f)"
    using assms by (simp add: add_divide_distrib)
  have "A / e * y + B / f * x = (A * y * f + B * x * e) / (e * f)"
    using assms by (simp add: add_divide_distrib)
  then show "(A / e * y + B / f * x) / (1 + d * (A / e) * x * (B / f) * y) =
    (A * y * f + B * x * e) / (e * f + d * A * B * x * y)"
    unfolding d using assms by simp
qed

lemma plus_plus_coords:
  fixes P Q R :: edpoint
  defines "A \<equiv> ex P * ey Q + ey P * ex Q" and "B \<equiv> ey P * ey Q + ex P * ex Q" and "k \<equiv> ed_k P Q"
  shows "ex (P + Q + R) = (A * ey R * (1 - k) + B * ex R * (1 + k)) /
      ((1 + k) * (1 - k) + ed_d * A * B * ex R * ey R)"
    and "ey (P + Q + R) = (B * ey R * (1 + k) + A * ex R * (1 - k)) /
      ((1 + k) * (1 - k) - ed_d * A * B * ex R * ey R)"
    and "(1 + k) * (1 - k) + ed_d * A * B * ex R * ey R \<noteq> 0"
    and "(1 + k) * (1 - k) - ed_d * A * B * ex R * ey R \<noteq> 0"
proof -
  have n: "1 + k \<noteq> 0" "1 - k \<noteq> 0" using ed_k_ne by (simp_all add: k_def)
  have c: "ex (P + Q) = A / (1 + k)" "ey (P + Q) = B / (1 - k)"
    by (simp_all add: plus_coords A_def B_def k_def)
  have K: "ed_k (P + Q) R = ed_d * (A / (1 + k)) * ex R * (B / (1 - k)) * ey R"
    by (simp only: ed_k_def c)
  note x = nested_fraction [OF n, where A = A and y = "ey R" and B = B and x = "ex R" and d = ed_d]
  note y = nested_fraction [OF n(2,1), where A = B and y = "ey R" and B = A and x = "ex R" and d = "- ed_d"]
  have m: "1 - ed_k (P + Q) R = 1 + (- ed_d) * (B / (1 - k)) * ex R * (A / (1 + k)) * ey R"
    unfolding K by (simp add: ac_simps)
  show "ex (P + Q + R) = (A * ey R * (1 - k) + B * ex R * (1 + k)) /
      ((1 + k) * (1 - k) + ed_d * A * B * ex R * ey R)"
    using x(1) by (simp only: plus_coords(1) [of "P + Q"] c K)
  show "ey (P + Q + R) = (B * ey R * (1 + k) + A * ex R * (1 - k)) /
      ((1 + k) * (1 - k) - ed_d * A * B * ex R * ey R)"
    using y(1) unfolding plus_coords(2) [of "P + Q"] m c by (simp add: ac_simps)
  show "(1 + k) * (1 - k) + ed_d * A * B * ex R * ey R \<noteq> 0"
  proof
    assume z: "(1 + k) * (1 - k) + ed_d * A * B * ex R * ey R = 0"
    have "1 + ed_k (P + Q) R = 0" using x(2) by (simp only: K z div_0)
    then show False using ed_k_ne(1) [of "P + Q" R] by simp
  qed
  show "(1 + k) * (1 - k) - ed_d * A * B * ex R * ey R \<noteq> 0"
  proof
    assume "(1 + k) * (1 - k) - ed_d * A * B * ex R * ey R = 0"
    then have z: "(1 - k) * (1 + k) + - ed_d * B * A * ex R * ey R = 0" by (simp add: ac_simps)
    have "1 - ed_k (P + Q) R = 0" using y(2) by (simp only: m z div_0)
    then show False using ed_k_ne(2) [of "P + Q" R] by simp
  qed
qed

lemma plus_commute_edpoint: "P + Q = Q + (P :: edpoint)"
  by (rule edpoint_eqI) (simp_all add: plus_coords ed_k_def algebra_simps)

lemma plus_assoc_edpoint: "P + Q + R = P + (Q + R :: edpoint)"
proof -
  note l = plus_plus_coords [of P Q R] and r = plus_plus_coords [of Q R P]
  note cp = ed_on_curve_eq [of P] and cq = ed_on_curve_eq [of Q] and cr = ed_on_curve_eq [of R]
  have "P + Q + R = Q + R + P"
  proof (rule edpoint_eqI)
    show "ex (P + Q + R) = ex (Q + R + P)"
      unfolding l(1) r(1) frac_eq_eq [OF l(3) r(3)] using ed_assoc_x [OF cp cq cr]
      by (simp add: ed_k_def ac_simps)
    show "ey (P + Q + R) = ey (Q + R + P)"
      unfolding l(2) r(2) frac_eq_eq [OF l(4) r(4)] using ed_assoc_y [OF cp cq cr]
      by (simp add: ed_k_def ac_simps)
  qed
  then show ?thesis by (simp only: plus_commute_edpoint [of "Q + R" P])
qed

instance
proof
  fix P Q R :: edpoint
  show "P + Q = Q + P" by (rule plus_commute_edpoint)
  show "P + Q + R = P + (Q + R)" by (rule plus_assoc_edpoint)
  show "0 + P = P"
    by (rule edpoint_eqI) (simp_all add: plus_coords ed_k_def zero_coords)
  have "1 + ed_d * (ex P * ex P) * (ey P * ey P) \<noteq> 0"
    using ed_k_ne(2) [of "- P" P] by (simp add: ed_k_def uminus_coords algebra_simps)
  then show "- P + P = 0"
    using ed_on_curve_eq [of P]
    by (intro edpoint_eqI) (simp_all add: plus_coords ed_k_def uminus_coords zero_coords algebra_simps)
  show "P - Q = P + - Q" by (rule minus_edpoint_def)
qed

end

end
