(* ===== verification/Base_Point.thy ===== *)
theory Base_Point
  imports Edwards_Group
begin

text \<open>The base point of the curve, of u coordinate 9.\<close>

definition base_x :: int where
  "base_x = 15112221349535400772501151409588531511454012693041857206046113283949847762202"

definition base_y :: int where
  "base_y = 46316835694926478169428394003475163141307993866256225615783033603165251855960"

definition ox :: onum where
  "ox = (D2 (D3 (D4 (D2 (D5 (D3 (D1 (D1 (D7 (D1 (D2 (D0 (D6 (D2 (D3 (D1 (D6 (D2 (D5 (D4 (D4 (D5 (D4 (D5
     (D7 (D4 (D6 (D2 (D2 (D2 (D5 (D4 (D0 (D4 (D5 (D3 (D4 (D1 (D3 (D1 (D1 (D5 (D1 (D6 (D5 (D0 (D7 (D6
     (D6 (D2 (D7 (D6 (D7 (D3 (D4 (D1 (D2 (D4 (D3 (D2 (D2 (D1 (D0 (D6 (D6 (D7 (D7 (D1 (D5 (D4 (D3 (D3
     (D5 (D1 (D7 (D1 (D5 (D5 (D5 (D1 (D1 (D5 (D5 (D0 (D2
     E)))))))))))))))))))))))))))))))))))))))))))))))))))))))))))))))))))))))))))))))))))))"

definition oy :: onum where
  "oy = (D0 (D3 (D1 (D3 (D6 (D4 (D1 (D3 (D6 (D4 (D1 (D3 (D6 (D4 (D1 (D3 (D6 (D4 (D1 (D3 (D6 (D4 (D1 (D3
     (D6 (D4 (D1 (D3 (D6 (D4 (D1 (D3 (D6 (D4 (D1 (D3 (D6 (D4 (D1 (D3 (D6 (D4 (D1 (D3 (D6 (D4 (D1 (D3
     (D6 (D4 (D1 (D3 (D6 (D4 (D1 (D3 (D6 (D4 (D1 (D3 (D6 (D4 (D1 (D3 (D6 (D4 (D1 (D3 (D6 (D4 (D1 (D3
     (D6 (D4 (D1 (D3 (D6 (D4 (D1 (D3 (D6 (D4 (D1 (D3 (D6
     E)))))))))))))))))))))))))))))))))))))))))))))))))))))))))))))))))))))))))))))))))))))"

definition od :: onum where
  "od = (D3 (D4 (D2 (D4 (D7 (D2 (D6 (D2 (D3 (D2 (D0 (D5 (D4 (D3 (D3 (D2 (D3 (D5 (D7 (D2 (D7 (D6 (D2 (D5
     (D0 (D3 (D7 (D0 (D4 (D2 (D0 (D2 (D5 (D1 (D1 (D5 (D0 (D0 (D4 (D3 (D0 (D0 (D0 (D4 (D1 (D1 (D2 (D7
     (D1 (D7 (D5 (D3 (D7 (D2 (D6 (D3 (D0 (D0 (D5 (D3 (D4 (D1 (D3 (D4 (D3 (D6 (D1 (D7 (D7 (D7 (D3 (D3
     (D3 (D5 (D0 (D7 (D6 (D1 (D3 (D3 (D3 (D0 (D0 (D1 (D5
     E)))))))))))))))))))))))))))))))))))))))))))))))))))))))))))))))))))))))))))))))))))))"

lemma og_base: "og ox = of_int base_x" "og oy = of_int base_y" "og od = ed_d"
  by (simp_all add: og_def ox_def oy_def od_def base_x_def base_y_def ed_d_def)

lemma base_point_check: "geq (gmul oy oy) (gadd (gadd (gmul ox ox) (D1 E)) (gmul (gmul od (gmul ox ox)) (gmul oy oy)))"
  unfolding ox_def oy_def od_def by (simp only: octal_eval)

lemma base_on_curve: "ed_curve (of_int base_x) (of_int base_y)"
proof -
  have "og (D1 E) = 1" by (simp add: og_def)
  then show ?thesis
    using geqD [OF base_point_check] by (simp add: ed_curve_def og_ops og_base algebra_simps)
qed

definition base_point :: edpoint where
  "base_point = ed_point (of_int base_x) (of_int base_y)"

lemma base_coords: "ex base_point = of_int base_x" "ey base_point = of_int base_y"
  using base_on_curve by (simp_all add: base_point_def)

end
