(* ===== verification/Multiples.thy ===== *)
theory Multiples
  imports Edwards_Group
begin

text \<open>
  Multiples of points, and the points that extended coordinates stand for: the formulas of
  the theory Edwards compute in the group.
\<close>

section \<open>Multiples\<close>

primrec nmul :: "nat \<Rightarrow> edpoint \<Rightarrow> edpoint" where
  "nmul 0 P = 0"
| "nmul (Suc n) P = P + nmul n P"

lemma nmul_add: "nmul (m + n) P = nmul m P + nmul n P"
  by (induction m) (simp_all add: add.assoc)

lemma nmul_mult: "nmul (m * n) P = nmul m (nmul n P)"
  by (induction m) (simp_all add: nmul_add)

lemma nmul_double: "nmul (2 * n) P = nmul n P + nmul n P"
  by (simp only: mult_2 nmul_add)

lemma nmul_sum: "nmul n (P + Q) = nmul n P + nmul n Q"
  by (induction n) (simp_all add: ac_simps)

lemma nmul_zero: "nmul n 0 = 0"
  by (induction n) simp_all

definition zmul :: "int \<Rightarrow> edpoint \<Rightarrow> edpoint" where
  "zmul k P = (if 0 \<le> k then nmul (nat k) P else - nmul (nat (- k)) P)"

lemma zmul_diff: "zmul (int m - int n) P = nmul m P - nmul n P"
proof (cases "n \<le> m")
  case True
  have "nmul m P = nmul (m - n) P + nmul n P" using True by (simp flip: nmul_add)
  then show ?thesis using True by (simp add: zmul_def nat_diff_distrib)
next
  case False
  have "nmul n P = nmul (n - m) P + nmul m P" using False by (simp flip: nmul_add)
  then show ?thesis using False by (simp add: zmul_def nat_diff_distrib)
qed

lemma int_as_diff: obtains m n where "k = int m - int n"
  by (rule int_diff_cases)

lemma zmul_nat: "zmul (int n) P = nmul n P"
  by (simp add: zmul_def)

lemma zmul_simps [simp]: "zmul 0 P = 0" "zmul 1 P = P"
  by (simp_all add: zmul_def)

lemma zmul_add: "zmul (k + l) P = zmul k P + zmul l P"
proof -
  obtain a b c d where "k = int a - int b" "l = int c - int d" using int_as_diff by metis
  moreover from this have "k + l = int (a + c) - int (b + d)" by simp
  ultimately show ?thesis by (simp only: zmul_diff nmul_add) (simp add: algebra_simps)
qed

lemma zmul_minus: "zmul (- k) P = - zmul k P"
  using zmul_add [of "- k" k P] by (simp add: eq_neg_iff_add_eq_0)

lemma zmul_sub: "zmul (k - l) P = zmul k P - zmul l P"
  using zmul_add [of k "- l" P] by (simp add: zmul_minus)

lemma zmul_double: "zmul (2 * k) P = zmul k P + zmul k P"
  using zmul_add [of k k P] by simp

lemma zmul_mult: "zmul (k * l) P = zmul k (zmul l P)"
proof -
  have n: "zmul (int n * l) P = nmul n (zmul l P)" for n
    by (induction n) (simp_all add: distrib_right zmul_add)
  obtain a b where k: "k = int a - int b" by (rule int_as_diff)
  show ?thesis unfolding k left_diff_distrib zmul_sub n zmul_nat ..
qed

lemma zmul_sum: "zmul k (P + Q) = zmul k P + zmul k Q"
proof -
  obtain a b where k: "k = int a - int b" by (rule int_as_diff)
  show ?thesis unfolding k zmul_diff nmul_sum by (simp add: algebra_simps)
qed

lemma zmul_neg_point: "zmul k (- P) = - zmul k P"
  using zmul_sum [of k P "- P"] zmul_mult [of k 0 P] by (simp add: eq_neg_iff_add_eq_0 add.commute)

section \<open>Extended coordinates of a point\<close>

fun ext_at :: "ext \<Rightarrow> edpoint \<Rightarrow> bool" where
  "ext_at (X, Y, Z, T) P \<longleftrightarrow> Z \<noteq> 0 \<and> X = Z * ex P \<and> Y = Z * ey P \<and> T = Z * (ex P * ey P)"

definition affine :: "edpoint \<Rightarrow> ext" where
  "affine P = (ex P, ey P, 1, ex P * ey P)"

lemma ext_at_affine: "ext_at (affine P) P"
  by (simp add: affine_def)

lemma ext_at_scale:
  assumes "ext_at (X, Y, Z, T) P" "c \<noteq> 0"
  shows "ext_at (c * X, c * Y, c * Z, c * T) P"
  using assms by simp

lemma ext_at_zero: "ext_at ext_zero 0"
  by (simp add: ext_zero_def zero_coords)

lemma ext_at_neg: "ext_at P p \<Longrightarrow> ext_at (ext_neg P) (- p)"
  by (cases P) (simp add: uminus_coords)

lemma ext_at_on_curve:
  assumes "ext_at P p"
  shows "on_curve P"
proof (cases P)
  fix X Y Z T
  assume P: "P = (X, Y, Z, T)"
  have c: "X = Z * ex p" "Y = Z * ey p" "T = Z * (ex p * ey p)" using assms by (simp_all add: P)
  show ?thesis unfolding P on_curve.simps c using ed_on_curve_eq [of p]
    by (intro conjI; (algebra | simp only: ac_simps))
qed

lemma ext_at_add:
  assumes "ext_at P p" "ext_at Q q"
  shows "ext_at (ext_add P Q) (p + q)"
proof (cases P; cases Q)
  fix X1 Y1 Z1 T1 X2 Y2 Z2 T2
  assume P: "P = (X1, Y1, Z1, T1)" and Q: "Q = (X2, Y2, Z2, T2)"
  define k where "k = ed_k p q"
  define A where "A = ex p * ey q + ey p * ex q"
  define B where "B = ey p * ey q + ex p * ex q"
  define z where "z = 2 * (Z1 * Z2)"
  have c: "X1 = Z1 * ex p" "Y1 = Z1 * ey p" "T1 = Z1 * (ex p * ey p)"
    "X2 = Z2 * ex q" "Y2 = Z2 * ey q" "T2 = Z2 * (ex q * ey q)"
    using assms by (simp_all add: P Q)
  have z: "z \<noteq> 0" using assms gf_two_ne_0 by (simp add: P Q z_def)
  have n: "1 + k \<noteq> 0" "1 - k \<noteq> 0" using ed_k_ne by (simp_all add: k_def)
  have s: "ex (p + q) = A / (1 + k)" "ey (p + q) = B / (1 - k)"
    by (simp_all add: plus_coords A_def B_def k_def)
  have f: "2 * (X1 * Y2 + Y1 * X2) = z * A" "2 * (Y1 * Y2 + X1 * X2) = z * B"
    "2 * (Z1 * Z2 - ed_d * T1 * T2) = z * (1 - k)" "2 * (Z1 * Z2 + ed_d * T1 * T2) = z * (1 + k)"
    unfolding c A_def B_def z_def k_def ed_k_def by algebra+
  show ?thesis
    unfolding P Q ext_add_factors f Let_def ext_at.simps s using z n by simp
qed

lemma ext_at_eq:
  assumes "ext_eq P Q" "ext_at Q p" "fst (snd (snd P)) \<noteq> 0"
  shows "ext_at P p"
proof (cases P; cases Q)
  fix X1 Y1 Z1 T1 X2 Y2 Z2 T2
  assume P: "P = (X1, Y1, Z1, T1)" and Q: "Q = (X2, Y2, Z2, T2)"
  have c: "X2 = Z2 * ex p" "Y2 = Z2 * ey p" "T2 = Z2 * (ex p * ey p)" "Z2 \<noteq> 0"
    using assms(2) by (simp_all add: Q)
  have "Z2 * X1 = Z2 * (Z1 * ex p)" "Z2 * Y1 = Z2 * (Z1 * ey p)" "Z2 * T1 = Z2 * (Z1 * (ex p * ey p))"
    using assms(1) by (simp_all add: P Q c ac_simps)
  then show ?thesis using c(4) assms(3) by (simp add: P)
qed

lemma ext_at_dbl:
  assumes "ext_at P p"
  shows "ext_at (ext_dbl P) (p + p)"
proof (cases P)
  fix X Y Z T
  assume P: "P = (X, Y, Z, T)"
  have on: "on_curve (X, Y, Z, T)" using ext_at_on_curve [OF assms] by (simp add: P)
  have z: "Z \<noteq> 0" and t: "T = Z * (ex p * ey p)" using assms by (simp_all add: P)
  have k: "1 - ed_k p p \<noteq> 0" "1 + ed_k p p \<noteq> 0" using ed_k_ne by simp_all
  have "Z * Z - ed_d * T * T = Z * Z * (1 - ed_k p p)" "Z * Z + ed_d * T * T = Z * Z * (1 + ed_k p p)"
    unfolding t ed_k_def by algebra+
  then have "fst (snd (snd (ext_dbl P))) \<noteq> 0"
    unfolding P ext_dbl_factors [OF on] Let_def using z k by simp
  from ext_at_eq [OF ext_dbl_add [OF ext_at_on_curve [OF assms]] ext_at_add [OF assms assms] this]
  show ?thesis .
qed

end
