(* ===== verification/Fe_Mul.thy ===== *)
theory Fe_Mul
  imports Fe
begin

text \<open>
  Multiplication and squaring of field elements: fe_mul.c, fe_sq.c and fe_sq2.c. Each routine
  first forms ten 64-bit sums of products of 32-bit limbs (some multiplied beforehand by 2,
  19 or 38) and then carries. The sums are \<open>fe_mul_products\<close> and \<open>fe_sq_products\<close>; the
  carries, the same twelve in the three files, are \<open>fe_carries\<close>.
\<close>

section \<open>The routines\<close>

text \<open>The conversions \<open>(crypto_int64) x\<close> and the store of a 64-bit limb into a 32-bit one.\<close>

definition widen :: "i32 \<Rightarrow> i64" where
  "widen x = scast x"

definition narrow :: "i64 list \<Rightarrow> fe" where
  "narrow h = map ucast h"

definition fe_mul_products :: "fe \<Rightarrow> fe \<Rightarrow> i64 list" where
  "fe_mul_products f g =
     (let
      f0 = f ! 0; f1 = f ! 1; f2 = f ! 2; f3 = f ! 3; f4 = f ! 4; f5 = f ! 5; f6 = f ! 6;
      f7 = f ! 7; f8 = f ! 8; f9 = f ! 9; g0 = g ! 0; g1 = g ! 1; g2 = g ! 2; g3 = g ! 3;
      g4 = g ! 4; g5 = g ! 5; g6 = g ! 6; g7 = g ! 7; g8 = g ! 8; g9 = g ! 9; g1_19 = 19 * g1;
      g2_19 = 19 * g2; g3_19 = 19 * g3; g4_19 = 19 * g4; g5_19 = 19 * g5; g6_19 = 19 * g6;
      g7_19 = 19 * g7; g8_19 = 19 * g8; g9_19 = 19 * g9; f1_2 = 2 * f1; f3_2 = 2 * f3;
      f5_2 = 2 * f5; f7_2 = 2 * f7; f9_2 = 2 * f9; f0g0 = widen f0 * widen g0;
      f0g1 = widen f0 * widen g1; f0g2 = widen f0 * widen g2; f0g3 = widen f0 * widen g3;
      f0g4 = widen f0 * widen g4; f0g5 = widen f0 * widen g5; f0g6 = widen f0 * widen g6;
      f0g7 = widen f0 * widen g7; f0g8 = widen f0 * widen g8; f0g9 = widen f0 * widen g9;
      f1g0 = widen f1 * widen g0; f1g1_2 = widen f1_2 * widen g1; f1g2 = widen f1 * widen g2;
      f1g3_2 = widen f1_2 * widen g3; f1g4 = widen f1 * widen g4;
      f1g5_2 = widen f1_2 * widen g5; f1g6 = widen f1 * widen g6;
      f1g7_2 = widen f1_2 * widen g7; f1g8 = widen f1 * widen g8;
      f1g9_38 = widen f1_2 * widen g9_19; f2g0 = widen f2 * widen g0;
      f2g1 = widen f2 * widen g1; f2g2 = widen f2 * widen g2; f2g3 = widen f2 * widen g3;
      f2g4 = widen f2 * widen g4; f2g5 = widen f2 * widen g5; f2g6 = widen f2 * widen g6;
      f2g7 = widen f2 * widen g7; f2g8_19 = widen f2 * widen g8_19;
      f2g9_19 = widen f2 * widen g9_19; f3g0 = widen f3 * widen g0;
      f3g1_2 = widen f3_2 * widen g1; f3g2 = widen f3 * widen g2;
      f3g3_2 = widen f3_2 * widen g3; f3g4 = widen f3 * widen g4;
      f3g5_2 = widen f3_2 * widen g5; f3g6 = widen f3 * widen g6;
      f3g7_38 = widen f3_2 * widen g7_19; f3g8_19 = widen f3 * widen g8_19;
      f3g9_38 = widen f3_2 * widen g9_19; f4g0 = widen f4 * widen g0;
      f4g1 = widen f4 * widen g1; f4g2 = widen f4 * widen g2; f4g3 = widen f4 * widen g3;
      f4g4 = widen f4 * widen g4; f4g5 = widen f4 * widen g5; f4g6_19 = widen f4 * widen g6_19;
      f4g7_19 = widen f4 * widen g7_19; f4g8_19 = widen f4 * widen g8_19;
      f4g9_19 = widen f4 * widen g9_19; f5g0 = widen f5 * widen g0;
      f5g1_2 = widen f5_2 * widen g1; f5g2 = widen f5 * widen g2;
      f5g3_2 = widen f5_2 * widen g3; f5g4 = widen f5 * widen g4;
      f5g5_38 = widen f5_2 * widen g5_19; f5g6_19 = widen f5 * widen g6_19;
      f5g7_38 = widen f5_2 * widen g7_19; f5g8_19 = widen f5 * widen g8_19;
      f5g9_38 = widen f5_2 * widen g9_19; f6g0 = widen f6 * widen g0;
      f6g1 = widen f6 * widen g1; f6g2 = widen f6 * widen g2; f6g3 = widen f6 * widen g3;
      f6g4_19 = widen f6 * widen g4_19; f6g5_19 = widen f6 * widen g5_19;
      f6g6_19 = widen f6 * widen g6_19; f6g7_19 = widen f6 * widen g7_19;
      f6g8_19 = widen f6 * widen g8_19; f6g9_19 = widen f6 * widen g9_19;
      f7g0 = widen f7 * widen g0; f7g1_2 = widen f7_2 * widen g1; f7g2 = widen f7 * widen g2;
      f7g3_38 = widen f7_2 * widen g3_19; f7g4_19 = widen f7 * widen g4_19;
      f7g5_38 = widen f7_2 * widen g5_19; f7g6_19 = widen f7 * widen g6_19;
      f7g7_38 = widen f7_2 * widen g7_19; f7g8_19 = widen f7 * widen g8_19;
      f7g9_38 = widen f7_2 * widen g9_19; f8g0 = widen f8 * widen g0;
      f8g1 = widen f8 * widen g1; f8g2_19 = widen f8 * widen g2_19;
      f8g3_19 = widen f8 * widen g3_19; f8g4_19 = widen f8 * widen g4_19;
      f8g5_19 = widen f8 * widen g5_19; f8g6_19 = widen f8 * widen g6_19;
      f8g7_19 = widen f8 * widen g7_19; f8g8_19 = widen f8 * widen g8_19;
      f8g9_19 = widen f8 * widen g9_19; f9g0 = widen f9 * widen g0;
      f9g1_38 = widen f9_2 * widen g1_19; f9g2_19 = widen f9 * widen g2_19;
      f9g3_38 = widen f9_2 * widen g3_19; f9g4_19 = widen f9 * widen g4_19;
      f9g5_38 = widen f9_2 * widen g5_19; f9g6_19 = widen f9 * widen g6_19;
      f9g7_38 = widen f9_2 * widen g7_19; f9g8_19 = widen f9 * widen g8_19;
      f9g9_38 = widen f9_2 * widen g9_19;
      h0 = f0g0 + f1g9_38 + f2g8_19 + f3g7_38 + f4g6_19 + f5g5_38 + f6g4_19 + f7g3_38 + f8g2_19 + f9g1_38;
      h1 = f0g1 + f1g0 + f2g9_19 + f3g8_19 + f4g7_19 + f5g6_19 + f6g5_19 + f7g4_19 + f8g3_19 + f9g2_19;
      h2 = f0g2 + f1g1_2 + f2g0 + f3g9_38 + f4g8_19 + f5g7_38 + f6g6_19 + f7g5_38 + f8g4_19 + f9g3_38;
      h3 = f0g3 + f1g2 + f2g1 + f3g0 + f4g9_19 + f5g8_19 + f6g7_19 + f7g6_19 + f8g5_19 + f9g4_19;
      h4 = f0g4 + f1g3_2 + f2g2 + f3g1_2 + f4g0 + f5g9_38 + f6g8_19 + f7g7_38 + f8g6_19 + f9g5_38;
      h5 = f0g5 + f1g4 + f2g3 + f3g2 + f4g1 + f5g0 + f6g9_19 + f7g8_19 + f8g7_19 + f9g6_19;
      h6 = f0g6 + f1g5_2 + f2g4 + f3g3_2 + f4g2 + f5g1_2 + f6g0 + f7g9_38 + f8g8_19 + f9g7_38;
      h7 = f0g7 + f1g6 + f2g5 + f3g4 + f4g3 + f5g2 + f6g1 + f7g0 + f8g9_19 + f9g8_19;
      h8 = f0g8 + f1g7_2 + f2g6 + f3g5_2 + f4g4 + f5g3_2 + f6g2 + f7g1_2 + f8g0 + f9g9_38;
      h9 = f0g9 + f1g8 + f2g7 + f3g6 + f4g5 + f5g4 + f6g3 + f7g2 + f8g1 + f9g0
      in [h0, h1, h2, h3, h4, h5, h6, h7, h8, h9])"

definition fe_carries :: "limb_step list" where
  "fe_carries =
    [Carry 0 26 (2 ^ 25) [(1, 1)],
     Carry 4 26 (2 ^ 25) [(5, 1)],
     Carry 1 25 (2 ^ 24) [(2, 1)],
     Carry 5 25 (2 ^ 24) [(6, 1)],
     Carry 2 26 (2 ^ 25) [(3, 1)],
     Carry 6 26 (2 ^ 25) [(7, 1)],
     Carry 3 25 (2 ^ 24) [(4, 1)],
     Carry 7 25 (2 ^ 24) [(8, 1)],
     Carry 4 26 (2 ^ 25) [(5, 1)],
     Carry 8 26 (2 ^ 25) [(9, 1)],
     Carry 9 25 (2 ^ 24) [(0, 19)],
     Carry 0 26 (2 ^ 25) [(1, 1)]]"

definition fe_mul :: "fe \<Rightarrow> fe \<Rightarrow> fe" where
  "fe_mul f g = narrow (run_w fe_carries (fe_mul_products f g))"

definition fe_sq_products :: "fe \<Rightarrow> i64 list" where
  "fe_sq_products f =
     (let
      f0 = f ! 0; f1 = f ! 1; f2 = f ! 2; f3 = f ! 3; f4 = f ! 4; f5 = f ! 5; f6 = f ! 6;
      f7 = f ! 7; f8 = f ! 8; f9 = f ! 9; f0_2 = 2 * f0; f1_2 = 2 * f1; f2_2 = 2 * f2;
      f3_2 = 2 * f3; f4_2 = 2 * f4; f5_2 = 2 * f5; f6_2 = 2 * f6; f7_2 = 2 * f7;
      f5_38 = 38 * f5; f6_19 = 19 * f6; f7_38 = 38 * f7; f8_19 = 19 * f8; f9_38 = 38 * f9;
      f0f0 = widen f0 * widen f0; f0f1_2 = widen f0_2 * widen f1;
      f0f2_2 = widen f0_2 * widen f2; f0f3_2 = widen f0_2 * widen f3;
      f0f4_2 = widen f0_2 * widen f4; f0f5_2 = widen f0_2 * widen f5;
      f0f6_2 = widen f0_2 * widen f6; f0f7_2 = widen f0_2 * widen f7;
      f0f8_2 = widen f0_2 * widen f8; f0f9_2 = widen f0_2 * widen f9;
      f1f1_2 = widen f1_2 * widen f1; f1f2_2 = widen f1_2 * widen f2;
      f1f3_4 = widen f1_2 * widen f3_2; f1f4_2 = widen f1_2 * widen f4;
      f1f5_4 = widen f1_2 * widen f5_2; f1f6_2 = widen f1_2 * widen f6;
      f1f7_4 = widen f1_2 * widen f7_2; f1f8_2 = widen f1_2 * widen f8;
      f1f9_76 = widen f1_2 * widen f9_38; f2f2 = widen f2 * widen f2;
      f2f3_2 = widen f2_2 * widen f3; f2f4_2 = widen f2_2 * widen f4;
      f2f5_2 = widen f2_2 * widen f5; f2f6_2 = widen f2_2 * widen f6;
      f2f7_2 = widen f2_2 * widen f7; f2f8_38 = widen f2_2 * widen f8_19;
      f2f9_38 = widen f2 * widen f9_38; f3f3_2 = widen f3_2 * widen f3;
      f3f4_2 = widen f3_2 * widen f4; f3f5_4 = widen f3_2 * widen f5_2;
      f3f6_2 = widen f3_2 * widen f6; f3f7_76 = widen f3_2 * widen f7_38;
      f3f8_38 = widen f3_2 * widen f8_19; f3f9_76 = widen f3_2 * widen f9_38;
      f4f4 = widen f4 * widen f4; f4f5_2 = widen f4_2 * widen f5;
      f4f6_38 = widen f4_2 * widen f6_19; f4f7_38 = widen f4 * widen f7_38;
      f4f8_38 = widen f4_2 * widen f8_19; f4f9_38 = widen f4 * widen f9_38;
      f5f5_38 = widen f5 * widen f5_38; f5f6_38 = widen f5_2 * widen f6_19;
      f5f7_76 = widen f5_2 * widen f7_38; f5f8_38 = widen f5_2 * widen f8_19;
      f5f9_76 = widen f5_2 * widen f9_38; f6f6_19 = widen f6 * widen f6_19;
      f6f7_38 = widen f6 * widen f7_38; f6f8_38 = widen f6_2 * widen f8_19;
      f6f9_38 = widen f6 * widen f9_38; f7f7_38 = widen f7 * widen f7_38;
      f7f8_38 = widen f7_2 * widen f8_19; f7f9_76 = widen f7_2 * widen f9_38;
      f8f8_19 = widen f8 * widen f8_19; f8f9_38 = widen f8 * widen f9_38;
      f9f9_38 = widen f9 * widen f9_38;
      h0 = f0f0 + f1f9_76 + f2f8_38 + f3f7_76 + f4f6_38 + f5f5_38;
      h1 = f0f1_2 + f2f9_38 + f3f8_38 + f4f7_38 + f5f6_38;
      h2 = f0f2_2 + f1f1_2 + f3f9_76 + f4f8_38 + f5f7_76 + f6f6_19;
      h3 = f0f3_2 + f1f2_2 + f4f9_38 + f5f8_38 + f6f7_38;
      h4 = f0f4_2 + f1f3_4 + f2f2 + f5f9_76 + f6f8_38 + f7f7_38;
      h5 = f0f5_2 + f1f4_2 + f2f3_2 + f6f9_38 + f7f8_38;
      h6 = f0f6_2 + f1f5_4 + f2f4_2 + f3f3_2 + f7f9_76 + f8f8_19;
      h7 = f0f7_2 + f1f6_2 + f2f5_2 + f3f4_2 + f8f9_38;
      h8 = f0f8_2 + f1f7_4 + f2f6_2 + f3f5_4 + f4f4 + f9f9_38;
      h9 = f0f9_2 + f1f8_2 + f2f7_2 + f3f6_2 + f4f5_2
      in [h0, h1, h2, h3, h4, h5, h6, h7, h8, h9])"

definition fe_sq :: "fe \<Rightarrow> fe" where
  "fe_sq f = narrow (run_w fe_carries (fe_sq_products f))"

text \<open>fe_sq2.c forms the same products, doubles the ten sums and carries.\<close>

definition fe_sq2 :: "fe \<Rightarrow> fe" where
  "fe_sq2 f = narrow (run_w fe_carries (map (\<lambda>h. h + h) (fe_sq_products f)))"

section \<open>The sums of products, on integers\<close>

definition fe_conv :: "int list \<Rightarrow> int list \<Rightarrow> int list" where
  "fe_conv F G =
    [F ! 0 * G ! 0 + (2 * F ! 1) * (19 * G ! 9) + F ! 2 * (19 * G ! 8) +
     (2 * F ! 3) * (19 * G ! 7) + F ! 4 * (19 * G ! 6) + (2 * F ! 5) * (19 * G ! 5) +
     F ! 6 * (19 * G ! 4) + (2 * F ! 7) * (19 * G ! 3) + F ! 8 * (19 * G ! 2) +
     (2 * F ! 9) * (19 * G ! 1),
     F ! 0 * G ! 1 + F ! 1 * G ! 0 + F ! 2 * (19 * G ! 9) + F ! 3 * (19 * G ! 8) +
     F ! 4 * (19 * G ! 7) + F ! 5 * (19 * G ! 6) + F ! 6 * (19 * G ! 5) +
     F ! 7 * (19 * G ! 4) + F ! 8 * (19 * G ! 3) + F ! 9 * (19 * G ! 2),
     F ! 0 * G ! 2 + (2 * F ! 1) * G ! 1 + F ! 2 * G ! 0 + (2 * F ! 3) * (19 * G ! 9) +
     F ! 4 * (19 * G ! 8) + (2 * F ! 5) * (19 * G ! 7) + F ! 6 * (19 * G ! 6) +
     (2 * F ! 7) * (19 * G ! 5) + F ! 8 * (19 * G ! 4) + (2 * F ! 9) * (19 * G ! 3),
     F ! 0 * G ! 3 + F ! 1 * G ! 2 + F ! 2 * G ! 1 + F ! 3 * G ! 0 + F ! 4 * (19 * G ! 9) +
     F ! 5 * (19 * G ! 8) + F ! 6 * (19 * G ! 7) + F ! 7 * (19 * G ! 6) +
     F ! 8 * (19 * G ! 5) + F ! 9 * (19 * G ! 4),
     F ! 0 * G ! 4 + (2 * F ! 1) * G ! 3 + F ! 2 * G ! 2 + (2 * F ! 3) * G ! 1 +
     F ! 4 * G ! 0 + (2 * F ! 5) * (19 * G ! 9) + F ! 6 * (19 * G ! 8) +
     (2 * F ! 7) * (19 * G ! 7) + F ! 8 * (19 * G ! 6) + (2 * F ! 9) * (19 * G ! 5),
     F ! 0 * G ! 5 + F ! 1 * G ! 4 + F ! 2 * G ! 3 + F ! 3 * G ! 2 + F ! 4 * G ! 1 +
     F ! 5 * G ! 0 + F ! 6 * (19 * G ! 9) + F ! 7 * (19 * G ! 8) + F ! 8 * (19 * G ! 7) +
     F ! 9 * (19 * G ! 6),
     F ! 0 * G ! 6 + (2 * F ! 1) * G ! 5 + F ! 2 * G ! 4 + (2 * F ! 3) * G ! 3 +
     F ! 4 * G ! 2 + (2 * F ! 5) * G ! 1 + F ! 6 * G ! 0 + (2 * F ! 7) * (19 * G ! 9) +
     F ! 8 * (19 * G ! 8) + (2 * F ! 9) * (19 * G ! 7),
     F ! 0 * G ! 7 + F ! 1 * G ! 6 + F ! 2 * G ! 5 + F ! 3 * G ! 4 + F ! 4 * G ! 3 +
     F ! 5 * G ! 2 + F ! 6 * G ! 1 + F ! 7 * G ! 0 + F ! 8 * (19 * G ! 9) +
     F ! 9 * (19 * G ! 8),
     F ! 0 * G ! 8 + (2 * F ! 1) * G ! 7 + F ! 2 * G ! 6 + (2 * F ! 3) * G ! 5 +
     F ! 4 * G ! 4 + (2 * F ! 5) * G ! 3 + F ! 6 * G ! 2 + (2 * F ! 7) * G ! 1 +
     F ! 8 * G ! 0 + (2 * F ! 9) * (19 * G ! 9),
     F ! 0 * G ! 9 + F ! 1 * G ! 8 + F ! 2 * G ! 7 + F ! 3 * G ! 6 + F ! 4 * G ! 5 +
     F ! 5 * G ! 4 + F ! 6 * G ! 3 + F ! 7 * G ! 2 + F ! 8 * G ! 1 + F ! 9 * G ! 0]"

definition fe_conv_sq :: "int list \<Rightarrow> int list" where
  "fe_conv_sq F =
    [F ! 0 * F ! 0 + (2 * F ! 1) * (38 * F ! 9) + (2 * F ! 2) * (19 * F ! 8) +
     (2 * F ! 3) * (38 * F ! 7) + (2 * F ! 4) * (19 * F ! 6) + F ! 5 * (38 * F ! 5),
     (2 * F ! 0) * F ! 1 + F ! 2 * (38 * F ! 9) + (2 * F ! 3) * (19 * F ! 8) +
     F ! 4 * (38 * F ! 7) + (2 * F ! 5) * (19 * F ! 6),
     (2 * F ! 0) * F ! 2 + (2 * F ! 1) * F ! 1 + (2 * F ! 3) * (38 * F ! 9) +
     (2 * F ! 4) * (19 * F ! 8) + (2 * F ! 5) * (38 * F ! 7) + F ! 6 * (19 * F ! 6),
     (2 * F ! 0) * F ! 3 + (2 * F ! 1) * F ! 2 + F ! 4 * (38 * F ! 9) +
     (2 * F ! 5) * (19 * F ! 8) + F ! 6 * (38 * F ! 7),
     (2 * F ! 0) * F ! 4 + (2 * F ! 1) * (2 * F ! 3) + F ! 2 * F ! 2 +
     (2 * F ! 5) * (38 * F ! 9) + (2 * F ! 6) * (19 * F ! 8) + F ! 7 * (38 * F ! 7),
     (2 * F ! 0) * F ! 5 + (2 * F ! 1) * F ! 4 + (2 * F ! 2) * F ! 3 + F ! 6 * (38 * F ! 9) +
     (2 * F ! 7) * (19 * F ! 8),
     (2 * F ! 0) * F ! 6 + (2 * F ! 1) * (2 * F ! 5) + (2 * F ! 2) * F ! 4 +
     (2 * F ! 3) * F ! 3 + (2 * F ! 7) * (38 * F ! 9) + F ! 8 * (19 * F ! 8),
     (2 * F ! 0) * F ! 7 + (2 * F ! 1) * F ! 6 + (2 * F ! 2) * F ! 5 + (2 * F ! 3) * F ! 4 +
     F ! 8 * (38 * F ! 9),
     (2 * F ! 0) * F ! 8 + (2 * F ! 1) * (2 * F ! 7) + (2 * F ! 2) * F ! 6 +
     (2 * F ! 3) * (2 * F ! 5) + F ! 4 * F ! 4 + F ! 9 * (38 * F ! 9),
     (2 * F ! 0) * F ! 9 + (2 * F ! 1) * F ! 8 + (2 * F ! 2) * F ! 7 + (2 * F ! 3) * F ! 6 +
     (2 * F ! 4) * F ! 5]"

lemma fe_conv_sq: "fe_conv_sq F = fe_conv F F"
  by (simp add: fe_conv_sq_def fe_conv_def)

lemma fe_weights:
  "fe_weight 0 = 1" "fe_weight 1 = 2 ^ 26" "fe_weight 2 = 2 ^ 51" "fe_weight 3 = 2 ^ 77"
  "fe_weight 4 = 2 ^ 102" "fe_weight 5 = 2 ^ 128" "fe_weight 6 = 2 ^ 153"
  "fe_weight 7 = 2 ^ 179" "fe_weight 8 = 2 ^ 204" "fe_weight 9 = 2 ^ 230"
  by (simp_all only: fe_weight_def fe_exp_def) simp_all

lemma limb_value_10:
  "length s = 10 \<Longrightarrow> limb_value fe_weight s =
    s ! 0 + 2 ^ 26 * s ! 1 + 2 ^ 51 * s ! 2 + 2 ^ 77 * s ! 3 + 2 ^ 102 * s ! 4 +
    2 ^ 128 * s ! 5 + 2 ^ 153 * s ! 6 + 2 ^ 179 * s ! 7 + 2 ^ 204 * s ! 8 + 2 ^ 230 * s ! 9"
  unfolding limb_value_def by (simp only: sum_less_10 fe_weights mult_1_left)

lemma limb_value_list10:
  "limb_value fe_weight [a, b, c, d, e, f, g, h, i, j] =
    a + 2 ^ 26 * b + 2 ^ 51 * c + 2 ^ 77 * d + 2 ^ 102 * e +
    2 ^ 128 * f + 2 ^ 153 * g + 2 ^ 179 * h + 2 ^ 204 * i + 2 ^ 230 * j"
  using limb_value_10 [of "[a, b, c, d, e, f, g, h, i, j]"] by simp

lemma fe_conv_value:
  assumes "length F = 10" "length G = 10"
  shows "limb_value fe_weight F * limb_value fe_weight G =
    limb_value fe_weight (fe_conv F G) + fe_p *
     (2 * 2 ^ 0 * (F ! 1 * G ! 9) + 1 * 2 ^ 0 * (F ! 2 * G ! 8) +
      1 * 2 ^ 26 * (F ! 2 * G ! 9) + 2 * 2 ^ 0 * (F ! 3 * G ! 7) +
      1 * 2 ^ 26 * (F ! 3 * G ! 8) + 2 * 2 ^ 51 * (F ! 3 * G ! 9) +
      1 * 2 ^ 0 * (F ! 4 * G ! 6) + 1 * 2 ^ 26 * (F ! 4 * G ! 7) +
      1 * 2 ^ 51 * (F ! 4 * G ! 8) + 1 * 2 ^ 77 * (F ! 4 * G ! 9) +
      2 * 2 ^ 0 * (F ! 5 * G ! 5) + 1 * 2 ^ 26 * (F ! 5 * G ! 6) +
      2 * 2 ^ 51 * (F ! 5 * G ! 7) + 1 * 2 ^ 77 * (F ! 5 * G ! 8) +
      2 * 2 ^ 102 * (F ! 5 * G ! 9) + 1 * 2 ^ 0 * (F ! 6 * G ! 4) +
      1 * 2 ^ 26 * (F ! 6 * G ! 5) + 1 * 2 ^ 51 * (F ! 6 * G ! 6) +
      1 * 2 ^ 77 * (F ! 6 * G ! 7) + 1 * 2 ^ 102 * (F ! 6 * G ! 8) +
      1 * 2 ^ 128 * (F ! 6 * G ! 9) + 2 * 2 ^ 0 * (F ! 7 * G ! 3) +
      1 * 2 ^ 26 * (F ! 7 * G ! 4) + 2 * 2 ^ 51 * (F ! 7 * G ! 5) +
      1 * 2 ^ 77 * (F ! 7 * G ! 6) + 2 * 2 ^ 102 * (F ! 7 * G ! 7) +
      1 * 2 ^ 128 * (F ! 7 * G ! 8) + 2 * 2 ^ 153 * (F ! 7 * G ! 9) +
      1 * 2 ^ 0 * (F ! 8 * G ! 2) + 1 * 2 ^ 26 * (F ! 8 * G ! 3) +
      1 * 2 ^ 51 * (F ! 8 * G ! 4) + 1 * 2 ^ 77 * (F ! 8 * G ! 5) +
      1 * 2 ^ 102 * (F ! 8 * G ! 6) + 1 * 2 ^ 128 * (F ! 8 * G ! 7) +
      1 * 2 ^ 153 * (F ! 8 * G ! 8) + 1 * 2 ^ 179 * (F ! 8 * G ! 9) +
      2 * 2 ^ 0 * (F ! 9 * G ! 1) + 1 * 2 ^ 26 * (F ! 9 * G ! 2) +
      2 * 2 ^ 51 * (F ! 9 * G ! 3) + 1 * 2 ^ 77 * (F ! 9 * G ! 4) +
      2 * 2 ^ 102 * (F ! 9 * G ! 5) + 1 * 2 ^ 128 * (F ! 9 * G ! 6) +
      2 * 2 ^ 153 * (F ! 9 * G ! 7) + 1 * 2 ^ 179 * (F ! 9 * G ! 8) +
      2 * 2 ^ 204 * (F ! 9 * G ! 9))"
proof -
  show ?thesis
    unfolding limb_value_10 [OF assms(1)] limb_value_10 [OF assms(2)] fe_p_def fe_conv_def
      limb_value_list10
    by algebra
qed

definition fe_product_ivls :: "ivl list" where
  "fe_product_ivls =
    [(-1526500696134443485, 1526500696134443485), (-944100830127147000, 944100830127147000),
     (-1195452352106279851, 1195452352106279851), (-723401934772749000, 723401934772749000),
     (-864404008078116217, 864404008078116217), (-502703039418351000, 502703039418351000),
     (-533355664049952583, 533355664049952583), (-282004144063953000, 282004144063953000),
     (-202307320021788949, 202307320021788949), (-61305248709555000, 61305248709555000)]"

lemma prod_abs_le: "\<bar>x\<bar> \<le> a \<Longrightarrow> \<bar>y\<bar> \<le> b \<Longrightarrow> \<bar>x * y\<bar> \<le> a * (b :: int)"
  unfolding abs_mult by (rule mult_mono) auto

text \<open>The bounds 1.65*2^26 and 1.65*2^25 that the C comments put on the inputs.\<close>

definition fe_mul_input :: "int list \<Rightarrow> bool" where
  "fe_mul_input F \<longleftrightarrow>
     length F = 10 \<and> (\<forall>i<10. \<bar>F ! i\<bar> \<le> (if even i then 110729625 else 55364812))"

lemma fe_conv_ivls:
  assumes "fe_mul_input F" "fe_mul_input G"
  shows "in_ivls (fe_conv F G) fe_product_ivls"
proof -
  define b :: "nat \<Rightarrow> int" where "b = (\<lambda>i. if even i then 110729625 else 55364812)"
  have m: "\<bar>F ! i * G ! j\<bar> \<le> b i * b j" if "i < 10" "j < 10" for i j
    using assms that by (intro prod_abs_le) (auto simp: fe_mul_input_def b_def)
  have v: "b 0 = 110729625" "b 1 = 55364812" "b 2 = 110729625" "b 3 = 55364812" "b 4 = 110729625"
    "b 5 = 55364812" "b 6 = 110729625" "b 7 = 55364812"
    "b 8 = 110729625" "b 9 = 55364812" "b (Suc 0) = 55364812"
    by (simp_all add: b_def)
  have k0: "in_ivl (F ! 0 * G ! 0 + (2 * F ! 1) * (19 * G ! 9) + F ! 2 * (19 * G ! 8) +
      (2 * F ! 3) * (19 * G ! 7) + F ! 4 * (19 * G ! 6) + (2 * F ! 5) * (19 * G ! 5) +
      F ! 6 * (19 * G ! 4) + (2 * F ! 7) * (19 * G ! 3) + F ! 8 * (19 * G ! 2) +
      (2 * F ! 9) * (19 * G ! 1))
      (-1526500696134443485, 1526500696134443485)"
    using m [of 0 0] m [of 1 9] m [of 2 8] m [of 3 7] m [of 4 6] m [of 5 5] m [of 6 4] m [of 7 3]
      m [of 8 2] m [of 9 1] by (simp add: v in_ivl_def abs_le_iff)
  have k1: "in_ivl (F ! 0 * G ! 1 + F ! 1 * G ! 0 + F ! 2 * (19 * G ! 9) + F ! 3 * (19 * G ! 8) +
      F ! 4 * (19 * G ! 7) + F ! 5 * (19 * G ! 6) + F ! 6 * (19 * G ! 5) +
      F ! 7 * (19 * G ! 4) + F ! 8 * (19 * G ! 3) + F ! 9 * (19 * G ! 2))
      (-944100830127147000, 944100830127147000)"
    using m [of 0 1] m [of 1 0] m [of 2 9] m [of 3 8] m [of 4 7] m [of 5 6] m [of 6 5] m [of 7 4]
      m [of 8 3] m [of 9 2] by (simp add: v in_ivl_def abs_le_iff)
  have k2: "in_ivl (F ! 0 * G ! 2 + (2 * F ! 1) * G ! 1 + F ! 2 * G ! 0 + (2 * F ! 3) * (19 * G ! 9) +
      F ! 4 * (19 * G ! 8) + (2 * F ! 5) * (19 * G ! 7) + F ! 6 * (19 * G ! 6) +
      (2 * F ! 7) * (19 * G ! 5) + F ! 8 * (19 * G ! 4) + (2 * F ! 9) * (19 * G ! 3))
      (-1195452352106279851, 1195452352106279851)"
    using m [of 0 2] m [of 1 1] m [of 2 0] m [of 3 9] m [of 4 8] m [of 5 7] m [of 6 6] m [of 7 5]
      m [of 8 4] m [of 9 3] by (simp add: v in_ivl_def abs_le_iff)
  have k3: "in_ivl (F ! 0 * G ! 3 + F ! 1 * G ! 2 + F ! 2 * G ! 1 + F ! 3 * G ! 0 + F ! 4 * (19 * G ! 9) +
      F ! 5 * (19 * G ! 8) + F ! 6 * (19 * G ! 7) + F ! 7 * (19 * G ! 6) +
      F ! 8 * (19 * G ! 5) + F ! 9 * (19 * G ! 4))
      (-723401934772749000, 723401934772749000)"
    using m [of 0 3] m [of 1 2] m [of 2 1] m [of 3 0] m [of 4 9] m [of 5 8] m [of 6 7] m [of 7 6]
      m [of 8 5] m [of 9 4] by (simp add: v in_ivl_def abs_le_iff)
  have k4: "in_ivl (F ! 0 * G ! 4 + (2 * F ! 1) * G ! 3 + F ! 2 * G ! 2 + (2 * F ! 3) * G ! 1 +
      F ! 4 * G ! 0 + (2 * F ! 5) * (19 * G ! 9) + F ! 6 * (19 * G ! 8) +
      (2 * F ! 7) * (19 * G ! 7) + F ! 8 * (19 * G ! 6) + (2 * F ! 9) * (19 * G ! 5))
      (-864404008078116217, 864404008078116217)"
    using m [of 0 4] m [of 1 3] m [of 2 2] m [of 3 1] m [of 4 0] m [of 5 9] m [of 6 8] m [of 7 7]
      m [of 8 6] m [of 9 5] by (simp add: v in_ivl_def abs_le_iff)
  have k5: "in_ivl (F ! 0 * G ! 5 + F ! 1 * G ! 4 + F ! 2 * G ! 3 + F ! 3 * G ! 2 + F ! 4 * G ! 1 +
      F ! 5 * G ! 0 + F ! 6 * (19 * G ! 9) + F ! 7 * (19 * G ! 8) + F ! 8 * (19 * G ! 7) +
      F ! 9 * (19 * G ! 6))
      (-502703039418351000, 502703039418351000)"
    using m [of 0 5] m [of 1 4] m [of 2 3] m [of 3 2] m [of 4 1] m [of 5 0] m [of 6 9] m [of 7 8]
      m [of 8 7] m [of 9 6] by (simp add: v in_ivl_def abs_le_iff)
  have k6: "in_ivl (F ! 0 * G ! 6 + (2 * F ! 1) * G ! 5 + F ! 2 * G ! 4 + (2 * F ! 3) * G ! 3 +
      F ! 4 * G ! 2 + (2 * F ! 5) * G ! 1 + F ! 6 * G ! 0 + (2 * F ! 7) * (19 * G ! 9) +
      F ! 8 * (19 * G ! 8) + (2 * F ! 9) * (19 * G ! 7))
      (-533355664049952583, 533355664049952583)"
    using m [of 0 6] m [of 1 5] m [of 2 4] m [of 3 3] m [of 4 2] m [of 5 1] m [of 6 0] m [of 7 9]
      m [of 8 8] m [of 9 7] by (simp add: v in_ivl_def abs_le_iff)
  have k7: "in_ivl (F ! 0 * G ! 7 + F ! 1 * G ! 6 + F ! 2 * G ! 5 + F ! 3 * G ! 4 + F ! 4 * G ! 3 +
      F ! 5 * G ! 2 + F ! 6 * G ! 1 + F ! 7 * G ! 0 + F ! 8 * (19 * G ! 9) +
      F ! 9 * (19 * G ! 8))
      (-282004144063953000, 282004144063953000)"
    using m [of 0 7] m [of 1 6] m [of 2 5] m [of 3 4] m [of 4 3] m [of 5 2] m [of 6 1] m [of 7 0]
      m [of 8 9] m [of 9 8] by (simp add: v in_ivl_def abs_le_iff)
  have k8: "in_ivl (F ! 0 * G ! 8 + (2 * F ! 1) * G ! 7 + F ! 2 * G ! 6 + (2 * F ! 3) * G ! 5 +
      F ! 4 * G ! 4 + (2 * F ! 5) * G ! 3 + F ! 6 * G ! 2 + (2 * F ! 7) * G ! 1 +
      F ! 8 * G ! 0 + (2 * F ! 9) * (19 * G ! 9))
      (-202307320021788949, 202307320021788949)"
    using m [of 0 8] m [of 1 7] m [of 2 6] m [of 3 5] m [of 4 4] m [of 5 3] m [of 6 2] m [of 7 1]
      m [of 8 0] m [of 9 9] by (simp add: v in_ivl_def abs_le_iff)
  have k9: "in_ivl (F ! 0 * G ! 9 + F ! 1 * G ! 8 + F ! 2 * G ! 7 + F ! 3 * G ! 6 + F ! 4 * G ! 5 +
      F ! 5 * G ! 4 + F ! 6 * G ! 3 + F ! 7 * G ! 2 + F ! 8 * G ! 1 + F ! 9 * G ! 0)
      (-61305248709555000, 61305248709555000)"
    using m [of 0 9] m [of 1 8] m [of 2 7] m [of 3 6] m [of 4 5] m [of 5 4] m [of 6 3] m [of 7 2]
      m [of 8 1] m [of 9 0] by (simp add: v in_ivl_def abs_le_iff)
  show ?thesis
    unfolding in_ivls_def fe_conv_def fe_product_ivls_def
    using k0 k1 k2 k3 k4 k5 k6 k7 k8 k9 by (simp add: All_less_Suc numeral_eq_Suc)
qed

section \<open>The machine computes those sums\<close>

lemma fe_within_input: "fe_within 110729625 55364812 f \<longleftrightarrow> fe_mul_input (map sint f)"
  by (simp add: fe_within_def fe_mul_input_def cong: conj_cong)

lemma widen_numeral_mult:
  assumes "fits 32 (numeral k * sint x)"
  shows "widen (numeral k * x) = numeral k * widen x"
proof -
  have "sint (numeral k * x) = numeral k * sint x"
    using sint_of_int [where 'a=32, of "numeral k * sint x"] assms by simp
  then show ?thesis unfolding widen_def scast_eq by simp
qed

lemma widen_input:
  assumes "fe_within 110729625 55364812 f" "i < 10"
  shows "widen (2 * f ! i) = 2 * widen (f ! i)" "widen (19 * f ! i) = 19 * widen (f ! i)"
    "odd i \<Longrightarrow> widen (38 * f ! i) = 38 * widen (f ! i)"
  using assms by (auto intro!: widen_numeral_mult fits_abs simp: fe_within_def abs_mult
      split: if_splits)

lemma ints_sint:
  assumes "in_ivls P J" "list_all (fits_ivl 64) J"
  shows "map sint (map word_of_int P :: i64 list) = P"
proof (rule nth_equalityI)
  fix i
  assume i: "i < length (map sint (map word_of_int P :: i64 list))"
  then have "fits 64 (P ! i)"
    using assms by (auto simp: in_ivls_def list_all_length intro: fits_ivl_fits)
  then show "map sint (map word_of_int P :: i64 list) ! i = P ! i"
    using i by (simp add: sint_of_int_64)
qed simp

lemma fe_product_sint:
  assumes "in_ivls P fe_product_ivls"
  shows "map sint (map word_of_int P :: i64 list) = P"
  by (rule ints_sint [OF assms]) code_simp

lemma fe_mul_products_words:
  assumes "fe_within 110729625 55364812 f" "fe_within 110729625 55364812 g"
  shows "fe_mul_products f g = map word_of_int (fe_conv (map sint f) (map sint g))"
proof -
  have l: "length f = 10" "length g = 10" using assms by (auto simp: fe_within_def)
  show ?thesis
    unfolding fe_mul_products_def fe_conv_def Let_def
    by (simp add: l widen_input [OF assms(1)] widen_input [OF assms(2)])
      (simp add: widen_def)
qed

lemma fe_sq_products_words:
  assumes "fe_within 110729625 55364812 f"
  shows "fe_sq_products f = map word_of_int (fe_conv_sq (map sint f))"
proof -
  have l: "length f = 10" using assms by (auto simp: fe_within_def)
  show ?thesis
    unfolding fe_sq_products_def fe_conv_sq_def Let_def
    by (simp add: l widen_input [OF assms(1)]) (simp add: widen_def)
qed

section \<open>The carries\<close>

text \<open>
  The analysis of the twelve carries for the three routines: fe_mul.c and fe_sq.c enter with
  the sums above, fe_sq2.c with twice these sums. Its results are the bounds 1.01*2^25 and
  1.01*2^24 of the C comments.
\<close>

definition fe_sq2_result :: "ivl list" where
  "fe_sq2_result =
    [(- 33554432, 33554431), (- 16778251, 16778250), (- 33554432, 33554431),
     (- 16777216, 16777215), (- 33554432, 33554431), (- 16777859, 16777858),
     (- 33554432, 33554431), (- 16777216, 16777215), (- 33554432, 33554431),
     (- 16777216, 16777215)]"

definition fe_mul_result :: "ivl list" where
  "fe_mul_result =
    [(- 33554432, 33554431), (- 16777734, 16777733), (- 33554432, 33554431),
     (- 16777216, 16777215), (- 33554432, 33554431), (- 16777538, 16777537),
     (- 33554432, 33554431), (- 16777216, 16777215), (- 33554432, 33554431),
     (- 16777216, 16777215)]"

interpretation fe_carry: limb_program "TYPE(64)" fe_weight fe_p fe_carries fe_product_ivls
  fe_mul_result
proof unfold_locales
  show "list_all (step_ok fe_weight fe_p (length fe_product_ivls)) fe_carries"
    by (simp add: fe_carries_def fe_product_ivls_def fe_weight_def fe_exp_def fe_p_def)
  have "run_i 64 fe_carries fe_product_ivls = Some fe_mul_result" by code_simp
  then show "run_i LENGTH(64) fe_carries fe_product_ivls = Some fe_mul_result" by simp
qed

interpretation fe_sq2_carry: limb_program "TYPE(64)" fe_weight fe_p fe_carries
  "map (\<lambda>I. plus_ivl I I) fe_product_ivls" fe_sq2_result
proof unfold_locales
  show "list_all (step_ok fe_weight fe_p
      (length (map (\<lambda>I. plus_ivl I I) fe_product_ivls))) fe_carries"
    by (simp add: fe_carries_def fe_product_ivls_def fe_weight_def fe_exp_def fe_p_def)
  have "run_i 64 fe_carries (map (\<lambda>I. plus_ivl I I) fe_product_ivls) = Some fe_sq2_result"
    by code_simp
  then show "run_i LENGTH(64) fe_carries (map (\<lambda>I. plus_ivl I I) fe_product_ivls) =
    Some fe_sq2_result" by simp
qed

section \<open>Correctness\<close>

lemma sint_ucast_down:
  assumes "fits 32 (sint (w :: i64))"
  shows "sint (ucast w :: i32) = sint w"
proof -
  have "(ucast w :: i32) = word_of_int (sint w)"
    by (simp add: bit_eq_iff bit_simps flip: scast_eq)
  with assms show ?thesis by (simp only: sint_of_int_32)
qed

lemma narrow_sint:
  assumes "in_ivls (map sint s) J" "list_all (fits_ivl 32) J"
  shows "map sint (narrow s) = map sint s"
proof (rule nth_equalityI)
  fix i
  assume i: "i < length (map sint (narrow s))"
  then have "in_ivl (sint (s ! i)) (J ! i)" "fits_ivl 32 (J ! i)"
    using assms by (auto simp: in_ivls_def narrow_def list_all_length)
  then show "map sint (narrow s) ! i = map sint s ! i"
    using i by (simp add: narrow_def sint_ucast_down [OF fits_ivl_fits])
qed (simp add: narrow_def)

definition ivls_within :: "int \<Rightarrow> int \<Rightarrow> ivl list \<Rightarrow> bool" where
  "ivls_within e d J \<longleftrightarrow> length J = 10 \<and>
     (\<forall>i<10. - (if even i then e else d) \<le> fst (J ! i) \<and> snd (J ! i) \<le> (if even i then e else d))"

lemma fe_within_ivls:
  assumes "in_ivls (map sint f) J" "ivls_within e d J"
  shows "fe_within e d f"
  unfolding fe_within_def
proof (intro conjI allI impI)
  show len: "length f = 10" using assms by (simp add: in_ivls_def ivls_within_def)
  fix i :: nat
  assume i: "i < 10"
  then have "in_ivl (sint (f ! i)) (J ! i)"
    using assms(1) len by (simp add: in_ivls_def)
  then show "\<bar>sint (f ! i)\<bar> \<le> (if even i then e else d)"
    using assms(2) i by (auto simp: ivls_within_def in_ivl_def)
qed

lemma fe_results_tight:
  "ivls_within 33889976 16944988 fe_mul_result" "list_all (fits_ivl 32) fe_mul_result"
  "ivls_within 33889976 16944988 fe_sq2_result" "list_all (fits_ivl 32) fe_sq2_result"
  by (simp_all add: fe_mul_result_def fe_sq2_result_def fits_ivl_def fits_def ivls_within_def
      all_less_10)

text \<open>From the sums of products to the stored result, for all three routines.\<close>

lemma fe_carried:
  assumes "limb_program TYPE(64) fe_weight fe_p fe_carries I J"
    and "ivls_within e d J" "list_all (fits_ivl 32) J"
    and "in_ivls (map sint h) I"
  shows "fe_val (narrow (run_w fe_carries h)) mod fe_p =
      limb_value fe_weight (map sint h) mod fe_p"
    and "fe_within e d (narrow (run_w fe_carries h))"
proof -
  have b: "in_ivls (map sint (run_w fe_carries h)) J"
    by (rule limb_program.bounded [OF assms(1,4)])
  have n: "map sint (narrow (run_w fe_carries h)) = map sint (run_w fe_carries h)"
    by (rule narrow_sint [OF b assms(3)])
  show "fe_val (narrow (run_w fe_carries h)) mod fe_p =
      limb_value fe_weight (map sint h) mod fe_p"
    unfolding fe_val_def n by (rule limb_program.keeps_value [OF assms(1,4)])
  show "fe_within e d (narrow (run_w fe_carries h))"
    by (rule fe_within_ivls [OF _ assms(2)]) (simp only: n b)
qed

lemma fe_conv_value_mod:
  assumes "length f = 10" "length g = 10"
  shows "limb_value fe_weight (fe_conv (map sint f) (map sint g)) mod fe_p =
    (fe_val f * fe_val g) mod fe_p"
  using assms unfolding fe_val_def by (subst fe_conv_value) simp_all

lemma fe_mul_correct:
  assumes "fe_within 110729625 55364812 f" "fe_within 110729625 55364812 g"
  shows "fe_val (fe_mul f g) mod fe_p = (fe_val f * fe_val g) mod fe_p"
    and "fe_within 33889976 16944988 (fe_mul f g)"
proof -
  have i: "in_ivls (fe_conv (map sint f) (map sint g)) fe_product_ivls"
    using assms by (intro fe_conv_ivls) (simp_all only: fe_within_input)
  have s: "map sint (fe_mul_products f g) = fe_conv (map sint f) (map sint g)"
    unfolding fe_mul_products_words [OF assms] by (rule fe_product_sint [OF i])
  note c = fe_carried [OF fe_carry.limb_program_axioms fe_results_tight(1,2), of "fe_mul_products f g"]
  show "fe_val (fe_mul f g) mod fe_p = (fe_val f * fe_val g) mod fe_p"
    using c(1) i assms unfolding s fe_mul_def
    by (simp add: fe_conv_value_mod fe_withinD(1))
  show "fe_within 33889976 16944988 (fe_mul f g)"
    using c(2) i unfolding s fe_mul_def by simp
qed

lemma fe_sq_products_sint:
  assumes "fe_within 110729625 55364812 f"
  shows "map sint (fe_sq_products f) = fe_conv (map sint f) (map sint f)"
    and "in_ivls (fe_conv (map sint f) (map sint f)) fe_product_ivls"
proof -
  show i: "in_ivls (fe_conv (map sint f) (map sint f)) fe_product_ivls"
    using assms by (intro fe_conv_ivls) (simp_all only: fe_within_input)
  show "map sint (fe_sq_products f) = fe_conv (map sint f) (map sint f)"
    unfolding fe_sq_products_words [OF assms] fe_conv_sq by (rule fe_product_sint [OF i])
qed

lemma fe_sq_correct:
  assumes "fe_within 110729625 55364812 f"
  shows "fe_val (fe_sq f) mod fe_p = (fe_val f * fe_val f) mod fe_p"
    and "fe_within 33889976 16944988 (fe_sq f)"
proof -
  note s = fe_sq_products_sint [OF assms]
  note c = fe_carried [OF fe_carry.limb_program_axioms fe_results_tight(1,2), of "fe_sq_products f"]
  show "fe_val (fe_sq f) mod fe_p = (fe_val f * fe_val f) mod fe_p"
    using c(1) s(2) assms unfolding s(1) fe_sq_def
    by (simp add: fe_conv_value_mod fe_withinD(1))
  show "fe_within 33889976 16944988 (fe_sq f)"
    using c(2) s(2) unfolding s(1) fe_sq_def by simp
qed

lemma in_plus_self: "in_ivl x I \<Longrightarrow> in_ivl (2 * x) (plus_ivl I I)"
  using in_plus_ivl [of x I x I] by simp

lemma double_sint:
  assumes "in_ivls (map sint h) fe_product_ivls"
  shows "map sint (map (\<lambda>h. h + h) h) = map (\<lambda>x. x + x) (map sint (h :: i64 list))"
    and "in_ivls (map (\<lambda>x. x + x) (map sint h)) (map (\<lambda>I. plus_ivl I I) fe_product_ivls)"
proof -
  show i: "in_ivls (map (\<lambda>x. x + x) (map sint h)) (map (\<lambda>I. plus_ivl I I) fe_product_ivls)"
    using assms by (auto simp: in_ivls_def simp flip: mult_2 intro!: in_plus_self)
  have "list_all (fits_ivl 64) (map (\<lambda>I. plus_ivl I I) fe_product_ivls)"
    by (simp add: fe_product_ivls_def plus_ivl_def fits_ivl_def fits_def)
  then have f: "fits 64 (sint (h ! k) + sint (h ! k))" if "k < length h" for k
    using i that by (intro fits_ivl_fits [of 64 "map (\<lambda>I. plus_ivl I I) fe_product_ivls ! k"])
      (auto simp: in_ivls_def list_all_length)
  show "map sint (map (\<lambda>h. h + h) h) = map (\<lambda>x. x + x) (map sint h)"
    by (rule nth_equalityI) (simp_all only: length_map nth_map sint_add_64 f)
qed

lemma fe_sq2_correct:
  assumes "fe_within 110729625 55364812 f"
  shows "fe_val (fe_sq2 f) mod fe_p = (2 * (fe_val f * fe_val f)) mod fe_p"
    and "fe_within 33889976 16944988 (fe_sq2 f)"
proof -
  let ?C = "fe_conv (map sint f) (map sint f)"
  let ?h = "map (\<lambda>h. h + h) (fe_sq_products f)"
  note s = fe_sq_products_sint [OF assms]
  note d = double_sint [of "fe_sq_products f", unfolded s(1), OF s(2)]
  have v: "limb_value fe_weight (map (\<lambda>x. x + x) ?C) = 2 * limb_value fe_weight ?C"
    by (simp add: limb_value_def sum_distrib_left algebra_simps)
  note c = fe_carried [OF fe_sq2_carry.limb_program_axioms fe_results_tight(3,4), of ?h]
  have "fe_val (fe_sq2 f) mod fe_p = limb_value fe_weight (map (\<lambda>x. x + x) ?C) mod fe_p"
    using c(1) d(2) unfolding d(1) fe_sq2_def by simp
  also have "\<dots> = (2 * (limb_value fe_weight ?C mod fe_p)) mod fe_p"
    unfolding v by (simp add: mod_mult_right_eq)
  also have "\<dots> = (2 * (fe_val f * fe_val f)) mod fe_p"
    using assms by (simp add: fe_conv_value_mod fe_withinD(1) mod_mult_right_eq)
  finally show "fe_val (fe_sq2 f) mod fe_p = (2 * (fe_val f * fe_val f)) mod fe_p" .
  show "fe_within 33889976 16944988 (fe_sq2 f)"
    using c(2) d(2) unfolding d(1) fe_sq2_def by simp
qed

section \<open>Properties\<close>

text \<open>C6: fe_mul.c multiplies modulo 2^255-19 and returns reduced limbs.\<close>

theorem fe_mul_field:
  assumes "fe_within 110729625 55364812 f" "fe_within 110729625 55364812 g"
  shows "fe_val (fe_mul f g) mod fe_p = (fe_val f * fe_val g) mod fe_p \<and>
    fe_within 33889976 16944988 (fe_mul f g)"
  using fe_mul_correct [OF assms] by simp

theorem fe_mul_field_witness:
  "fe_within 33889976 16944988 (fe_mul [- 5, 4, 3, 2, 1, 0, 9, - 8, 7, 33554432]
    [7, 7, 7, - 7, 7, 7, 7, 7, 7, 7])"
proof -
  have "fe_within 110729625 55364812 [- 5, 4, 3, 2, 1, 0, 9, - 8, 7, 33554432]"
    "fe_within 110729625 55364812 [7, 7, 7, - 7, 7, 7, 7, 7, 7, 7]"
    by (simp_all add: fe_within_def all_less_10)
  from fe_mul_field [OF this] show ?thesis by blast
qed

text \<open>
  C27: no intermediate of fe_mul.c overflows its C type: the ten 64-bit sums are the exact
  convolutions of the limbs, every carry step succeeds on checked integers, and the store
  into 32-bit limbs loses nothing.
\<close>

theorem fe_mul_no_overflow:
  assumes "fe_within 110729625 55364812 f" "fe_within 110729625 55364812 g"
  shows "map sint (fe_mul_products f g) = fe_conv (map sint f) (map sint g) \<and>
    run_z 64 fe_carries (fe_conv (map sint f) (map sint g)) = Some (map sint (fe_mul f g))"
proof -
  have i: "in_ivls (fe_conv (map sint f) (map sint g)) fe_product_ivls"
    using assms by (intro fe_conv_ivls) (simp_all only: fe_within_input)
  have s: "map sint (fe_mul_products f g) = fe_conv (map sint f) (map sint g)"
    unfolding fe_mul_products_words [OF assms] by (rule fe_product_sint [OF i])
  note c = fe_carry.no_overflow [of "fe_mul_products f g", unfolded s, OF i]
    fe_carry.bounded [of "fe_mul_products f g", unfolded s, OF i]
  have "map sint (fe_mul f g) = map sint (run_w fe_carries (fe_mul_products f g))"
    unfolding fe_mul_def by (rule narrow_sint [OF c(2) fe_results_tight(2)])
  with s c(1) show ?thesis by simp
qed

theorem fe_mul_no_overflow_witness:
  "run_z 64 fe_carries (fe_conv (map sint (replicate 10 (55364812 :: i32))) (map sint (replicate 10 (55364812 :: i32)))) =
    Some (map sint (fe_mul (replicate 10 55364812) (replicate 10 55364812)))"
proof -
  have "fe_within 110729625 55364812 (replicate 10 55364812)"
    by (simp add: fe_within_def all_less_10 nth_replicate)
  from fe_mul_no_overflow [OF this this] show ?thesis by blast
qed

text \<open>C22: the squaring of fe_sq.c is bit for bit the product of fe_mul.c.\<close>

theorem fe_sq_is_mul:
  assumes "fe_within 110729625 55364812 f"
  shows "fe_sq f = fe_mul f f"
  by (simp only: fe_sq_def fe_mul_def fe_sq_products_words [OF assms]
      fe_mul_products_words [OF assms assms] fe_conv_sq)

theorem fe_sq_is_mul_witness:
  "fe_sq [1, 2, 3, 4, 5, 6, 7, 8, 9, - 10] =
    fe_mul [1, 2, 3, 4, 5, 6, 7, 8, 9, - 10] [1, 2, 3, 4, 5, 6, 7, 8, 9, - 10]"
  by (rule fe_sq_is_mul) (simp add: fe_within_def all_less_10)

text \<open>Fe_sq2.c returns twice the square.\<close>

theorem fe_sq2_field:
  assumes "fe_within 110729625 55364812 f"
  shows "fe_val (fe_sq2 f) mod fe_p = (2 * (fe_val f * fe_val f)) mod fe_p \<and>
    fe_within 33889976 16944988 (fe_sq2 f)"
  using fe_sq2_correct [OF assms] by simp

theorem fe_sq2_field_witness:
  "fe_within 33889976 16944988 (fe_sq2 [110729625, - 55364812, 3, 4, 5, 6, 7, 8, 9, 10])"
proof -
  have "fe_within 110729625 55364812 [110729625, - 55364812, 3, 4, 5, 6, 7, 8, 9, 10]"
    by (simp add: fe_within_def all_less_10)
  from fe_sq2_field [OF this] show ?thesis by blast
qed

end
