(* ===== verification/Fe_Bytes.thy ===== *)
theory Fe_Bytes
  imports Fe_Mul
begin

text \<open>
  Field elements as 32-byte strings: fe_frombytes.c, fe_tobytes.c, fe_isnegative.c,
  fe_isnonzero.c and the comparison additions/compare.c.
\<close>

section \<open>Reading bytes\<close>

text \<open>\<open>load_3 s k\<close> is the C call \<open>load_3(s + k)\<close>; \<open>load_4\<close> likewise.\<close>

definition load_3 :: "u8 list \<Rightarrow> nat \<Rightarrow> i64" where
  "load_3 s k =
     (let result = ucast (s ! k);
          result = result OR push_bit 8 (ucast (s ! (k + 1)));
          result = result OR push_bit 16 (ucast (s ! (k + 2)))
      in result)"

definition load_4 :: "u8 list \<Rightarrow> nat \<Rightarrow> i64" where
  "load_4 s k =
     (let result = ucast (s ! k);
          result = result OR push_bit 8 (ucast (s ! (k + 1)));
          result = result OR push_bit 16 (ucast (s ! (k + 2)));
          result = result OR push_bit 24 (ucast (s ! (k + 3)))
      in result)"

definition fe_frombytes_limbs :: "u8 list \<Rightarrow> i64 list" where
  "fe_frombytes_limbs s =
    [load_4 s 0,
     push_bit 6 (load_3 s 4),
     push_bit 5 (load_3 s 7),
     push_bit 3 (load_3 s 10),
     push_bit 2 (load_3 s 13),
     load_4 s 16,
     push_bit 7 (load_3 s 20),
     push_bit 5 (load_3 s 23),
     push_bit 4 (load_3 s 26),
     push_bit 2 (load_3 s 29 AND 8388607)]"

definition fe_frombytes_carries :: "limb_step list" where
  "fe_frombytes_carries =
    [Carry 9 25 (2 ^ 24) [(0, 19)],
     Carry 1 25 (2 ^ 24) [(2, 1)],
     Carry 3 25 (2 ^ 24) [(4, 1)],
     Carry 5 25 (2 ^ 24) [(6, 1)],
     Carry 7 25 (2 ^ 24) [(8, 1)],
     Carry 0 26 (2 ^ 25) [(1, 1)],
     Carry 2 26 (2 ^ 25) [(3, 1)],
     Carry 4 26 (2 ^ 25) [(5, 1)],
     Carry 6 26 (2 ^ 25) [(7, 1)],
     Carry 8 26 (2 ^ 25) [(9, 1)]]"

definition fe_frombytes :: "u8 list \<Rightarrow> fe" where
  "fe_frombytes s = narrow (run_w fe_frombytes_carries (fe_frombytes_limbs s))"

section \<open>Writing bytes\<close>

text \<open>The estimate \<open>q\<close> of the quotient by 2^255-19, ten nested shifts of 32-bit sums.\<close>

definition fe_tobytes_q :: "fe \<Rightarrow> i32" where
  "fe_tobytes_q h =
     (let q = signed_drop_bit 25 (19 * h ! 9 + push_bit 24 1);
          q = signed_drop_bit 26 (h ! 0 + q);
          q = signed_drop_bit 25 (h ! 1 + q);
          q = signed_drop_bit 26 (h ! 2 + q);
          q = signed_drop_bit 25 (h ! 3 + q);
          q = signed_drop_bit 26 (h ! 4 + q);
          q = signed_drop_bit 25 (h ! 5 + q);
          q = signed_drop_bit 26 (h ! 6 + q);
          q = signed_drop_bit 25 (h ! 7 + q);
          q = signed_drop_bit 26 (h ! 8 + q);
          q = signed_drop_bit 25 (h ! 9 + q)
      in q)"

definition fe_tobytes_carries :: "limb_step list" where
  "fe_tobytes_carries =
    [Carry 0 26 0 [(1, 1)],
     Carry 1 25 0 [(2, 1)],
     Carry 2 26 0 [(3, 1)],
     Carry 3 25 0 [(4, 1)],
     Carry 4 26 0 [(5, 1)],
     Carry 5 25 0 [(6, 1)],
     Carry 6 26 0 [(7, 1)],
     Carry 7 25 0 [(8, 1)],
     Carry 8 26 0 [(9, 1)],
     Carry 9 25 0 []]"

definition fe_store_bytes :: "fe \<Rightarrow> u8 list" where
  "fe_store_bytes h =
    [ucast (signed_drop_bit 0 (h ! 0)),
     ucast (signed_drop_bit 8 (h ! 0)),
     ucast (signed_drop_bit 16 (h ! 0)),
     ucast (signed_drop_bit 24 (h ! 0) OR push_bit 2 (h ! 1)),
     ucast (signed_drop_bit 6 (h ! 1)),
     ucast (signed_drop_bit 14 (h ! 1)),
     ucast (signed_drop_bit 22 (h ! 1) OR push_bit 3 (h ! 2)),
     ucast (signed_drop_bit 5 (h ! 2)),
     ucast (signed_drop_bit 13 (h ! 2)),
     ucast (signed_drop_bit 21 (h ! 2) OR push_bit 5 (h ! 3)),
     ucast (signed_drop_bit 3 (h ! 3)),
     ucast (signed_drop_bit 11 (h ! 3)),
     ucast (signed_drop_bit 19 (h ! 3) OR push_bit 6 (h ! 4)),
     ucast (signed_drop_bit 2 (h ! 4)),
     ucast (signed_drop_bit 10 (h ! 4)),
     ucast (signed_drop_bit 18 (h ! 4)),
     ucast (signed_drop_bit 0 (h ! 5)),
     ucast (signed_drop_bit 8 (h ! 5)),
     ucast (signed_drop_bit 16 (h ! 5)),
     ucast (signed_drop_bit 24 (h ! 5) OR push_bit 1 (h ! 6)),
     ucast (signed_drop_bit 7 (h ! 6)),
     ucast (signed_drop_bit 15 (h ! 6)),
     ucast (signed_drop_bit 23 (h ! 6) OR push_bit 3 (h ! 7)),
     ucast (signed_drop_bit 5 (h ! 7)),
     ucast (signed_drop_bit 13 (h ! 7)),
     ucast (signed_drop_bit 21 (h ! 7) OR push_bit 4 (h ! 8)),
     ucast (signed_drop_bit 4 (h ! 8)),
     ucast (signed_drop_bit 12 (h ! 8)),
     ucast (signed_drop_bit 20 (h ! 8) OR push_bit 6 (h ! 9)),
     ucast (signed_drop_bit 2 (h ! 9)),
     ucast (signed_drop_bit 10 (h ! 9)),
     ucast (signed_drop_bit 18 (h ! 9))]"

definition fe_tobytes :: "fe \<Rightarrow> u8 list" where
  "fe_tobytes h =
     (let q = fe_tobytes_q h;
          h = h[0 := h ! 0 + 19 * q]
      in fe_store_bytes (run_w fe_tobytes_carries h))"

section \<open>Comparisons\<close>

text \<open>\<open>F(0) \<dots> F(31)\<close> accumulate the differing bits; the result is 0 or -1.\<close>

definition crypto_verify_32 :: "u8 list \<Rightarrow> u8 list \<Rightarrow> i32" where
  "crypto_verify_32 x y =
     (let differentbits = foldl (\<lambda>d i. d OR ucast (x ! i XOR y ! i)) (0 :: i32) [0..<32]
      in (1 AND drop_bit 8 (differentbits - 1)) - 1)"

definition fe_isnonzero :: "fe \<Rightarrow> i32" where
  "fe_isnonzero f = crypto_verify_32 (fe_tobytes f) (replicate 32 0)"

definition fe_isnegative :: "fe \<Rightarrow> i32" where
  "fe_isnegative f = (let s = fe_tobytes f in ucast (s ! 0 AND 1))"

section \<open>fe_frombytes\<close>

lemma take_drop_3: "k + 2 < length s \<Longrightarrow> take 3 (drop k s) = [s ! k, s ! (k + 1), s ! (k + 2)]"
proof -
  assume k: "k + 2 < length s"
  have 1: "drop k s = s ! k # drop (k + 1) s" using k by (simp add: Cons_nth_drop_Suc)
  have 2: "drop (k + 1) s = s ! (k + 1) # drop (k + 2) s"
    using k Cons_nth_drop_Suc [of "k + 1" s] by simp
  have 3: "drop (k + 2) s = s ! (k + 2) # drop (k + 3) s"
    using k Cons_nth_drop_Suc [of "k + 2" s] by (simp add: numeral_3_eq_3)
  show ?thesis unfolding 1 2 3 by simp
qed

lemma take_drop_4:
  "k + 3 < length s \<Longrightarrow> take 4 (drop k s) = [s ! k, s ! (k + 1), s ! (k + 2), s ! (k + 3)]"
proof -
  assume k: "k + 3 < length s"
  have 1: "drop k s = s ! k # drop (k + 1) s" using k by (simp add: Cons_nth_drop_Suc)
  have "take 3 (drop (k + 1) s) = [s ! (k + 1), s ! (k + 2), s ! (k + 3)]"
    using k take_drop_3 [of "k + 1" s] by (simp add: numeral_3_eq_3)
  then show ?thesis unfolding 1 by simp
qed

lemma ucast_byte: "(ucast (b :: u8) :: i64) = word_of_int (uint b)"
  by (rule ucast_eq)

lemma join_bytes:
  fixes a b c d :: u8
  shows "(word_of_int (uint a) :: i64) OR push_bit 8 (word_of_int (uint b)) =
      word_of_int (uint a + 2 ^ 8 * uint b)"
    and "(word_of_int (uint a + 2 ^ 8 * uint b) :: i64) OR push_bit 16 (word_of_int (uint c)) =
      word_of_int (uint a + 2 ^ 8 * uint b + 2 ^ 16 * uint c)"
    and "(word_of_int (uint a + 2 ^ 8 * uint b + 2 ^ 16 * uint c) :: i64) OR
        push_bit 24 (word_of_int (uint d)) =
      word_of_int (uint a + 2 ^ 8 * uint b + 2 ^ 16 * uint c + 2 ^ 24 * uint d)"
  using u8_bounds [of a] u8_bounds [of b] u8_bounds [of c]
  by (intro or_join; simp)+

lemma load_3_value:
  assumes "k + 2 < length s"
  shows "load_3 s k = word_of_int (le_value s div 256 ^ k mod 2 ^ 24)"
proof -
  have "load_3 s k = word_of_int
      (uint (s ! k) + 2 ^ 8 * uint (s ! (k + 1)) + 2 ^ 16 * uint (s ! (k + 2)))"
    unfolding load_3_def Let_def ucast_byte join_bytes ..
  also have "uint (s ! k) + 2 ^ 8 * uint (s ! (k + 1)) + 2 ^ 16 * uint (s ! (k + 2)) =
      le_value (take 3 (drop k s))"
    unfolding take_drop_3 [OF assms] by simp
  finally show ?thesis by (simp add: le_value_take le_value_drop)
qed

lemma load_4_value:
  assumes "k + 3 < length s"
  shows "load_4 s k = word_of_int (le_value s div 256 ^ k mod 2 ^ 32)"
proof -
  have "load_4 s k = word_of_int (uint (s ! k) + 2 ^ 8 * uint (s ! (k + 1)) +
      2 ^ 16 * uint (s ! (k + 2)) + 2 ^ 24 * uint (s ! (k + 3)))"
    unfolding load_4_def Let_def ucast_byte join_bytes ..
  also have "uint (s ! k) + 2 ^ 8 * uint (s ! (k + 1)) + 2 ^ 16 * uint (s ! (k + 2)) +
      2 ^ 24 * uint (s ! (k + 3)) = le_value (take 4 (drop k s))"
    unfolding take_drop_4 [OF assms] by simp
  finally show ?thesis by (simp add: le_value_take le_value_drop)
qed

definition fe_frombytes_ints :: "int \<Rightarrow> int list" where
  "fe_frombytes_ints v =
    [v mod 2 ^ 32, v div 2 ^ 32 mod 2 ^ 24 * 2 ^ 6, v div 2 ^ 56 mod 2 ^ 24 * 2 ^ 5,
     v div 2 ^ 80 mod 2 ^ 24 * 2 ^ 3, v div 2 ^ 104 mod 2 ^ 24 * 2 ^ 2,
     v div 2 ^ 128 mod 2 ^ 32, v div 2 ^ 160 mod 2 ^ 24 * 2 ^ 7,
     v div 2 ^ 184 mod 2 ^ 24 * 2 ^ 5, v div 2 ^ 208 mod 2 ^ 24 * 2 ^ 4,
     v div 2 ^ 232 mod 2 ^ 23 * 2 ^ 2]"

lemma fe_frombytes_limbs_words:
  assumes "length s = 32"
  shows "fe_frombytes_limbs s = map word_of_int (fe_frombytes_ints (le_value s))"
proof -
  have m: "(word_of_int x :: i64) AND 8388607 = word_of_int (x mod 2 ^ 23)" for x
    using and_mask_int [where 'a=64, of x 23] by simp
  have c: "y mod 2 ^ 24 mod 2 ^ 23 = (y mod 2 ^ 23 :: int)" for y
    by (simp add: mod_mod_cancel)
  show ?thesis
    using assms
    by (simp only: fe_frombytes_limbs_def fe_frombytes_ints_def load_3_value load_4_value
        m c push_bit_as_mult list.map wi_hom_mult) simp
qed

definition fe_frombytes_ivls :: "ivl list" where
  "fe_frombytes_ivls =
    [(0, 4294967295), (0, 1073741823), (0, 536870911), (0, 134217727), (0, 67108863),
     (0, 4294967295), (0, 2147483647), (0, 536870911), (0, 268435455), (0, 33554431)]"

lemma mod_pow_bounds: "0 \<le> x mod 2 ^ n" "x mod 2 ^ n \<le> 2 ^ n - (1 :: int)"
  using pos_mod_bound [of "2 ^ n" x] by simp_all

lemma fe_frombytes_ints_ivls: "in_ivls (fe_frombytes_ints v) fe_frombytes_ivls"
proof -
  have b: "in_ivl (x mod 2 ^ n * 2 ^ m) (0, (2 ^ n - 1) * 2 ^ m)"
    "in_ivl (x mod 2 ^ n) (0, 2 ^ n - 1)" for x :: int and n m
    using mod_pow_bounds [of x n] by (simp_all add: in_ivl_def)
  note w = in_ivl_weaken [OF b(1)] in_ivl_weaken [OF b(2)]
  show ?thesis
    unfolding fe_frombytes_ints_def fe_frombytes_ivls_def in_ivls_Cons
    by (intro conjI in_ivls_Nil; rule w; simp)
qed

lemma fe_frombytes_ints_value:
  "limb_value fe_weight (fe_frombytes_ints v) = v mod 2 ^ 255"
proof -
  have m:
    "v mod 2 ^ 56 = v mod 2 ^ 32 + 2 ^ 32 * (v div 2 ^ 32 mod 2 ^ 24)"
    "v mod 2 ^ 80 = v mod 2 ^ 56 + 2 ^ 56 * (v div 2 ^ 56 mod 2 ^ 24)"
    "v mod 2 ^ 104 = v mod 2 ^ 80 + 2 ^ 80 * (v div 2 ^ 80 mod 2 ^ 24)"
    "v mod 2 ^ 128 = v mod 2 ^ 104 + 2 ^ 104 * (v div 2 ^ 104 mod 2 ^ 24)"
    "v mod 2 ^ 160 = v mod 2 ^ 128 + 2 ^ 128 * (v div 2 ^ 128 mod 2 ^ 32)"
    "v mod 2 ^ 184 = v mod 2 ^ 160 + 2 ^ 160 * (v div 2 ^ 160 mod 2 ^ 24)"
    "v mod 2 ^ 208 = v mod 2 ^ 184 + 2 ^ 184 * (v div 2 ^ 184 mod 2 ^ 24)"
    "v mod 2 ^ 232 = v mod 2 ^ 208 + 2 ^ 208 * (v div 2 ^ 208 mod 2 ^ 24)"
    "v mod 2 ^ 255 = v mod 2 ^ 232 + 2 ^ 232 * (v div 2 ^ 232 mod 2 ^ 23)"
    by (rule mod_split_at, simp)+
  have "v mod 2 ^ 255 = v mod 2 ^ 32 + 2 ^ 32 * (v div 2 ^ 32 mod 2 ^ 24) +
    2 ^ 56 * (v div 2 ^ 56 mod 2 ^ 24) + 2 ^ 80 * (v div 2 ^ 80 mod 2 ^ 24) +
    2 ^ 104 * (v div 2 ^ 104 mod 2 ^ 24) + 2 ^ 128 * (v div 2 ^ 128 mod 2 ^ 32) +
    2 ^ 160 * (v div 2 ^ 160 mod 2 ^ 24) + 2 ^ 184 * (v div 2 ^ 184 mod 2 ^ 24) +
    2 ^ 208 * (v div 2 ^ 208 mod 2 ^ 24) + 2 ^ 232 * (v div 2 ^ 232 mod 2 ^ 23)"
    by (simp only: m)
  then show ?thesis
    unfolding fe_frombytes_ints_def limb_value_list10 by algebra
qed

definition fe_frombytes_result :: "ivl list" where
  "fe_frombytes_result =
    [(- 33554432, 33554431), (- 16777216, 16777279), (- 33554432, 33554431),
     (- 16777216, 16777223), (- 33554432, 33554431), (- 16777216, 16777216),
     (- 33554432, 33554431), (- 16777216, 16777247), (- 33554432, 33554431),
     (- 16777216, 16777219)]"

interpretation fe_frombytes_carry: limb_program "TYPE(64)" fe_weight fe_p fe_frombytes_carries
  fe_frombytes_ivls fe_frombytes_result
proof unfold_locales
  show "list_all (step_ok fe_weight fe_p (length fe_frombytes_ivls)) fe_frombytes_carries"
    by (simp add: fe_frombytes_carries_def fe_frombytes_ivls_def fe_weight_def fe_exp_def
        fe_p_def)
  have "run_i 64 fe_frombytes_carries fe_frombytes_ivls = Some fe_frombytes_result" by code_simp
  then show "run_i LENGTH(64) fe_frombytes_carries fe_frombytes_ivls = Some fe_frombytes_result"
    by simp
qed

lemma fe_frombytes_tight:
  "ivls_within 33889976 16944988 fe_frombytes_result" "list_all (fits_ivl 32) fe_frombytes_result"
  by (simp_all add: fe_frombytes_result_def fits_ivl_def fits_def ivls_within_def all_less_10)

lemma fe_frombytes_correct:
  assumes "length s = 32"
  shows "fe_val (fe_frombytes s) mod fe_p = (le_value s mod 2 ^ 255) mod fe_p"
    and "fe_within 33889976 16944988 (fe_frombytes s)"
proof -
  let ?L = "fe_frombytes_ints (le_value s)"
  have s: "map sint (fe_frombytes_limbs s) = ?L"
    unfolding fe_frombytes_limbs_words [OF assms]
    by (rule ints_sint [OF fe_frombytes_ints_ivls])
      (simp add: fe_frombytes_ivls_def fits_ivl_def fits_def)
  have i: "in_ivls (map sint (fe_frombytes_limbs s)) fe_frombytes_ivls"
    unfolding s by (rule fe_frombytes_ints_ivls)
  note b = fe_frombytes_carry.bounded [OF i]
  note n = narrow_sint [OF b fe_frombytes_tight(2)]
  show "fe_val (fe_frombytes s) mod fe_p = (le_value s mod 2 ^ 255) mod fe_p"
    unfolding fe_frombytes_def fe_val_def n fe_frombytes_carry.keeps_value [OF i]
    unfolding s fe_frombytes_ints_value ..
  show "fe_within 33889976 16944988 (fe_frombytes s)"
    unfolding fe_frombytes_def
    by (rule fe_within_ivls [OF _ fe_frombytes_tight(1)]) (simp only: n b)
qed

section \<open>fe_tobytes\<close>

lemma div_abs_le: "\<bar>x\<bar> \<le> k * m \<Longrightarrow> 0 < m \<Longrightarrow> \<bar>x div m\<bar> \<le> (k :: int)"
  using zdiv_mono1 [of x "k * m" m] zdiv_mono1 [of "(- k) * m" x m]
    nonzero_mult_div_cancel_right [of m "- k"]
  by (simp add: abs_le_iff del: mult_minus_left)

text \<open>One shift of the quotient estimate, composed with those before it.\<close>

lemma tobytes_shift:
  fixes h q :: i32
  assumes "sint q = x div 2 ^ n \<and> \<bar>sint q\<bar> \<le> 30" "\<bar>sint h\<bar> \<le> 73819750" "b = 25 \<or> b = 26"
  shows "sint (signed_drop_bit b (h + q)) = (x + 2 ^ n * sint h) div 2 ^ (n + b) \<and>
    \<bar>sint (signed_drop_bit b (h + q))\<bar> \<le> 30"
proof -
  have q: "\<bar>sint q\<bar> \<le> 30" using assms(1) by (rule conjunct2)
  then have "fits 32 (sint h + sint q)" using assms(2) by (intro fits_abs) simp
  then have "sint (h + q) = sint h + sint q" using sint_add [where 'a=32, of h q] by simp
  then have e: "sint (signed_drop_bit b (h + q)) = (sint h + sint q) div 2 ^ b"
    by (simp add: sint_shift_right)
  have "\<bar>(sint h + sint q) div 2 ^ b\<bar> \<le> 30"
    using q assms(2,3) by (intro div_abs_le) auto
  moreover have "(sint h + sint q) div 2 ^ b = (x + 2 ^ n * sint h) div 2 ^ (n + b)"
    using assms(1) div_chain [of "2 ^ n" "2 ^ b" "sint h" x] by (simp add: power_add)
  ultimately show ?thesis using e by simp
qed

lemma tobytes_first:
  assumes "\<bar>sint (h9 :: i32)\<bar> \<le> 36909875"
  shows "sint (signed_drop_bit 25 (19 * h9 + push_bit 24 1)) =
      ((19 * sint h9 + 2 ^ 24) div 2 ^ 25) div 2 ^ 0 \<and>
    \<bar>sint (signed_drop_bit 25 (19 * h9 + push_bit 24 1))\<bar> \<le> 30"
proof -
  have "fits 32 (19 * sint h9 + 2 ^ 24)" using assms by (intro fits_abs) simp
  then have "sint (19 * h9 + push_bit 24 1) = 19 * sint h9 + 2 ^ 24"
    using sint_of_int_32 [of "19 * sint h9 + 2 ^ 24"] by (simp add: push_bit_eq_mult)
  moreover have "\<bar>(19 * sint h9 + 2 ^ 24) div 2 ^ 25\<bar> \<le> 30"
    using assms by (intro div_abs_le) auto
  ultimately show ?thesis by (simp only: sint_shift_right power_0 div_by_1)
qed

lemma fe_tobytes_q_nested:
  assumes "fe_within 73819750 36909875 h"
  shows "sint (fe_tobytes_q h) =
      (fe_val h + (19 * sint (h ! 9) + 2 ^ 24) div 2 ^ 25) div 2 ^ 255 \<and>
    \<bar>sint (fe_tobytes_q h)\<bar> \<le> 30"
proof -
  have b: "\<bar>sint (h ! i)\<bar> \<le> 73819750" if "i < 10" for i
    using fe_withinD(2,3) [OF assms that] by (cases "even i") fastforce+
  have h9: "\<bar>sint (h ! 9)\<bar> \<le> 36909875" using fe_withinD(3) [OF assms, of 9] by simp
  note c = tobytes_shift [OF _ b]
  note r = c [OF c [OF c [OF c [OF c [OF c [OF c [OF c [OF c [OF c [OF tobytes_first [OF h9],
      of 0 26], of 1 25], of 2 26], of 3 25], of 4 26], of 5 25], of 6 26], of 7 25],
      of 8 26], of 9 25]
  let ?q0 = "(19 * sint (h ! 9) + 2 ^ 24) div 2 ^ 25"
  have e: "fe_val h + ?q0 =
    ?q0 + 2 ^ 0 * sint (h ! 0) + 2 ^ (0 + 26) * sint (h ! 1) + 2 ^ (0 + 26 + 25) * sint (h !
      2) + 2 ^ (0 + 26 + 25 + 26) * sint (h ! 3) + 2 ^ (0 + 26 + 25 + 26 + 25) * sint (h ! 4) +
      2 ^ (0 + 26 + 25 + 26 + 25 + 26) * sint (h ! 5) + 2 ^ (0 + 26 + 25 + 26 + 25 + 26 + 25) *
      sint (h ! 6) + 2 ^ (0 + 26 + 25 + 26 + 25 + 26 + 25 + 26) * sint (h ! 7) + 2 ^ (0 + 26 +
      25 + 26 + 25 + 26 + 25 + 26 + 25) * sint (h ! 8) + 2 ^ (0 + 26 + 25 + 26 + 25 + 26 + 25 +
      26 + 25 + 26) * sint (h ! 9)"
    using fe_withinD(1) [OF assms] unfolding fe_val_def by (subst limb_value_10) simp_all
  have n: "(255 :: nat) = 0 + 26 + 25 + 26 + 25 + 26 + 25 + 26 + 25 + 26 + 25" by simp
  show ?thesis unfolding e fe_tobytes_q_def Let_def by (subst n) (rule r; simp)
qed

text \<open>The estimate is the exact quotient by 2^255-19.\<close>

lemma quotient_estimate:
  fixes H h9 L :: int
  assumes H: "H = 2 ^ 230 * h9 + L" and L: "\<bar>L\<bar> \<le> 2 ^ 231"
    and h9: "\<bar>h9\<bar> \<le> 36909875"
  shows "(H + (19 * h9 + 2 ^ 24) div 2 ^ 25) div 2 ^ 255 = H div fe_p"
proof -
  define k r q s where "k = H div fe_p" and "r = H mod fe_p"
    and "q = (19 * h9 + 2 ^ 24) div 2 ^ 25" and "s = (19 * h9 + 2 ^ 24) mod 2 ^ 25"
  have k: "H = k * (2 ^ 255 - 19) + r"
    using div_mult_mod_eq [of H fe_p] by (simp add: k_def r_def fe_p_def)
  have r: "0 \<le> r" "r < 2 ^ 255 - 19"
    using pos_mod_sign [of fe_p H] pos_mod_bound [of fe_p H] by (simp_all add: r_def fe_p_def)
  have q: "q * 2 ^ 25 + s = 19 * h9 + 2 ^ 24"
    unfolding q_def s_def by (rule div_mult_mod_eq)
  have s: "0 \<le> s" "s < 2 ^ 25" by (simp_all add: s_def)
  have "0 \<le> r - 19 * k + q" using k r q s L h9 unfolding H by (simp add: abs_le_iff)
  moreover have "r - 19 * k + q < 2 ^ 255"
    using k r q s L h9 unfolding H by (simp add: abs_le_iff)
  moreover have "H + q = r - 19 * k + q + k * 2 ^ 255" using k by simp
  ultimately have "(H + q) div 2 ^ 255 = k"
    by (simp only: div_mult_self1 div_pos_pos_trivial)
  then show ?thesis by (simp add: k_def q_def)
qed

lemma fe_val_high:
  assumes "fe_within 73819750 36909875 h"
  shows "\<bar>fe_val h - 2 ^ 230 * sint (h ! 9)\<bar> \<le> 2 ^ 231"
proof -
  have b: "\<bar>sint (h ! i)\<bar> \<le> 73819750" if "i < 10" for i
    using fe_withinD(2,3) [OF assms that] by (cases "even i") fastforce+
  show ?thesis
    using b [of 0] b [of 1] b [of 2] b [of 3] b [of 4] b [of 5] b [of 6] b [of 7] b [of 8]
      fe_withinD(1) [OF assms]
    by (simp add: fe_val_sum sum_less_10 fe_weight_def fe_exp_def abs_le_iff)
qed

lemma fe_tobytes_q_exact:
  assumes "fe_within 73819750 36909875 h"
  shows "sint (fe_tobytes_q h) = fe_val h div fe_p"
proof -
  have "\<bar>sint (h ! 9)\<bar> \<le> 36909875" using fe_withinD(3) [OF assms, of 9] by simp
  then show ?thesis
    using fe_tobytes_q_nested [OF assms] fe_val_high [OF assms]
      quotient_estimate [of "fe_val h" "sint (h ! 9)" "fe_val h - 2 ^ 230 * sint (h ! 9)"]
    by simp
qed

text \<open>The bits of a limb, cut where its bytes begin.\<close>

lemma nested_parts:
  "x = A * y + r \<Longrightarrow> y = 256 * z + s \<Longrightarrow> z = 256 * u + t \<Longrightarrow> B = A * 256 \<Longrightarrow> C = A * 65536 \<Longrightarrow>
    x = r + A * s + B * t + C * (u :: int)"
  by (simp add: algebra_simps)

lemma limb_bits:
  fixes x :: int
  assumes "l = k + 8" "m = k + 16"
  shows "x = x mod 2 ^ k + 2 ^ k * (x div 2 ^ k mod 256) + 2 ^ l * (x div 2 ^ l mod 256) +
    2 ^ m * (x div 2 ^ m)"
proof -
  have d: "x div 2 ^ l = x div 2 ^ k div 256" "x div 2 ^ m = x div 2 ^ k div 256 div 256"
    using assms zdiv_zmult2_eq [of "2 ^ 8" x "2 ^ k"] zdiv_zmult2_eq [of "2 ^ 16" x "2 ^ k"]
      zdiv_zmult2_eq [of 256 "x div 2 ^ k" 256] by (simp_all add: power_add)
  have "x = 2 ^ k * (x div 2 ^ k) + x mod 2 ^ k" by simp
  moreover have "x div 2 ^ k = 256 * (x div 2 ^ k div 256) + x div 2 ^ k mod 256" by simp
  moreover have "x div 2 ^ k div 256 =
      256 * (x div 2 ^ k div 256 div 256) + x div 2 ^ k div 256 mod 256" by simp
  moreover have "(2 :: int) ^ l = 2 ^ k * 256" "(2 :: int) ^ m = 2 ^ k * 65536"
    using assms by (simp_all add: power_add)
  ultimately show ?thesis unfolding d by (rule nested_parts)
qed

lemma shared_byte:
  assumes "0 \<le> sint lo" "sint lo < 2 ^ (k + j)" "j \<le> 8"
  shows "uint (ucast (signed_drop_bit k lo OR push_bit j (hi :: i32)) :: u8) =
    sint lo div 2 ^ k + 2 ^ j * (sint hi mod 2 ^ (8 - j))"
proof -
  have e: "(2 :: int) ^ j * 2 ^ (8 - j) = 256"
    using assms(3) by (simp flip: power_add)
  have "uint (ucast (signed_drop_bit k lo OR push_bit j hi) :: u8) =
      (sint lo div 2 ^ k + 2 ^ j * sint hi) mod 256"
    using assms by (intro byte_shared) simp_all
  also have "\<dots> = sint lo div 2 ^ k + 2 ^ j * (sint hi mod 2 ^ (8 - j))"
    using assms e by (intro mod_shared div_less_power) (simp_all add: pos_imp_zdiv_nonneg_iff)
  finally show ?thesis .
qed

lemma whole_byte: "uint (ucast (signed_drop_bit k (h :: i32)) :: u8) = sint h div 2 ^ k mod 256"
  by (simp add: byte_of_limb sint_shift_right)

definition fe_canonical_ivls :: "ivl list" where
  "fe_canonical_ivls =
    [(0, 67108863), (0, 33554431), (0, 67108863), (0, 33554431), (0, 67108863),
     (0, 33554431), (0, 67108863), (0, 33554431), (0, 67108863), (0, 33554431)]"

lemma fe_canonicalD:
  assumes "in_ivls (map sint h) fe_canonical_ivls"
  shows "length h = 10" and "i < 10 \<Longrightarrow> 0 \<le> sint (h ! i)"
    and "i < 10 \<Longrightarrow> sint (h ! i) < 2 ^ (if even i then 26 else 25)"
proof -
  show l: "length h = 10" using assms by (simp add: in_ivls_def fe_canonical_ivls_def)
  have "\<forall>i<10. in_ivl (sint (h ! i)) (fe_canonical_ivls ! i)"
    using assms l by (simp add: in_ivls_def fe_canonical_ivls_def)
  moreover have "\<forall>i<10. fe_canonical_ivls ! i = (0, 2 ^ (if even i then 26 else 25) - 1)"
    by (simp add: fe_canonical_ivls_def all_less_10)
  ultimately have "i < 10 \<Longrightarrow> in_ivl (sint (h ! i)) (0, 2 ^ (if even i then 26 else 25) - 1)"
    by metis
  then show "i < 10 \<Longrightarrow> 0 \<le> sint (h ! i)"
    "i < 10 \<Longrightarrow> sint (h ! i) < 2 ^ (if even i then 26 else 25)"
    by (simp_all add: in_ivl_def)
qed

lemma fe_store_bytes_value:
  assumes h: "in_ivls (map sint h) fe_canonical_ivls"
  shows "le_value (fe_store_bytes h) = fe_val h"
proof -
  note c = fe_canonicalD [OF h]
  have s0: "uint (ucast (signed_drop_bit 24 (h ! 0) OR push_bit 2 (h ! 1)) :: u8) =
    sint (h ! 0) div 2 ^ 24 + 2 ^ 2 * (sint (h ! 1) mod 2 ^ 6)"
    using shared_byte [of "h ! 0" 24 2 "h ! 1"] c(2,3) [of 0] by simp
  have s1: "uint (ucast (signed_drop_bit 22 (h ! 1) OR push_bit 3 (h ! 2)) :: u8) =
    sint (h ! 1) div 2 ^ 22 + 2 ^ 3 * (sint (h ! 2) mod 2 ^ 5)"
    using shared_byte [of "h ! 1" 22 3 "h ! 2"] c(2,3) [of 1] by simp
  have s2: "uint (ucast (signed_drop_bit 21 (h ! 2) OR push_bit 5 (h ! 3)) :: u8) =
    sint (h ! 2) div 2 ^ 21 + 2 ^ 5 * (sint (h ! 3) mod 2 ^ 3)"
    using shared_byte [of "h ! 2" 21 5 "h ! 3"] c(2,3) [of 2] by simp
  have s3: "uint (ucast (signed_drop_bit 19 (h ! 3) OR push_bit 6 (h ! 4)) :: u8) =
    sint (h ! 3) div 2 ^ 19 + 2 ^ 6 * (sint (h ! 4) mod 2 ^ 2)"
    using shared_byte [of "h ! 3" 19 6 "h ! 4"] c(2,3) [of 3] by simp
  have s5: "uint (ucast (signed_drop_bit 24 (h ! 5) OR push_bit 1 (h ! 6)) :: u8) =
    sint (h ! 5) div 2 ^ 24 + 2 ^ 1 * (sint (h ! 6) mod 2 ^ 7)"
    using shared_byte [of "h ! 5" 24 1 "h ! 6"] c(2,3) [of 5] by simp
  have s6: "uint (ucast (signed_drop_bit 23 (h ! 6) OR push_bit 3 (h ! 7)) :: u8) =
    sint (h ! 6) div 2 ^ 23 + 2 ^ 3 * (sint (h ! 7) mod 2 ^ 5)"
    using shared_byte [of "h ! 6" 23 3 "h ! 7"] c(2,3) [of 6] by simp
  have s7: "uint (ucast (signed_drop_bit 21 (h ! 7) OR push_bit 4 (h ! 8)) :: u8) =
    sint (h ! 7) div 2 ^ 21 + 2 ^ 4 * (sint (h ! 8) mod 2 ^ 4)"
    using shared_byte [of "h ! 7" 21 4 "h ! 8"] c(2,3) [of 7] by simp
  have s8: "uint (ucast (signed_drop_bit 20 (h ! 8) OR push_bit 6 (h ! 9)) :: u8) =
    sint (h ! 8) div 2 ^ 20 + 2 ^ 6 * (sint (h ! 9) mod 2 ^ 2)"
    using shared_byte [of "h ! 8" 20 6 "h ! 9"] c(2,3) [of 8] by simp
  have b0: "sint (h ! 0) = sint (h ! 0) mod 2 ^ 8 + 2 ^ 8 * (sint (h ! 0) div 2 ^ 8 mod 256) +
    2 ^ 16 * (sint (h ! 0) div 2 ^ 16 mod 256) + 2 ^ 24 * (sint (h ! 0) div 2 ^ 24)"
    by (rule limb_bits [where k = 8]) simp_all
  have b1: "sint (h ! 1) = sint (h ! 1) mod 2 ^ 6 + 2 ^ 6 * (sint (h ! 1) div 2 ^ 6 mod 256) +
    2 ^ 14 * (sint (h ! 1) div 2 ^ 14 mod 256) + 2 ^ 22 * (sint (h ! 1) div 2 ^ 22)"
    by (rule limb_bits [where k = 6]) simp_all
  have b2: "sint (h ! 2) = sint (h ! 2) mod 2 ^ 5 + 2 ^ 5 * (sint (h ! 2) div 2 ^ 5 mod 256) +
    2 ^ 13 * (sint (h ! 2) div 2 ^ 13 mod 256) + 2 ^ 21 * (sint (h ! 2) div 2 ^ 21)"
    by (rule limb_bits [where k = 5]) simp_all
  have b3: "sint (h ! 3) = sint (h ! 3) mod 2 ^ 3 + 2 ^ 3 * (sint (h ! 3) div 2 ^ 3 mod 256) +
    2 ^ 11 * (sint (h ! 3) div 2 ^ 11 mod 256) + 2 ^ 19 * (sint (h ! 3) div 2 ^ 19)"
    by (rule limb_bits [where k = 3]) simp_all
  have b4: "sint (h ! 4) = sint (h ! 4) mod 2 ^ 2 + 2 ^ 2 * (sint (h ! 4) div 2 ^ 2 mod 256) +
    2 ^ 10 * (sint (h ! 4) div 2 ^ 10 mod 256) + 2 ^ 18 * (sint (h ! 4) div 2 ^ 18)"
    by (rule limb_bits [where k = 2]) simp_all
  have b5: "sint (h ! 5) = sint (h ! 5) mod 2 ^ 8 + 2 ^ 8 * (sint (h ! 5) div 2 ^ 8 mod 256) +
    2 ^ 16 * (sint (h ! 5) div 2 ^ 16 mod 256) + 2 ^ 24 * (sint (h ! 5) div 2 ^ 24)"
    by (rule limb_bits [where k = 8]) simp_all
  have b6: "sint (h ! 6) = sint (h ! 6) mod 2 ^ 7 + 2 ^ 7 * (sint (h ! 6) div 2 ^ 7 mod 256) +
    2 ^ 15 * (sint (h ! 6) div 2 ^ 15 mod 256) + 2 ^ 23 * (sint (h ! 6) div 2 ^ 23)"
    by (rule limb_bits [where k = 7]) simp_all
  have b7: "sint (h ! 7) = sint (h ! 7) mod 2 ^ 5 + 2 ^ 5 * (sint (h ! 7) div 2 ^ 5 mod 256) +
    2 ^ 13 * (sint (h ! 7) div 2 ^ 13 mod 256) + 2 ^ 21 * (sint (h ! 7) div 2 ^ 21)"
    by (rule limb_bits [where k = 5]) simp_all
  have b8: "sint (h ! 8) = sint (h ! 8) mod 2 ^ 4 + 2 ^ 4 * (sint (h ! 8) div 2 ^ 4 mod 256) +
    2 ^ 12 * (sint (h ! 8) div 2 ^ 12 mod 256) + 2 ^ 20 * (sint (h ! 8) div 2 ^ 20)"
    by (rule limb_bits [where k = 4]) simp_all
  have b9: "sint (h ! 9) = sint (h ! 9) mod 2 ^ 2 + 2 ^ 2 * (sint (h ! 9) div 2 ^ 2 mod 256) +
    2 ^ 10 * (sint (h ! 9) div 2 ^ 10 mod 256) + 2 ^ 18 * (sint (h ! 9) div 2 ^ 18)"
    by (rule limb_bits [where k = 2]) simp_all
  have t: "sint (h ! 4) div 2 ^ 18 mod 256 = sint (h ! 4) div 2 ^ 18"
    "sint (h ! 9) div 2 ^ 18 mod 256 = sint (h ! 9) div 2 ^ 18"
    using c(2,3) [of 4] c(2,3) [of 9] by (intro mod_pos_pos_trivial; simp)+
  have z: "sint x div 2 ^ 0 mod 256 = sint x mod 2 ^ 8" for x :: i32 by simp
  have "le_value (fe_store_bytes h) = limb_value fe_weight (map sint
      [h ! 0, h ! 1, h ! 2, h ! 3, h ! 4, h ! 5, h ! 6, h ! 7, h ! 8, h ! 9])"
    unfolding fe_store_bytes_def list.map limb_value_list10 le_value.simps whole_byte
      s0 s1 s2 s3 s5 s6 s7 s8 t z
    using b0 b1 b2 b3 b4 b5 b6 b7 b8 b9 by algebra
  then show ?thesis by (simp only: fe_val_def list10 [OF c(1), symmetric])
qed


text \<open>The carries of fe_tobytes.c after \<open>h0 += 19 * q\<close>: the last one drops 2^255.\<close>

definition fe_tobytes_ivls :: "ivl list" where
  "fe_tobytes_ivls =
    [(-73820320, 73820320), (-36909875, 36909875), (-73819750, 73819750),
     (-36909875, 36909875), (-73819750, 73819750), (-36909875, 36909875),
     (-73819750, 73819750), (-36909875, 36909875), (-73819750, 73819750),
     (-36909875, 36909875)]"

interpretation fe_tobytes_carry: limb_program "TYPE(32)" fe_weight "2 ^ 255" fe_tobytes_carries
  fe_tobytes_ivls fe_canonical_ivls
proof unfold_locales
  show "list_all (step_ok fe_weight (2 ^ 255) (length fe_tobytes_ivls)) fe_tobytes_carries"
    by (simp add: fe_tobytes_carries_def fe_tobytes_ivls_def fe_weight_def fe_exp_def)
  have "run_i 32 fe_tobytes_carries fe_tobytes_ivls = Some fe_canonical_ivls" by code_simp
  then show "run_i LENGTH(32) fe_tobytes_carries fe_tobytes_ivls = Some fe_canonical_ivls" by simp
qed

lemma fe_canonical_bounds:
  assumes "in_ivls (map sint h) fe_canonical_ivls"
  shows "0 \<le> fe_val h" "fe_val h < 2 ^ 255"
proof -
  have "le_value (fe_store_bytes h) = fe_val h" by (rule fe_store_bytes_value [OF assms])
  then show "0 \<le> fe_val h" using le_value_nonneg [of "fe_store_bytes h"] by simp
  note c = fe_canonicalD [OF assms]
  show "fe_val h < 2 ^ 255"
    using c(3) [of 0] c(3) [of 1] c(3) [of 2] c(3) [of 3] c(3) [of 4] c(3) [of 5] c(3) [of 6]
      c(3) [of 7] c(3) [of 8] c(3) [of 9]
    by (simp add: fe_val_sum [OF c(1)] sum_less_10 fe_weight_def fe_exp_def)
qed

lemma fe_tobytes_start:
  assumes h: "fe_within 73819750 36909875 h"
  defines "g \<equiv> h[0 := h ! 0 + 19 * fe_tobytes_q h]"
  shows "fe_val g = fe_val h + 19 * (fe_val h div fe_p)"
    and "in_ivls (map sint g) fe_tobytes_ivls"
proof -
  note w = fe_withinD [OF h]
  have q: "sint (fe_tobytes_q h) = fe_val h div fe_p" "\<bar>sint (fe_tobytes_q h)\<bar> \<le> 30"
    using fe_tobytes_q_exact [OF h] fe_tobytes_q_nested [OF h] by auto
  have "fits 32 (19 * sint (fe_tobytes_q h))" using q(2) by (intro fits_abs) simp
  then have q19: "sint (19 * fe_tobytes_q h) = 19 * sint (fe_tobytes_q h)"
    using sint_of_int_32 [of "19 * sint (fe_tobytes_q h)"] by simp
  have "fits 32 (sint (h ! 0) + sint (19 * fe_tobytes_q h))"
    using w(2) [of 0] q(2) unfolding q19 by (intro fits_abs) simp
  then have g0: "sint (h ! 0 + 19 * fe_tobytes_q h) = sint (h ! 0) + 19 * sint (fe_tobytes_q h)"
    using sint_add [where 'a=32, of "h ! 0"] q19 by simp
  then have m: "map sint g = (map sint h)[0 := sint (h ! 0) + 19 * sint (fe_tobytes_q h)]"
    by (simp add: g_def map_update)
  show "fe_val g = fe_val h + 19 * (fe_val h div fe_p)"
    unfolding fe_val_def m using w(1) q(1)
    by (subst limb_value_update) (simp_all add: fe_weight_def fe_exp_def fe_val_def)
  show "in_ivls (map sint g) fe_tobytes_ivls"
    unfolding m using w(1) w(2) [of 0] w(3) [of 1] w(2) [of 2] w(3) [of 3] w(2) [of 4]
      w(3) [of 5] w(2) [of 6] w(3) [of 7] w(2) [of 8] w(3) [of 9] q(2)
    by (simp add: in_ivls_def in_ivl_def fe_tobytes_ivls_def all_less_10 abs_le_iff)
qed

lemma fe_tobytes_correct:
  assumes h: "fe_within 73819750 36909875 h"
  shows "le_value (fe_tobytes h) = fe_val h mod fe_p" and "length (fe_tobytes h) = 32"
proof -
  let ?g = "h[0 := h ! 0 + 19 * fe_tobytes_q h]"
  note s = fe_tobytes_start [OF h]
  note b = fe_tobytes_carry.bounded [OF s(2)]
  have "fe_val (run_w fe_tobytes_carries ?g) mod 2 ^ 255 = fe_val ?g mod 2 ^ 255"
    unfolding fe_val_def by (rule fe_tobytes_carry.keeps_value [OF s(2)])
  then have "fe_val (run_w fe_tobytes_carries ?g) = fe_val ?g mod 2 ^ 255"
    using fe_canonical_bounds [OF b] by (simp add: mod_pos_pos_trivial)
  also have "\<dots> = fe_val h mod fe_p"
  proof -
    have "fe_val ?g = fe_val h mod fe_p + 2 ^ 255 * (fe_val h div fe_p)"
      using s(1) mult_div_mod_eq [of fe_p "fe_val h"] by (simp add: fe_p_def)
    moreover have "0 \<le> fe_val h mod fe_p" "fe_val h mod fe_p < 2 ^ 255"
      using pos_mod_bound [of fe_p "fe_val h"] by (simp_all add: fe_p_def)
    ultimately show ?thesis by (simp only: mod_mult_self2 mod_pos_pos_trivial)
  qed
  finally show "le_value (fe_tobytes h) = fe_val h mod fe_p"
    by (simp only: fe_tobytes_def Let_def fe_store_bytes_value [OF b])
  show "length (fe_tobytes h) = 32" by (simp add: fe_tobytes_def fe_store_bytes_def Let_def)
qed

section \<open>Comparisons\<close>

lemma foldl_or_zero: "foldl (\<lambda>d i. d OR f i) d is = (0 :: 'a::len word) \<longleftrightarrow> d = 0 \<and> (\<forall>i\<in>set is. f i = 0)"
  by (induction "is" arbitrary: d) (auto simp: or_eq_0_iff)

lemma xor_zero_iff: "x XOR y = 0 \<longleftrightarrow> x = (y :: 'a::len word)"
proof
  assume "x XOR y = 0"
  then have "(x XOR y) XOR y = y" by simp
  then show "x = y" by (simp add: xor.assoc)
qed simp

lemma foldl_or_ucast:
  "foldl (\<lambda>d i. d OR ucast (f i)) (ucast d) is = (ucast (foldl (\<lambda>d i. d OR f i) (d :: u8) is) :: i32)"
  by (induction "is" arbitrary: d) (simp_all flip: unsigned_or_eq)

lemma fold_bits_sign:
  fixes b :: u8
  shows "(1 AND drop_bit 8 (ucast b - 1 :: i32)) - 1 = (if b = 0 then 0 else - 1)"
proof (cases "b = 0")
  case False
  then have "uint b \<noteq> 0" by (simp add: word_uint_eq_iff)
  then have b: "1 \<le> uint b" using uint_ge_0 [of b] by linarith
  have "uint b < 256" using uint_lt2p [of b] by simp
  moreover have "uint (ucast b - 1 :: i32) = uint b - 1"
    using b calculation by (simp add: uint_word_ariths unsigned_ucast_eq take_bit_int_eq_self
        mod_pos_pos_trivial)
  ultimately have "uint (drop_bit 8 (ucast b - 1 :: i32)) = 0"
    using b by (subst unsigned_drop_bit_eq) (simp add: drop_bit_eq_div take_bit_int_eq_self div_pos_pos_trivial)
  then have "drop_bit 8 (ucast b - 1 :: i32) = 0" by (simp add: word_uint_eq_iff)
  with False show ?thesis by simp
next
  case True
  have "(1 AND drop_bit 8 (0 - 1 :: i32)) - 1 = 0" by code_simp
  with True show ?thesis by simp
qed

lemma crypto_verify_32_correct:
  assumes "length x = 32" "length y = 32"
  shows "crypto_verify_32 x y = (if x = y then 0 else - 1)"
proof -
  have "crypto_verify_32 x y =
    (if foldl (\<lambda>d i. d OR (x ! i XOR y ! i)) (0 :: u8) [0..<32] = 0 then 0 else - 1)"
    unfolding crypto_verify_32_def Let_def
    using foldl_or_ucast [of "\<lambda>i. x ! i XOR y ! i" 0 "[0..<32]"] fold_bits_sign by simp
  also have "foldl (\<lambda>d i. d OR (x ! i XOR y ! i)) (0 :: u8) [0..<32] = 0 \<longleftrightarrow>
      (\<forall>i<32. x ! i = y ! i)"
    unfolding foldl_or_zero xor_zero_iff by auto
  finally show ?thesis using assms by (auto simp: list_eq_iff_nth_eq)
qed

lemma le_value_zeros [simp]: "le_value (replicate n 0) = 0"
  by (induction n) auto

lemma fe_isnonzero_correct:
  assumes "fe_within 73819750 36909875 f"
  shows "fe_isnonzero f = (if fe_val f mod fe_p = 0 then 0 else - 1)"
proof -
  note t = fe_tobytes_correct [OF assms]
  have "fe_tobytes f = replicate 32 0 \<longleftrightarrow> fe_val f mod fe_p = 0"
    using t le_value_inj [of "fe_tobytes f" "replicate 32 0"] by auto
  then show ?thesis
    unfolding fe_isnonzero_def by (subst crypto_verify_32_correct) (simp_all add: t)
qed

lemma le_value_odd: "s \<noteq> [] \<Longrightarrow> le_value s mod 2 = uint (s ! 0) mod 2"
  by (cases s) (auto simp: mod_add_right_eq [symmetric] mod_mult_left_eq)

lemma fe_isnegative_correct:
  assumes "fe_within 73819750 36909875 f"
  shows "sint (fe_isnegative f) = (fe_val f mod fe_p) mod 2"
proof -
  note t = fe_tobytes_correct [OF assms]
  have "fe_tobytes f \<noteq> []" using t(2) by auto
  then have v: "(fe_val f mod fe_p) mod 2 = uint (fe_tobytes f ! 0) mod 2"
    using t(1) le_value_odd by metis
  have "uint (b AND 1) = uint b mod 2" for b :: u8
    by (subst uint_and) (simp add: and_one_eq)
  moreover have "sint (ucast (c :: u8) :: i32) = uint c" for c
  proof -
    have "fits 32 (uint c)" using uint_lt2p [of c] uint_ge_0 [of c] by (intro fits_abs) simp
    then show ?thesis unfolding ucast_eq by (rule sint_of_int_32)
  qed
  ultimately show ?thesis by (simp add: fe_isnegative_def Let_def v)
qed

text \<open>Decoding an encoding.\<close>

lemma fe_frombytes_tobytes:
  assumes "fe_within 73819750 36909875 f"
  shows "fe_val (fe_frombytes (fe_tobytes f)) mod fe_p = fe_val f mod fe_p"
proof -
  note t = fe_tobytes_correct [OF assms]
  have "0 \<le> fe_val f mod fe_p" "fe_val f mod fe_p < 2 ^ 255"
    using pos_mod_bound [of fe_p "fe_val f"] by (simp_all add: fe_p_def)
  then have "fe_val f mod fe_p mod 2 ^ 255 = fe_val f mod fe_p" by (rule mod_pos_pos_trivial)
  then show ?thesis using fe_frombytes_correct(1) [OF t(2)] by (simp add: t(1))
qed

lemma fe_tobytes_eq_iff:
  assumes "fe_within 73819750 36909875 f" "fe_within 73819750 36909875 g"
  shows "fe_tobytes f = fe_tobytes g \<longleftrightarrow> fe_val f mod fe_p = fe_val g mod fe_p"
  using fe_tobytes_correct [OF assms(1)] fe_tobytes_correct [OF assms(2)] le_value_inj by metis

section \<open>Properties\<close>

text \<open>C30: fe_tobytes.c writes the canonical residue of its argument as 32 little-endian bytes.\<close>

theorem fe_tobytes_canonical:
  assumes "fe_within 73819750 36909875 h"
  shows "length (fe_tobytes h) = 32 \<and> le_value (fe_tobytes h) = fe_val h mod fe_p"
  using fe_tobytes_correct [OF assms] by simp

theorem fe_tobytes_canonical_witness:
  "le_value (fe_tobytes [- 19, 0, 0, 0, 0, 0, 0, 0, 0, 33554432]) =
    fe_val [- 19, 0, 0, 0, 0, 0, 0, 0, 0, 33554432] mod fe_p"
proof -
  have "fe_within 73819750 36909875 [- 19, 0, 0, 0, 0, 0, 0, 0, 0, 33554432]"
    by (simp add: fe_within_def all_less_10)
  from fe_tobytes_canonical [OF this] show ?thesis by blast
qed

text \<open>C32: fe_frombytes.c reads the low 255 bits and returns reduced limbs.\<close>

theorem fe_frombytes_reads:
  assumes "length s = 32"
  shows "fe_val (fe_frombytes s) mod fe_p = (le_value s mod 2 ^ 255) mod fe_p \<and>
    fe_within 33889976 16944988 (fe_frombytes s)"
  using fe_frombytes_correct [OF assms] by simp

theorem fe_frombytes_reads_witness:
  "fe_val (fe_frombytes (replicate 32 255)) mod fe_p =
    (le_value (replicate 32 255) mod 2 ^ 255) mod fe_p"
  using fe_frombytes_reads [of "replicate 32 255"] by simp

text \<open>
  C31: reading 32 bytes and writing them again gives the canonical 32-byte string of the residue
  of the low 255 bits; that is the string itself exactly when it was canonical.
\<close>

theorem fe_bytes_roundtrip:
  assumes "length s = 32"
  shows "length (fe_tobytes (fe_frombytes s)) = 32 \<and>
    le_value (fe_tobytes (fe_frombytes s)) = (le_value s mod 2 ^ 255) mod fe_p \<and>
    (fe_tobytes (fe_frombytes s) = s \<longleftrightarrow> le_value s < fe_p)"
proof -
  have w: "fe_within 73819750 36909875 (fe_frombytes s)"
    by (rule fe_within_mono [OF fe_frombytes_correct(2) [OF assms]]) simp_all
  note t = fe_tobytes_correct [OF w]
  have v: "le_value (fe_tobytes (fe_frombytes s)) = (le_value s mod 2 ^ 255) mod fe_p"
    using t(1) fe_frombytes_correct(1) [OF assms] by simp
  have "fe_tobytes (fe_frombytes s) = s \<longleftrightarrow> le_value s < fe_p"
  proof
    assume "fe_tobytes (fe_frombytes s) = s"
    then have "le_value s = (le_value s mod 2 ^ 255) mod fe_p" using v by simp
    also have "\<dots> < fe_p" by (rule pos_mod_bound) (simp add: fe_p_def)
    finally show "le_value s < fe_p" .
  next
    assume p: "le_value s < fe_p"
    then have "le_value s < 2 ^ 255" by (simp add: fe_p_def)
    then have "le_value (fe_tobytes (fe_frombytes s)) = le_value s"
      using v p by (simp add: mod_pos_pos_trivial)
    then show "fe_tobytes (fe_frombytes s) = s" using t(2) assms by (intro le_value_inj) simp_all
  qed
  with t(2) v show ?thesis by blast
qed

theorem fe_bytes_roundtrip_witness:
  "fe_tobytes (fe_frombytes (9 # replicate 31 0)) = 9 # replicate 31 0 \<and>
    le_value (fe_tobytes (fe_frombytes (replicate 32 255))) = 18"
proof -
  have "le_value (replicate 32 255) mod 2 ^ 255 mod fe_p = 18"
    unfolding le_value_replicate_255 by (simp add: fe_p_def)
  then show ?thesis
    using fe_bytes_roundtrip [of "9 # replicate 31 0"] fe_bytes_roundtrip [of "replicate 32 255"]
    by (simp add: fe_p_def)
qed

text \<open>C33: the constant-time comparison returns 0 on equal strings and -1 otherwise.\<close>

theorem crypto_verify_32_compares:
  assumes "length x = 32" "length y = 32"
  shows "crypto_verify_32 x y = (if x = y then 0 else - 1)"
  by (rule crypto_verify_32_correct [OF assms])

theorem crypto_verify_32_compares_witness:
  "crypto_verify_32 (replicate 32 7) (replicate 31 7 @ [6]) = - 1"
  using crypto_verify_32_compares [of "replicate 32 7" "replicate 31 7 @ [6]"]
  by (simp add: numeral_eq_Suc)

text \<open>
  C34: fe_isnegative.c returns 1 when the canonical residue is odd and 0 when it is even, for all
  limbs within the bound of its comment.
\<close>

theorem fe_isnegative_parity:
  assumes "fe_within 73819750 36909875 f"
  shows "sint (fe_isnegative f) = (fe_val f mod fe_p) mod 2"
  using fe_isnegative_correct [OF assms] by simp

theorem fe_isnegative_parity_witness:
  "sint (fe_isnegative [- 1, 0, 0, 0, 0, 0, 0, 0, 0, 0]) = 0"
proof -
  have "fe_within 73819750 36909875 [- 1, 0, 0, 0, 0, 0, 0, 0, 0, 0]"
    by (simp add: fe_within_def all_less_10)
  moreover have "fe_val [- 1, 0, 0, 0, 0, 0, 0, 0, 0, 0] mod fe_p mod 2 = 0"
    by (simp add: fe_val_sum sum_less_10 fe_weight_def fe_exp_def fe_p_def)
  ultimately show ?thesis using fe_isnegative_parity by simp
qed

end
