(* ===== verification/Field_Ops.thy ===== *)
theory Field_Ops
  imports Crypto_Prelude
begin

text \<open>
  The interface between the limb arithmetic and the code above it. The two field
  implementations of the library (ten 32-bit limbs in ed25519, ten 64-bit limbs in
  curve25519-donna) offer sums and differences that do not carry, and products that do, so
  their clients must count how many sums they form before a product. The locale states that
  contract once; the point formulas, the power chains and the ladder are proved with its
  rules and the two implementations are its interpretations.
\<close>

section \<open>The contract\<close>

text \<open>
  \<open>bnd n f\<close>: the limbs of \<open>f\<close> are at most those of a sum of \<open>n\<close> products. Sums stay within
  \<open>cap\<close> such terms; a product accepts arguments within \<open>cap\<close> and returns to 1.
\<close>

locale field_ops =
  fixes val :: "'e \<Rightarrow> 'r::comm_ring_1"
    and bnd :: "nat \<Rightarrow> 'e \<Rightarrow> bool"
    and cap :: nat
    and add sub mul :: "'e \<Rightarrow> 'e \<Rightarrow> 'e"
    and sq :: "'e \<Rightarrow> 'e"
  assumes cap_pos: "1 \<le> cap"
    and bnd_mono: "bnd i f \<Longrightarrow> i \<le> j \<Longrightarrow> bnd j f"
    and add_bnd: "bnd i f \<Longrightarrow> bnd j g \<Longrightarrow> i + j \<le> cap \<Longrightarrow> bnd (i + j) (add f g)"
    and sub_bnd: "bnd i f \<Longrightarrow> bnd j g \<Longrightarrow> i + j \<le> cap \<Longrightarrow> bnd (i + j) (sub f g)"
    and mul_bnd: "bnd cap f \<Longrightarrow> bnd cap g \<Longrightarrow> bnd 1 (mul f g)"
    and sq_bnd: "bnd cap f \<Longrightarrow> bnd 1 (sq f)"
    and add_val: "bnd i f \<Longrightarrow> bnd j g \<Longrightarrow> i + j \<le> cap \<Longrightarrow>
      val (add f g) = val f + val g"
    and sub_val: "bnd i f \<Longrightarrow> bnd j g \<Longrightarrow> i + j \<le> cap \<Longrightarrow>
      val (sub f g) = val f - val g"
    and mul_val: "bnd cap f \<Longrightarrow> bnd cap g \<Longrightarrow> val (mul f g) = val f * val g"
    and sq_val: "bnd cap f \<Longrightarrow> val (sq f) = val f * val f"
begin

section \<open>A calculus of bounds and values\<close>

text \<open>\<open>rep n f v\<close>: the array \<open>f\<close>, within \<open>n\<close> terms, stands for the residue \<open>v\<close>.\<close>

definition rep :: "nat \<Rightarrow> 'e \<Rightarrow> 'r \<Rightarrow> bool" where
  "rep n f v \<longleftrightarrow> bnd n f \<and> val f = v"

lemma rep_val: "bnd n f \<Longrightarrow> rep n f (val f)"
  by (simp add: rep_def)

lemma rep_eq: "rep n f v \<Longrightarrow> v = w \<Longrightarrow> rep n f w"
  by simp

lemma rep_mono: "rep i f v \<Longrightarrow> i \<le> j \<Longrightarrow> rep j f v"
  by (auto simp: rep_def intro: bnd_mono)

lemma rep_add: "rep i f v \<Longrightarrow> rep j g w \<Longrightarrow> i + j \<le> cap \<Longrightarrow> rep (i + j) (add f g) (v + w)"
  by (auto simp: rep_def intro: add_bnd add_val)

lemma rep_sub: "rep i f v \<Longrightarrow> rep j g w \<Longrightarrow> i + j \<le> cap \<Longrightarrow> rep (i + j) (sub f g) (v - w)"
  by (auto simp: rep_def intro: sub_bnd sub_val)

lemma rep_mul: "rep i f v \<Longrightarrow> rep j g w \<Longrightarrow> i \<le> cap \<Longrightarrow> j \<le> cap \<Longrightarrow> rep 1 (mul f g) (v * w)"
  unfolding rep_def using mul_bnd mul_val bnd_mono by metis

lemma rep_sq: "rep i f v \<Longrightarrow> i \<le> cap \<Longrightarrow> rep 1 (sq f) (v * v)"
  unfolding rep_def using sq_bnd sq_val bnd_mono by metis

section \<open>Powers\<close>

text \<open>\<open>pw z e f\<close>: the reduced element \<open>f\<close> is the power \<open>z^e\<close>. The chains of squarings and
  products that compute inverses and square roots are read off with these rules.\<close>

definition pw :: "'r \<Rightarrow> nat \<Rightarrow> 'e \<Rightarrow> bool" where
  "pw z e f \<longleftrightarrow> rep 1 f (z ^ e)"

lemma pw_rep: "pw z e f \<Longrightarrow> rep 1 f (z ^ e)"
  by (simp add: pw_def)

lemma pw_exp: "pw z d f \<Longrightarrow> d = e \<Longrightarrow> pw z e f"
  by simp

lemma pw_mul: "pw z d f \<Longrightarrow> pw z e g \<Longrightarrow> pw z (d + e) (mul f g)"
  using rep_mul [of 1 f "z ^ d" 1 g "z ^ e"] cap_pos by (simp add: pw_def power_add)

lemma pw_mul_start: "rep i f z \<Longrightarrow> i \<le> cap \<Longrightarrow> pw z e g \<Longrightarrow> pw z (1 + e) (mul f g)"
  using rep_mul [of i f z 1 g "z ^ e"] cap_pos by (simp add: pw_def)

lemma pw_mul_end: "pw z e g \<Longrightarrow> rep i f z \<Longrightarrow> i \<le> cap \<Longrightarrow> pw z (e + 1) (mul g f)"
  using rep_mul [of 1 g "z ^ e" i f z] cap_pos by (simp add: pw_def mult.commute)

lemma pw_sq: "pw z e f \<Longrightarrow> pw z (2 * e) (sq f)"
  using rep_sq [of 1 f "z ^ e"] cap_pos by (simp add: pw_def mult_2 power_add)

lemma pw_sq_start: "rep i f z \<Longrightarrow> i \<le> cap \<Longrightarrow> pw z 2 (sq f)"
  using rep_sq [of i f z] by (simp add: pw_def power2_eq_square)

lemma pw_sqs: "pw z e f \<Longrightarrow> pw z (2 ^ n * e) ((sq ^^ n) f)"
proof (induction n)
  case (Suc n)
  then show ?case using pw_sq [of z "2 ^ n * e" "(sq ^^ n) f"] by (simp add: mult.assoc)
qed simp

end

end
