(* ===== verification/Fe_Pow.thy ===== *)
theory Fe_Pow
  imports Fe_Bytes Field_Ops Gf
begin

text \<open>
  The field of the ed25519 code as an implementation of the field interface, and the power
  chains fe_invert.c (with pow225521.h) and fe_pow22523.c (with pow22523.h).
\<close>

section \<open>The implementation on ten 32-bit limbs\<close>

text \<open>A sum of \<open>n\<close> products; the products of fe_mul.c accept sums of up to three.\<close>

definition fe_terms :: "nat \<Rightarrow> fe \<Rightarrow> bool" where
  "fe_terms n f \<longleftrightarrow> fe_within (33889976 * int n) (16944988 * int n) f"

lemma fe_terms_mono: "fe_terms i f \<Longrightarrow> i \<le> j \<Longrightarrow> fe_terms j f"
  unfolding fe_terms_def by (erule fe_within_mono) simp_all

lemma fe_terms_3: "fe_terms 3 f \<Longrightarrow> fe_within 110729625 55364812 f"
  unfolding fe_terms_def by (erule fe_within_mono) simp_all

lemma fe_terms_2: "fe_terms 2 f \<Longrightarrow> fe_within 73819750 36909875 f"
  unfolding fe_terms_def by (erule fe_within_mono) simp_all

lemma fe_terms_1: "fe_terms 1 f \<longleftrightarrow> fe_within 33889976 16944988 f"
  "fe_terms (Suc 0) f \<longleftrightarrow> fe_within 33889976 16944988 f"
  by (simp_all add: fe_terms_def)

lemma fe_terms_sum:
  assumes "fe_terms i f" "fe_terms j g" "i + j \<le> 3"
  shows "fe_terms (i + j) (fe_add f g)" "fe_terms (i + j) (fe_sub f g)"
    "fe_gf (fe_add f g) = fe_gf f + fe_gf g" "fe_gf (fe_sub f g) = fe_gf f - fe_gf g"
proof -
  have b: "33889976 * int i + 33889976 * int j < 2 ^ 31"
    "16944988 * int i + 16944988 * int j < 2 ^ 31"
    using assms(3) by simp_all
  note a = fe_add_exact [OF assms(1) [unfolded fe_terms_def] assms(2) [unfolded fe_terms_def] b]
  note s = fe_sub_exact [OF assms(1) [unfolded fe_terms_def] assms(2) [unfolded fe_terms_def] b]
  show "fe_terms (i + j) (fe_add f g)" "fe_terms (i + j) (fe_sub f g)"
    "fe_gf (fe_add f g) = fe_gf f + fe_gf g" "fe_gf (fe_sub f g) = fe_gf f - fe_gf g"
    using a s by (simp_all add: fe_terms_def fe_gf_def distrib_left)
qed

lemma fe_gf_mult: "fe_val h mod fe_p = (fe_val f * fe_val g) mod fe_p \<Longrightarrow> fe_gf h = fe_gf f * fe_gf g"
  unfolding fe_gf_def by (simp only: gf_of_int_eq flip: of_int_mult)

lemma fe_terms_product:
  assumes "fe_terms 3 f" "fe_terms 3 g"
  shows "fe_terms 1 (fe_mul f g)" "fe_terms 1 (fe_sq f)"
    "fe_gf (fe_mul f g) = fe_gf f * fe_gf g" "fe_gf (fe_sq f) = fe_gf f * fe_gf f"
  unfolding fe_terms_1 using assms [THEN fe_terms_3] fe_mul_correct fe_sq_correct
  by (blast intro: fe_gf_mult)+

interpretation fe: field_ops fe_gf fe_terms 3 fe_add fe_sub fe_mul fe_sq
  by unfold_locales (simp, (erule (1) fe_terms_mono | simp only: fe_terms_sum fe_terms_product)+)

section \<open>The chains\<close>

text \<open>
  The loop \<open>fe_sq(t,s); for (i = 1; i < n; ++i) fe_sq(t,t)\<close>, as it stands in every step of
  the two generated headers. \<open>fe_sq_n\<close> is also correct for the vacuous loops with \<open>n = 1\<close>.
\<close>

function fe_sq_loop :: "nat \<Rightarrow> nat \<Rightarrow> fe \<Rightarrow> fe" where
  "fe_sq_loop i n t = (if i < n then fe_sq_loop (i + 1) n (fe_sq t) else t)"
  by pat_completeness auto
termination by (relation "measure (\<lambda>(i, n, t). n - i)") auto

declare fe_sq_loop.simps [simp del]

definition fe_sq_n :: "nat \<Rightarrow> fe \<Rightarrow> fe" where
  "fe_sq_n n s = fe_sq_loop 1 n (fe_sq s)"

definition fe_invert :: "fe \<Rightarrow> fe" where
  "fe_invert z =
     (let t0 = fe_sq_n 1 z;
          t1 = fe_sq_n 2 t0;
          t1 = fe_mul z t1;
          t0 = fe_mul t0 t1;
          t2 = fe_sq_n 1 t0;
          t1 = fe_mul t1 t2;
          t2 = fe_sq_n 5 t1;
          t1 = fe_mul t2 t1;
          t2 = fe_sq_n 10 t1;
          t2 = fe_mul t2 t1;
          t3 = fe_sq_n 20 t2;
          t2 = fe_mul t3 t2;
          t2 = fe_sq_n 10 t2;
          t1 = fe_mul t2 t1;
          t2 = fe_sq_n 50 t1;
          t2 = fe_mul t2 t1;
          t3 = fe_sq_n 100 t2;
          t2 = fe_mul t3 t2;
          t2 = fe_sq_n 50 t2;
          t1 = fe_mul t2 t1;
          t1 = fe_sq_n 5 t1
      in fe_mul t1 t0)"

definition fe_pow22523 :: "fe \<Rightarrow> fe" where
  "fe_pow22523 z =
     (let t0 = fe_sq_n 1 z;
          t1 = fe_sq_n 2 t0;
          t1 = fe_mul z t1;
          t0 = fe_mul t0 t1;
          t0 = fe_sq_n 1 t0;
          t0 = fe_mul t1 t0;
          t1 = fe_sq_n 5 t0;
          t0 = fe_mul t1 t0;
          t1 = fe_sq_n 10 t0;
          t1 = fe_mul t1 t0;
          t2 = fe_sq_n 20 t1;
          t1 = fe_mul t2 t1;
          t1 = fe_sq_n 10 t1;
          t0 = fe_mul t1 t0;
          t1 = fe_sq_n 50 t0;
          t1 = fe_mul t1 t0;
          t2 = fe_sq_n 100 t1;
          t1 = fe_mul t2 t1;
          t1 = fe_sq_n 50 t1;
          t0 = fe_mul t1 t0;
          t0 = fe_sq_n 2 t0
      in fe_mul t0 z)"

lemma fe_sq_loop_funpow: "fe_sq_loop i n t = (fe_sq ^^ (n - i)) t"
proof (induction i n t rule: fe_sq_loop.induct)
  case (1 i n t)
  show ?case
  proof (cases "i < n")
    case True
    then have "n - i = Suc (n - (i + 1))" by simp
    with 1 True show ?thesis
      by (subst fe_sq_loop.simps) (simp add: funpow_swap1)
  qed (subst fe_sq_loop.simps, simp)
qed

lemma fe_sq_n_funpow: "0 < n \<Longrightarrow> fe_sq_n n s = (fe_sq ^^ n) s"
  by (cases n) (simp_all add: fe_sq_n_def fe_sq_loop_funpow funpow_swap1)

lemma pw_sq_n: "fe.pw z e s \<Longrightarrow> 0 < n \<Longrightarrow> fe.pw z (2 ^ n * e) (fe_sq_n n s)"
  by (simp only: fe_sq_n_funpow fe.pw_sqs)

lemma pw_sq_n_start: "fe.rep i s z \<Longrightarrow> i \<le> 3 \<Longrightarrow> fe.pw z 2 (fe_sq_n 1 s)"
  using fe.pw_sq_start [of i s z] by (simp add: fe_sq_n_funpow)

text \<open>
  Both chains, as powers of their argument. They share the steps up to the exponents
  11 and 2^250-1.
\<close>

definition fe_chain_9 :: "fe \<Rightarrow> fe" where
  "fe_chain_9 z = fe_mul z (fe_sq_n 2 (fe_sq_n 1 z))"

definition fe_chain_11 :: "fe \<Rightarrow> fe" where
  "fe_chain_11 z = fe_mul (fe_sq_n 1 z) (fe_chain_9 z)"

definition fe_chain_10 :: "fe \<Rightarrow> fe" where
  "fe_chain_10 z =
     (let b5 = fe_mul (fe_chain_9 z) (fe_sq_n 1 (fe_chain_11 z))
      in fe_mul (fe_sq_n 5 b5) b5)"

definition fe_chain_50 :: "fe \<Rightarrow> fe" where
  "fe_chain_50 z =
     (let b10 = fe_chain_10 z;
          b20 = fe_mul (fe_sq_n 10 b10) b10;
          b40 = fe_mul (fe_sq_n 20 b20) b20
      in fe_mul (fe_sq_n 10 b40) b10)"

definition fe_chain_250 :: "fe \<Rightarrow> fe" where
  "fe_chain_250 z =
     (let b50 = fe_chain_50 z;
          b100 = fe_mul (fe_sq_n 50 b50) b50;
          b200 = fe_mul (fe_sq_n 100 b100) b100
      in fe_mul (fe_sq_n 50 b200) b50)"

lemmas fe_chain_defs = fe_chain_9_def fe_chain_11_def fe_chain_10_def fe_chain_50_def
  fe_chain_250_def Let_def

text \<open>From the exponent \<open>2^a - 1\<close> to \<open>2^(a+n) - 1\<close>.\<close>

lemma pw_extend:
  assumes "fe.pw v (2 ^ a - 1) f" "fe.pw v (2 ^ n - 1) g" "0 < n"
  shows "fe.pw v (2 ^ (n + a) - 1) (fe_mul (fe_sq_n n f) g)"
proof -
  have "(1 :: nat) \<le> 2 ^ n" "(2 :: nat) ^ n \<le> 2 ^ n * 2 ^ a" by simp_all
  then have "2 ^ n * (2 ^ a - 1) + (2 ^ n - 1) = 2 ^ (n + a) - (1 :: nat)"
    by (simp add: power_add diff_mult_distrib2 del: one_le_power)
  then show ?thesis by (rule fe.pw_exp [OF fe.pw_mul [OF pw_sq_n [OF assms(1,3)] assms(2)]])
qed

lemma fe_chain_pw:
  assumes z: "fe.rep i z v" "i \<le> 3"
  shows "fe.pw v 11 (fe_chain_11 z)" and "fe.pw v (2 ^ 250 - 1) (fe_chain_250 z)"
proof -
  have a2: "fe.pw v 2 (fe_sq_n 1 z)" by (rule pw_sq_n_start [OF z])
  have a9: "fe.pw v 9 (fe_chain_9 z)"
    unfolding fe_chain_9_def
    by (rule fe.pw_exp [OF fe.pw_mul_start [OF z pw_sq_n [OF a2]]]) simp_all
  show a11: "fe.pw v 11 (fe_chain_11 z)"
    unfolding fe_chain_11_def by (rule fe.pw_exp [OF fe.pw_mul [OF a2 a9]]) simp
  have b5: "fe.pw v (2 ^ 5 - 1) (fe_mul (fe_chain_9 z) (fe_sq_n 1 (fe_chain_11 z)))"
    by (rule fe.pw_exp [OF fe.pw_mul [OF a9 pw_sq_n [OF a11]]]) simp_all
  have b10: "fe.pw v (2 ^ (5 + 5) - 1) (fe_chain_10 z)"
    unfolding fe_chain_10_def Let_def by (rule pw_extend [OF b5 b5]) simp
  have b50: "fe.pw v (2 ^ 50 - 1) (fe_chain_50 z)"
    using pw_extend [OF pw_extend [OF pw_extend [OF b10 b10]
      pw_extend [OF b10 b10]] b10] by (simp add: fe_chain_50_def Let_def)
  show "fe.pw v (2 ^ 250 - 1) (fe_chain_250 z)"
    using pw_extend [OF pw_extend [OF pw_extend [OF b50 b50]
      pw_extend [OF b50 b50]] b50] by (simp add: fe_chain_250_def Let_def)
qed

lemma fe_invert_pw:
  assumes z: "fe.rep i z v" "i \<le> 3"
  shows "fe.pw v (2 ^ 255 - 21) (fe_invert z)"
proof -
  note c = fe_chain_pw [OF z]
  have "fe_invert z = fe_mul (fe_sq_n 5 (fe_chain_250 z)) (fe_chain_11 z)"
    by (simp only: fe_invert_def fe_chain_defs)
  then show ?thesis
    using fe.pw_exp [OF fe.pw_mul [OF pw_sq_n [OF c(2), of 5] c(1)]] by simp
qed

lemma fe_pow22523_pw:
  assumes z: "fe.rep i z v" "i \<le> 3"
  shows "fe.pw v (2 ^ 252 - 3) (fe_pow22523 z)"
proof -
  note c = fe_chain_pw [OF z]
  have "fe_pow22523 z = fe_mul (fe_sq_n 2 (fe_chain_250 z)) z"
    by (simp only: fe_pow22523_def fe_chain_defs)
  then show ?thesis
    using fe.pw_exp [OF fe.pw_mul_end [OF pw_sq_n [OF c(2), of 2] z]] by simp
qed

section \<open>Properties\<close>

text \<open>
  C35: fe_invert.c raises its argument to the power p-2, whatever it is, by a fixed chain of
  254 squarings and 11 products that stay within their bounds.
\<close>

theorem fe_invert_power:
  assumes "fe_within 101669928 50834964 z"
  shows "fe_val (fe_invert z) mod fe_p = fe_val z ^ (2 ^ 255 - 21) mod fe_p \<and>
    fe_within 33889976 16944988 (fe_invert z)"
proof -
  have "fe.rep 3 z (fe_gf z)" using assms by (simp add: fe.rep_def fe_terms_def)
  from fe.pw_rep [OF fe_invert_pw [OF this]]
  have "fe.rep 1 (fe_invert z) (fe_gf z ^ (2 ^ 255 - 21))" by simp
  then have g: "fe_gf (fe_invert z) = fe_gf z ^ (2 ^ 255 - 21)"
    and w: "fe_within 33889976 16944988 (fe_invert z)"
    by (simp_all only: fe.rep_def fe_terms_1)
  from g have "fe_val (fe_invert z) mod fe_p = fe_val z ^ (2 ^ 255 - 21) mod fe_p"
    by (simp only: fe_gf_def gf_of_int_eq flip: of_int_power)
  with w show ?thesis by blast
qed

theorem fe_invert_power_witness:
  "fe_val (fe_invert [2, 0, 0, 0, 0, 0, 0, 0, 0, 0]) mod fe_p =
    fe_val [2, 0, 0, 0, 0, 0, 0, 0, 0, 0] ^ (2 ^ 255 - 21) mod fe_p"
proof -
  have "fe_within 101669928 50834964 [2, 0, 0, 0, 0, 0, 0, 0, 0, 0]"
    by (simp add: fe_within_def all_less_10)
  from fe_invert_power [OF this] show ?thesis by blast
qed

text \<open>C36: fe_pow22523.c raises its argument to the power (p-5)/8 = 2^252-3.\<close>

theorem fe_pow22523_power:
  assumes "fe_within 101669928 50834964 z"
  shows "fe_val (fe_pow22523 z) mod fe_p = fe_val z ^ (2 ^ 252 - 3) mod fe_p \<and>
    fe_within 33889976 16944988 (fe_pow22523 z)"
proof -
  have "fe.rep 3 z (fe_gf z)" using assms by (simp add: fe.rep_def fe_terms_def)
  from fe.pw_rep [OF fe_pow22523_pw [OF this]]
  have "fe.rep 1 (fe_pow22523 z) (fe_gf z ^ (2 ^ 252 - 3))" by simp
  then have g: "fe_gf (fe_pow22523 z) = fe_gf z ^ (2 ^ 252 - 3)"
    and w: "fe_within 33889976 16944988 (fe_pow22523 z)"
    by (simp_all only: fe.rep_def fe_terms_1)
  from g have "fe_val (fe_pow22523 z) mod fe_p = fe_val z ^ (2 ^ 252 - 3) mod fe_p"
    by (simp only: fe_gf_def gf_of_int_eq flip: of_int_power)
  with w show ?thesis by blast
qed

theorem fe_pow22523_power_witness:
  "fe_val (fe_pow22523 [2, 0, 0, 0, 0, 0, 0, 0, 0, 0]) mod fe_p =
    fe_val [2, 0, 0, 0, 0, 0, 0, 0, 0, 0] ^ (2 ^ 252 - 3) mod fe_p"
proof -
  have "fe_within 101669928 50834964 [2, 0, 0, 0, 0, 0, 0, 0, 0, 0]"
    by (simp add: fe_within_def all_less_10)
  from fe_pow22523_power [OF this] show ?thesis by blast
qed

end
