(* ===== verification/Ge.thy ===== *)
theory Ge
  imports Fe_Pow Edwards
begin

text \<open>
  Points of the curve -x^2 + y^2 = 1 + d x^2 y^2: ge.h, the formulas ge_add, ge_sub, ge_madd,
  ge_msub and ge_p2_dbl (each a .c file around a generated .h file), the conversions between
  the representations and the encoding ge_tobytes.c, ge_p3_tobytes.c and ge_frombytes.c.
  A C function that writes through a pointer \<open>r\<close> returns the new \<open>r\<close> here; the destination
  never overlaps a source in the callers, whose types differ.
\<close>

section \<open>Representations\<close>

record ge_p2 =
  p2_X :: fe
  p2_Y :: fe
  p2_Z :: fe

record ge_p3 =
  p3_X :: fe
  p3_Y :: fe
  p3_Z :: fe
  p3_T :: fe

record ge_p1p1 =
  pp_X :: fe
  pp_Y :: fe
  pp_Z :: fe
  pp_T :: fe

record ge_precomp =
  yplusx :: fe
  yminusx :: fe
  xy2d :: fe

record ge_cached =
  YplusX :: fe
  YminusX :: fe
  ca_Z :: fe
  T2d :: fe

section \<open>Constants\<close>

text \<open>d.h, d2.h and sqrtm1.h.\<close>

definition ge_d :: fe where
  "ge_d =
    [- 10913610, 13857413, - 15372611, 6949391, 114729, - 8787816,
     - 6275908, - 3247719, - 18696448, - 12055116]"

definition ge_d2 :: fe where
  "ge_d2 =
    [- 21827239, - 5839606, - 30745221, 13898782, 229458, 15978800,
     - 12551817, - 6495438, 29715968, 9444199]"

definition sqrtm1 :: fe where
  "sqrtm1 =
    [- 32595792, - 7943725, 9377950, 3500415, 12389472, - 272473,
     - 25146209, - 2005654, 326686, 11406482]"

definition ge_p2_0 :: ge_p2 where
  "ge_p2_0 = \<lparr>p2_X = fe_0, p2_Y = fe_1, p2_Z = fe_1\<rparr>"

definition ge_p3_0 :: ge_p3 where
  "ge_p3_0 = \<lparr>p3_X = fe_0, p3_Y = fe_1, p3_Z = fe_1, p3_T = fe_0\<rparr>"

definition ge_precomp_0 :: ge_precomp where
  "ge_precomp_0 = \<lparr>yplusx = fe_1, yminusx = fe_1, xy2d = fe_0\<rparr>"

section \<open>Conversions\<close>

definition ge_p3_to_p2 :: "ge_p3 \<Rightarrow> ge_p2" where
  "ge_p3_to_p2 p =
    \<lparr>p2_X = fe_copy (p3_X p), p2_Y = fe_copy (p3_Y p), p2_Z = fe_copy (p3_Z p)\<rparr>"

definition ge_p3_to_cached :: "ge_p3 \<Rightarrow> ge_cached" where
  "ge_p3_to_cached p =
    \<lparr>YplusX = fe_add (p3_Y p) (p3_X p), YminusX = fe_sub (p3_Y p) (p3_X p),
     ca_Z = fe_copy (p3_Z p), T2d = fe_mul (p3_T p) ge_d2\<rparr>"

definition ge_p1p1_to_p2 :: "ge_p1p1 \<Rightarrow> ge_p2" where
  "ge_p1p1_to_p2 p =
    \<lparr>p2_X = fe_mul (pp_X p) (pp_T p), p2_Y = fe_mul (pp_Y p) (pp_Z p),
     p2_Z = fe_mul (pp_Z p) (pp_T p)\<rparr>"

definition ge_p1p1_to_p3 :: "ge_p1p1 \<Rightarrow> ge_p3" where
  "ge_p1p1_to_p3 p =
    \<lparr>p3_X = fe_mul (pp_X p) (pp_T p), p3_Y = fe_mul (pp_Y p) (pp_Z p),
     p3_Z = fe_mul (pp_Z p) (pp_T p), p3_T = fe_mul (pp_X p) (pp_Y p)\<rparr>"

section \<open>Formulas\<close>

definition ge_p2_dbl :: "ge_p2 \<Rightarrow> ge_p1p1" where
  "ge_p2_dbl p =
     (let rX = fe_sq (p2_X p);
          rZ = fe_sq (p2_Y p);
          rT = fe_sq2 (p2_Z p);
          rY = fe_add (p2_X p) (p2_Y p);
          t0 = fe_sq rY;
          rY = fe_add rZ rX;
          rZ = fe_sub rZ rX;
          rX = fe_sub t0 rY;
          rT = fe_sub rT rZ
      in \<lparr>pp_X = rX, pp_Y = rY, pp_Z = rZ, pp_T = rT\<rparr>)"

definition ge_p3_dbl :: "ge_p3 \<Rightarrow> ge_p1p1" where
  "ge_p3_dbl p = (let q = ge_p3_to_p2 p in ge_p2_dbl q)"

definition ge_add :: "ge_p3 \<Rightarrow> ge_cached \<Rightarrow> ge_p1p1" where
  "ge_add p q =
     (let rX = fe_add (p3_Y p) (p3_X p);
          rY = fe_sub (p3_Y p) (p3_X p);
          rZ = fe_mul rX (YplusX q);
          rY = fe_mul rY (YminusX q);
          rT = fe_mul (T2d q) (p3_T p);
          rX = fe_mul (p3_Z p) (ca_Z q);
          t0 = fe_add rX rX;
          rX = fe_sub rZ rY;
          rY = fe_add rZ rY;
          rZ = fe_add t0 rT;
          rT = fe_sub t0 rT
      in \<lparr>pp_X = rX, pp_Y = rY, pp_Z = rZ, pp_T = rT\<rparr>)"

definition ge_sub :: "ge_p3 \<Rightarrow> ge_cached \<Rightarrow> ge_p1p1" where
  "ge_sub p q =
     (let rX = fe_add (p3_Y p) (p3_X p);
          rY = fe_sub (p3_Y p) (p3_X p);
          rZ = fe_mul rX (YminusX q);
          rY = fe_mul rY (YplusX q);
          rT = fe_mul (T2d q) (p3_T p);
          rX = fe_mul (p3_Z p) (ca_Z q);
          t0 = fe_add rX rX;
          rX = fe_sub rZ rY;
          rY = fe_add rZ rY;
          rZ = fe_sub t0 rT;
          rT = fe_add t0 rT
      in \<lparr>pp_X = rX, pp_Y = rY, pp_Z = rZ, pp_T = rT\<rparr>)"

definition ge_madd :: "ge_p3 \<Rightarrow> ge_precomp \<Rightarrow> ge_p1p1" where
  "ge_madd p q =
     (let rX = fe_add (p3_Y p) (p3_X p);
          rY = fe_sub (p3_Y p) (p3_X p);
          rZ = fe_mul rX (yplusx q);
          rY = fe_mul rY (yminusx q);
          rT = fe_mul (xy2d q) (p3_T p);
          t0 = fe_add (p3_Z p) (p3_Z p);
          rX = fe_sub rZ rY;
          rY = fe_add rZ rY;
          rZ = fe_add t0 rT;
          rT = fe_sub t0 rT
      in \<lparr>pp_X = rX, pp_Y = rY, pp_Z = rZ, pp_T = rT\<rparr>)"

definition ge_msub :: "ge_p3 \<Rightarrow> ge_precomp \<Rightarrow> ge_p1p1" where
  "ge_msub p q =
     (let rX = fe_add (p3_Y p) (p3_X p);
          rY = fe_sub (p3_Y p) (p3_X p);
          rZ = fe_mul rX (yminusx q);
          rY = fe_mul rY (yplusx q);
          rT = fe_mul (xy2d q) (p3_T p);
          t0 = fe_add (p3_Z p) (p3_Z p);
          rX = fe_sub rZ rY;
          rY = fe_add rZ rY;
          rZ = fe_sub t0 rT;
          rT = fe_add t0 rT
      in \<lparr>pp_X = rX, pp_Y = rY, pp_Z = rZ, pp_T = rT\<rparr>)"

section \<open>Encoding\<close>

definition ge_tobytes :: "ge_p2 \<Rightarrow> u8 list" where
  "ge_tobytes h =
     (let recip = fe_invert (p2_Z h);
          x = fe_mul (p2_X h) recip;
          y = fe_mul (p2_Y h) recip;
          s = fe_tobytes y
      in s[31 := s ! 31 XOR ucast (push_bit 7 (fe_isnegative x))])"

definition ge_p3_tobytes :: "ge_p3 \<Rightarrow> u8 list" where
  "ge_p3_tobytes h =
     (let recip = fe_invert (p3_Z h);
          x = fe_mul (p3_X h) recip;
          y = fe_mul (p3_Y h) recip;
          s = fe_tobytes y
      in s[31 := s ! 31 XOR ucast (push_bit 7 (fe_isnegative x))])"

text \<open>
  The C function returns -1 and leaves a partly written point, with \<open>T\<close> untouched, when the
  bytes encode no point, and 0 otherwise: here the pair of the result and the new \<open>h\<close>.
\<close>

definition ge_frombytes_negate_vartime :: "ge_p3 \<Rightarrow> u8 list \<Rightarrow> i32 \<times> ge_p3" where
  "ge_frombytes_negate_vartime h s =
     (let Y = fe_frombytes s;
          Z = fe_1;
          u = fe_sq Y;
          v = fe_mul u ge_d;
          u = fe_sub u Z;
          v = fe_add v Z;
          v3 = fe_sq v;
          v3 = fe_mul v3 v;
          X = fe_sq v3;
          X = fe_mul X v;
          X = fe_mul X u;
          X = fe_pow22523 X;
          X = fe_mul X v3;
          X = fe_mul X u;
          vxx = fe_sq X;
          vxx = fe_mul vxx v;
          check = fe_sub vxx u;
          bad = (fe_isnonzero check \<noteq> 0);
          check' = fe_add vxx u
      in if bad \<and> fe_isnonzero check' \<noteq> 0 then
           (- 1, \<lparr>p3_X = X, p3_Y = Y, p3_Z = Z, p3_T = p3_T h\<rparr>)
         else
           (let X = (if bad then fe_mul X sqrtm1 else X);
                X = (if fe_isnegative X = ucast (drop_bit 7 (s ! 31)) then fe_neg X else X);
                T = fe_mul X Y
            in (0, \<lparr>p3_X = X, p3_Y = Y, p3_Z = Z, p3_T = T\<rparr>)))"

section \<open>What the records stand for\<close>

text \<open>
  Each relation says that the limbs of a record are within the bounds its users need and
  names the coordinates it stands for. The completed coordinates ((X : Z), (Y : T)) stand
  for the extended coordinates that ge_p1p1_to_p3.c computes from them.
\<close>

fun p2_rep :: "ge_p2 \<Rightarrow> ext \<Rightarrow> bool" where
  "p2_rep p (X, Y, Z, T) \<longleftrightarrow>
     fe.rep 1 (p2_X p) X \<and> fe.rep 1 (p2_Y p) Y \<and> fe.rep 1 (p2_Z p) Z"

fun p3_rep :: "ge_p3 \<Rightarrow> ext \<Rightarrow> bool" where
  "p3_rep p (X, Y, Z, T) \<longleftrightarrow>
     fe.rep 1 (p3_X p) X \<and> fe.rep 1 (p3_Y p) Y \<and> fe.rep 1 (p3_Z p) Z \<and> fe.rep 1 (p3_T p) T"

definition pp_rep :: "ge_p1p1 \<Rightarrow> ext \<Rightarrow> bool" where
  "pp_rep r P \<longleftrightarrow> (\<exists>E F G H. P = (E * F, G * H, F * G, E * H) \<and>
     fe.rep 3 (pp_X r) E \<and> fe.rep 3 (pp_Y r) H \<and> fe.rep 3 (pp_Z r) G \<and> fe.rep 3 (pp_T r) F)"

fun ca_rep :: "ge_cached \<Rightarrow> ext \<Rightarrow> bool" where
  "ca_rep q (X, Y, Z, T) \<longleftrightarrow>
     fe.rep 2 (YplusX q) (Y + X) \<and> fe.rep 2 (YminusX q) (Y - X) \<and> fe.rep 1 (ca_Z q) Z \<and>
     fe.rep 1 (T2d q) (2 * ed_d * T)"

fun pc_rep :: "ge_precomp \<Rightarrow> ext \<Rightarrow> bool" where
  "pc_rep q (X, Y, Z, T) \<longleftrightarrow>
     fe.rep 1 (yplusx q) (Y + X) \<and> fe.rep 1 (yminusx q) (Y - X) \<and> Z = 1 \<and>
     fe.rep 1 (xy2d q) (2 * ed_d * T)"

section \<open>Rules for expressions of field operations\<close>

lemma fe_rep_sums:
  "fe.rep 1 f v \<Longrightarrow> fe.rep 1 g w \<Longrightarrow> fe.rep 2 (fe_add f g) (v + w)"
  "fe.rep 1 f v \<Longrightarrow> fe.rep 1 g w \<Longrightarrow> fe.rep 2 (fe_sub f g) (v - w)"
  "fe.rep 2 f v \<Longrightarrow> fe.rep 1 g w \<Longrightarrow> fe.rep 3 (fe_add f g) (v + w)"
  "fe.rep 2 f v \<Longrightarrow> fe.rep 1 g w \<Longrightarrow> fe.rep 3 (fe_sub f g) (v - w)"
  "fe.rep 1 f v \<Longrightarrow> fe.rep 2 g w \<Longrightarrow> fe.rep 3 (fe_sub f g) (v - w)"
  using fe.rep_add [of 1 f v 1 g w] fe.rep_sub [of 1 f v 1 g w] fe.rep_add [of 2 f v 1 g w]
    fe.rep_sub [of 2 f v 1 g w] fe.rep_sub [of 1 f v 2 g w]
  by (simp_all add: numeral_2_eq_2 numeral_3_eq_3)

lemma fe_rep_mul:
  "fe.rep i f v \<Longrightarrow> fe.rep j g w \<Longrightarrow> i \<le> 3 \<Longrightarrow> j \<le> 3 \<Longrightarrow> fe.rep 1 (fe_mul f g) (v * w)"
  by (rule fe.rep_mul)

lemma fe_rep_sq2:
  assumes "fe.rep i f v" "i \<le> 3"
  shows "fe.rep 1 (fe_sq2 f) (2 * v * v)"
proof -
  have "fe_within 110729625 55364812 f"
    using assms by (intro fe_terms_3) (auto simp: fe.rep_def intro: fe_terms_mono)
  note c = fe_sq2_correct [OF this]
  have "fe_gf (fe_sq2 f) = 2 * (fe_gf f * fe_gf f)"
  proof -
    have "fe_gf (fe_sq2 f) = of_int (2 * (fe_val f * fe_val f))"
      unfolding fe_gf_def gf_of_int_eq by (rule c(1))
    then show ?thesis by (simp add: fe_gf_def)
  qed
  then show ?thesis using c(2) assms(1) by (simp add: fe.rep_def fe_terms_1 mult.assoc)
qed

lemma fe_rep_copy: "fe.rep i f v \<Longrightarrow> fe.rep i (fe_copy f) v"
  using fe_copy_id [of f] by (auto simp: fe.rep_def fe_terms_def fe_within_def)

lemma fe_rep_consts: "fe.rep 1 fe_0 0" "fe.rep 1 fe_1 1"
  by (simp_all add: fe.rep_def fe_terms_1 fe_within_0_1)

lemma fe_rep_neg:
  assumes "fe.rep 1 f v"
  shows "fe.rep 1 (fe_neg f) (- v)"
  using assms fe_neg_exact [of 33889976 16944988 f]
  by (simp add: fe.rep_def fe_terms_1 fe_gf_def)

lemma ge_constants:
  "fe.rep 1 ge_d ed_d" "fe.rep 1 ge_d2 (2 * ed_d)" "fe.rep 1 sqrtm1 ed_i"
proof -
  note c = fe_val_sum sum_less_10 fe_weight_def fe_exp_def fe_p_def
  have "37095705934669439343138083508754565189542113879843219016388785533085940283555 =
      fe_val ge_d + fe_p" by (simp add: c ge_d_def)
  moreover have "19681161376707505956807079304988542015446066515923890162744021073123829784752 =
    fe_val sqrtm1" by (simp add: c sqrtm1_def)
  ultimately have v: "fe_gf ge_d = ed_d" "fe_gf sqrtm1 = ed_i"
    by (simp_all only: fe_gf_def ed_d_def ed_i_def gf_of_int_eq mod_add_self2)
  have "2 * 37095705934669439343138083508754565189542113879843219016388785533085940283555 =
      fe_val ge_d2 + fe_p"
    by (simp add: c ge_d2_def)
  then have "fe_gf ge_d2 = of_int
    (2 * 37095705934669439343138083508754565189542113879843219016388785533085940283555)"
    by (simp only: fe_gf_def gf_of_int_eq mod_add_self2)
  also have "\<dots> = 2 * ed_d" by (simp only: ed_d_def of_int_mult of_int_numeral)
  finally show "fe.rep 1 ge_d ed_d" "fe.rep 1 ge_d2 (2 * ed_d)" "fe.rep 1 sqrtm1 ed_i"
    using v by (simp_all add: fe.rep_def fe_terms_1 fe_within_def all_less_10 ge_d_def ge_d2_def
        sqrtm1_def)
qed

section \<open>The conversions\<close>

lemma p3_0_rep: "p3_rep ge_p3_0 ext_zero"
  by (simp add: ge_p3_0_def ext_zero_def fe_rep_consts [simplified])

lemma p2_0_rep: "p2_rep ge_p2_0 ext_zero"
  by (simp add: ge_p2_0_def ext_zero_def fe_rep_consts [simplified])

lemma precomp_0_rep: "pc_rep ge_precomp_0 ext_zero"
  by (simp add: ge_precomp_0_def ext_zero_def fe_rep_consts [simplified])

lemma p3_to_p2_rep: "p3_rep p P \<Longrightarrow> p2_rep (ge_p3_to_p2 p) P"
  by (cases P) (simp add: ge_p3_to_p2_def fe_rep_copy)

lemma p1p1_products:
  assumes "pp_rep r (X, Y, Z, T)"
  shows "fe.rep 1 (fe_mul (pp_X r) (pp_T r)) X" "fe.rep 1 (fe_mul (pp_Y r) (pp_Z r)) Y"
    "fe.rep 1 (fe_mul (pp_Z r) (pp_T r)) Z" "fe.rep 1 (fe_mul (pp_X r) (pp_Y r)) T"
proof -
  obtain E F G H where v: "X = E * F" "Y = H * G" "Z = G * F" "T = E * H"
    and r: "fe.rep 3 (pp_X r) E" "fe.rep 3 (pp_Y r) H" "fe.rep 3 (pp_Z r) G"
      "fe.rep 3 (pp_T r) F"
    using assms by (auto simp: pp_rep_def mult.commute)
  show "fe.rep 1 (fe_mul (pp_X r) (pp_T r)) X" "fe.rep 1 (fe_mul (pp_Y r) (pp_Z r)) Y"
    "fe.rep 1 (fe_mul (pp_Z r) (pp_T r)) Z" "fe.rep 1 (fe_mul (pp_X r) (pp_Y r)) T"
    using fe_rep_mul [OF r(1,4)] fe_rep_mul [OF r(2,3)] fe_rep_mul [OF r(3,4)]
      fe_rep_mul [OF r(1,2)] by (simp_all add: v)
qed

lemma p1p1_to_p3_rep: "pp_rep r P \<Longrightarrow> p3_rep (ge_p1p1_to_p3 r) P"
  by (cases P) (simp add: ge_p1p1_to_p3_def p1p1_products [simplified])

lemma p1p1_to_p2_rep: "pp_rep r P \<Longrightarrow> p2_rep (ge_p1p1_to_p2 r) P"
  by (cases P) (simp add: ge_p1p1_to_p2_def p1p1_products [simplified])

lemma p3_to_cached_rep:
  assumes "p3_rep p P"
  shows "ca_rep (ge_p3_to_cached p) P"
proof (cases P)
  fix X Y Z T
  assume P: "P = (X, Y, Z, T)"
  have r: "fe.rep 1 (p3_X p) X" "fe.rep 1 (p3_Y p) Y" "fe.rep 1 (p3_Z p) Z" "fe.rep 1 (p3_T p) T"
    using assms by (simp_all add: P)
  have "fe.rep 1 (fe_mul (p3_T p) ge_d2) (2 * ed_d * T)"
    using fe_rep_mul [OF r(4) ge_constants(2)] by (simp add: mult.commute)
  then show ?thesis
    using fe_rep_sums(1,2) [OF r(2,1)] fe_rep_copy [OF r(3)]
    by (simp add: P ge_p3_to_cached_def)
qed

section \<open>The formulas\<close>

lemma pp_repI:
  assumes "fe.rep 3 (pp_X r) E" "fe.rep 3 (pp_Y r) H" "fe.rep 3 (pp_Z r) G" "fe.rep 3 (pp_T r) F"
    and "P = (E * F, G * H, F * G, E * H)"
  shows "pp_rep r P"
  using assms unfolding pp_rep_def by blast

lemma p2_dbl_rep:
  assumes "p2_rep p P"
  shows "pp_rep (ge_p2_dbl p) (ext_dbl P)"
proof (cases P)
  fix X Y Z T
  assume P: "P = (X, Y, Z, T)"
  have r: "fe.rep 1 (p2_X p) X" "fe.rep 1 (p2_Y p) Y" "fe.rep 1 (p2_Z p) Z"
    using assms by (simp_all add: P)
  have sq: "fe.rep 1 (fe_sq (p2_X p)) (X * X)" "fe.rep 1 (fe_sq (p2_Y p)) (Y * Y)"
    "fe.rep 1 (fe_sq2 (p2_Z p)) (2 * Z * Z)"
    "fe.rep 1 (fe_sq (fe_add (p2_X p) (p2_Y p))) ((X + Y) * (X + Y))"
    using fe.rep_sq [OF r(1)] fe.rep_sq [OF r(2)] fe_rep_sq2 [OF r(3)]
      fe.rep_sq [OF fe_rep_sums(1) [OF r(1,2)]] by simp_all
  note yx = fe_rep_sums(1,2) [OF sq(2,1)]
  note c = yx [THEN fe.rep_mono, of 3] fe_rep_sums(5) [OF sq(4) yx(1)]
    fe_rep_sums(5) [OF sq(3) yx(2)]
  show ?thesis
    unfolding ge_p2_dbl_def Let_def
    by (rule pp_repI; (simp only: ge_p1p1.simps, rule c; simp)?)
      (simp add: P Let_def algebra_simps)
qed

lemma p3_dbl_rep: "p3_rep p P \<Longrightarrow> pp_rep (ge_p3_dbl p) (ext_dbl P)"
  unfolding ge_p3_dbl_def Let_def by (rule p2_dbl_rep [OF p3_to_p2_rep])

text \<open>The additions share their shape: two products, a scaled product and a doubled one.\<close>

lemma completed_sum:
  assumes "fe.rep 1 a A" "fe.rep 1 b B" "fe.rep 1 c C" "fe.rep 2 d D"
  shows "fe.rep 3 (fe_sub a b) (A - B)" "fe.rep 3 (fe_add a b) (A + B)"
    "fe.rep 3 (fe_add d c) (D + C)" "fe.rep 3 (fe_sub d c) (D - C)"
  using fe_rep_sums(1,2) [OF assms(1,2), THEN fe.rep_mono, of 3]
    fe_rep_sums(3,4) [OF assms(4,3)] by simp_all

lemma ge_add_rep:
  assumes "p3_rep p P" "ca_rep q Q"
  shows "pp_rep (ge_add p q) (ext_add P Q)" and "pp_rep (ge_sub p q) (ext_add P (ext_neg Q))"
proof -
  obtain X1 Y1 Z1 T1 X2 Y2 Z2 T2 where PQ: "P = (X1, Y1, Z1, T1)" "Q = (X2, Y2, Z2, T2)"
    by (cases P; cases Q) auto
  have p: "fe.rep 1 (p3_X p) X1" "fe.rep 1 (p3_Y p) Y1" "fe.rep 1 (p3_Z p) Z1"
    "fe.rep 1 (p3_T p) T1" using assms by (simp_all add: PQ)
  have q: "fe.rep 2 (YplusX q) (Y2 + X2)" "fe.rep 2 (YminusX q) (Y2 - X2)"
    "fe.rep 1 (ca_Z q) Z2" "fe.rep 1 (T2d q) (2 * ed_d * T2)" using assms by (simp_all add: PQ)
  note s = fe_rep_sums(1,2) [OF p(2,1)]
  note m = fe_rep_mul [OF s(1) q(1)] fe_rep_mul [OF s(2) q(2)] fe_rep_mul [OF s(1) q(2)]
    fe_rep_mul [OF s(2) q(1)] fe_rep_mul [OF q(4) p(4)] fe_rep_mul [OF p(3) q(3)]
  note d = fe_rep_sums(1) [OF m(6) m(6)]
  note c = completed_sum [OF m(1,2,5) d] and c' = completed_sum [OF m(3,4,5) d]
  show "pp_rep (ge_add p q) (ext_add P Q)"
    unfolding ge_add_def Let_def
    by (rule pp_repI; (simp only: ge_p1p1.simps, rule c; simp)?)
      (simp add: PQ Let_def algebra_simps)
  show "pp_rep (ge_sub p q) (ext_add P (ext_neg Q))"
    unfolding ge_sub_def Let_def
    by (rule pp_repI; (simp only: ge_p1p1.simps, rule c'; simp)?)
      (simp add: PQ Let_def algebra_simps)
qed

lemma ge_madd_rep:
  assumes "p3_rep p P" "pc_rep q Q"
  shows "pp_rep (ge_madd p q) (ext_add P Q)" and "pp_rep (ge_msub p q) (ext_add P (ext_neg Q))"
proof -
  obtain X1 Y1 Z1 T1 X2 Y2 T2 where PQ: "P = (X1, Y1, Z1, T1)" "Q = (X2, Y2, 1, T2)"
    using assms(2) by (cases P; cases Q) auto
  have p: "fe.rep 1 (p3_X p) X1" "fe.rep 1 (p3_Y p) Y1" "fe.rep 1 (p3_Z p) Z1"
    "fe.rep 1 (p3_T p) T1" using assms by (simp_all add: PQ)
  have q: "fe.rep 1 (yplusx q) (Y2 + X2)" "fe.rep 1 (yminusx q) (Y2 - X2)"
    "fe.rep 1 (xy2d q) (2 * ed_d * T2)" using assms by (simp_all add: PQ)
  note s = fe_rep_sums(1,2) [OF p(2,1)]
  note m = fe_rep_mul [OF s(1) q(1)] fe_rep_mul [OF s(2) q(2)] fe_rep_mul [OF s(1) q(2)]
    fe_rep_mul [OF s(2) q(1)] fe_rep_mul [OF q(3) p(4)]
  note d = fe_rep_sums(1) [OF p(3) p(3)]
  note c = completed_sum [OF m(1,2,5) d] and c' = completed_sum [OF m(3,4,5) d]
  show "pp_rep (ge_madd p q) (ext_add P Q)"
    unfolding ge_madd_def Let_def
    by (rule pp_repI; (simp only: ge_p1p1.simps, rule c; simp)?)
      (simp add: PQ Let_def algebra_simps)
  show "pp_rep (ge_msub p q) (ext_add P (ext_neg Q))"
    unfolding ge_msub_def Let_def
    by (rule pp_repI; (simp only: ge_p1p1.simps, rule c'; simp)?)
      (simp add: PQ Let_def algebra_simps)
qed

section \<open>Encoding a point\<close>

lemma le_value_update:
  "i < length s \<Longrightarrow> le_value (s[i := b]) = le_value s + 256 ^ i * (uint b - uint (s ! i))"
proof (induction s arbitrary: i)
  case (Cons a s)
  show ?case
  proof (cases i)
    case (Suc j)
    then have "le_value (s[j := b]) = le_value s + 256 ^ j * (uint b - uint (s ! j))"
      using Cons by simp
    then show ?thesis using Suc by (simp add: distrib_left mult.assoc)
  qed simp
qed simp

lemma le_value_top_byte:
  assumes "length s = 32" "le_value s < 2 ^ 255"
  shows "uint (s ! 31) < 128"
proof -
  have "drop 31 s = [s ! 31]"
    using assms(1) Cons_nth_drop_Suc [of 31 s] by simp
  then have "uint (s ! 31) = le_value s div 256 ^ 31"
    using le_value_drop [of 31 s] by simp
  also have "\<dots> < 128" using assms(2) by simp
  finally show ?thesis .
qed

lemma xor_top_bit:
  fixes b :: u8
  assumes "uint b < 128" "c = 0 \<or> c = 1"
  shows "uint (b XOR ucast (push_bit 7 (word_of_int c :: i32))) = uint b + 128 * c"
proof -
  have "b XOR 128 = b + 128"
  proof -
    have "take_bit 7 b = b"
      using assms(1) by (simp add: word_uint_eq_iff unsigned_take_bit_eq take_bit_int_eq_self)
    then have n: "\<not> bit b 7" by (metis bit_take_bit_iff less_irrefl)
    have "bit (128 :: u8) k \<longleftrightarrow> k = 7" for k
      using bit_exp_iff [where 'a="8 word", of 7 k] by auto
    then have d: "\<not> bit b k \<or> \<not> bit (128 :: u8) k" for k using n by auto
    have "b XOR 128 = b OR 128" using d by (intro bit_word_eqI) (auto simp: bit_simps)
    also have "\<dots> = b + 128" using d by (intro disjunctive_add [symmetric])
    finally show ?thesis .
  qed
  moreover have "uint (b + 128) = uint b + 128"
    using assms(1) by (simp add: uint_word_ariths mod_pos_pos_trivial)
  moreover have "(ucast (push_bit 7 (1 :: i32)) :: u8) = 128" "(ucast (push_bit 7 (0 :: i32)) :: u8) = 0"
    by (simp_all add: push_bit_eq_mult)
  ultimately show ?thesis using assms(2) by auto
qed

lemma fe_rep_bytes:
  assumes "fe.rep 1 f v"
  shows "fe_within 73819750 36909875 f" "fe_val f mod fe_p = Rep_gf v"
  using assms fe_terms_2 [OF fe_terms_mono, of 1 f]
  by (auto simp: fe.rep_def fe_gf_def Rep_gf_of_int)

text \<open>y in the low 255 bits, the parity of x in the top bit.\<close>

lemma point_bytes:
  assumes "fe.rep 1 x v" "fe.rep 1 y w"
  defines "s \<equiv> fe_tobytes y"
  shows "le_value (s[31 := s ! 31 XOR ucast (push_bit 7 (fe_isnegative x))]) =
      Rep_gf w + 2 ^ 255 * (Rep_gf v mod 2)"
proof -
  have s: "le_value s = Rep_gf w" "length s = 32"
    using fe_tobytes_correct [OF fe_rep_bytes(1) [OF assms(2)]] fe_rep_bytes(2) [OF assms(2)]
    by (simp_all add: s_def)
  have "Rep_gf w < fe_p" using Rep_gf [of w] by simp
  then have top: "uint (s ! 31) < 128"
    using s by (intro le_value_top_byte) (simp_all add: fe_p_def)
  have "sint (fe_isnegative x) = Rep_gf v mod 2"
    using fe_isnegative_correct [OF fe_rep_bytes(1) [OF assms(1)]] fe_rep_bytes(2) [OF assms(1)]
    by simp
  then have n: "fe_isnegative x = word_of_int (Rep_gf v mod 2)"
    by (metis word_as_sint)
  have "Rep_gf v mod 2 = 0 \<or> Rep_gf v mod 2 = 1" by auto
  then show ?thesis
    using s top unfolding n by (subst le_value_update) (simp_all add: xor_top_bit)
qed

lemma fe_rep_invert: "fe.rep 1 z v \<Longrightarrow> fe.rep 1 (fe_invert z) (v ^ (2 ^ 255 - 21))"
  using fe.pw_rep [OF fe_invert_pw [of 1 z v]] by simp

lemma ge_tobytes_rep:
  assumes "p2_rep h (X, Y, Z, T)"
  defines "w \<equiv> Z ^ (2 ^ 255 - 21)"
  shows "le_value (ge_tobytes h) = Rep_gf (Y * w) + 2 ^ 255 * (Rep_gf (X * w) mod 2)"
    and "length (ge_tobytes h) = 32"
proof -
  have r: "fe.rep 1 (p2_X h) X" "fe.rep 1 (p2_Y h) Y" "fe.rep 1 (fe_invert (p2_Z h)) w"
    unfolding w_def using assms(1) fe_rep_invert by simp_all
  have m: "fe.rep 1 (fe_mul (p2_X h) (fe_invert (p2_Z h))) (X * w)"
    "fe.rep 1 (fe_mul (p2_Y h) (fe_invert (p2_Z h))) (Y * w)"
    by (rule fe_rep_mul [OF r(1,3)] fe_rep_mul [OF r(2,3)]; simp)+
  show "le_value (ge_tobytes h) = Rep_gf (Y * w) + 2 ^ 255 * (Rep_gf (X * w) mod 2)"
    unfolding ge_tobytes_def Let_def by (rule point_bytes [OF m])
  show "length (ge_tobytes h) = 32"
    using fe_tobytes_correct(2) [OF fe_rep_bytes(1) [OF m(2)]]
    by (simp add: ge_tobytes_def Let_def)
qed

lemma ge_p3_tobytes_p2: "p3_rep h P \<Longrightarrow> ge_p3_tobytes h = ge_tobytes (ge_p3_to_p2 h)"
  using fe_copy_id by (cases P) (auto simp: ge_p3_tobytes_def ge_tobytes_def ge_p3_to_p2_def
      fe.rep_def fe_terms_def fe_within_def)

section \<open>Decoding a point\<close>

lemma fe_isnonzero_gf:
  "fe_within 73819750 36909875 f \<Longrightarrow> fe_isnonzero f = (if fe_gf f = 0 then 0 else - 1)"
  by (simp add: fe_isnonzero_correct fe_gf_0)

text \<open>The candidate of the decoder: u v^3 (u v^7)^((p-5)/8).\<close>

definition ed_root :: "gf \<Rightarrow> gf \<Rightarrow> gf" where
  "ed_root u v = (u * v ^ 7) ^ (2 ^ 252 - 3) * v ^ 3 * u"

definition ed_u :: "gf \<Rightarrow> gf" where "ed_u y = y * y - 1"
definition ed_v :: "gf \<Rightarrow> gf" where "ed_v y = y * y * ed_d + 1"

lemma ed_point_on_curve:
  assumes "x * x * ed_v y = ed_u y"
  shows "on_curve (x, y, 1, x * y)"
proof -
  have "x * x * (y * y * ed_d + 1) = y * y - 1" using assms by (simp add: ed_v_def ed_u_def)
  then have "y * y - x * x = 1 + x * x * (y * y * ed_d)" by (simp add: algebra_simps)
  then show ?thesis by (simp add: algebra_simps)
qed


text \<open>The steps of the decoder up to the two checks.\<close>

lemma decode_root:
  assumes Y: "fe.rep 1 Y y"
  defines "u \<equiv> fe_sub (fe_sq Y) fe_1" and "v \<equiv> fe_add (fe_mul (fe_sq Y) ge_d) fe_1"
  defines "v3 \<equiv> fe_mul (fe_sq v) v"
  defines "X \<equiv> fe_mul (fe_mul (fe_pow22523 (fe_mul (fe_mul (fe_sq v3) v) u)) v3) u"
  shows "fe.rep 2 u (ed_u y)" "fe.rep 2 v (ed_v y)" "fe.rep 1 X (ed_root (ed_u y) (ed_v y))"
proof -
  have yy: "fe.rep 1 (fe_sq Y) (y * y)" using fe.rep_sq [OF Y] by simp
  show u: "fe.rep 2 u (ed_u y)"
    unfolding u_def ed_u_def by (rule fe_rep_sums(2) [OF yy fe_rep_consts(2)])
  have d: "fe.rep 1 (fe_mul (fe_sq Y) ge_d) (y * y * ed_d)"
    by (rule fe_rep_mul [OF yy ge_constants(1)]) simp_all
  show v: "fe.rep 2 v (ed_v y)"
    unfolding v_def ed_v_def by (rule fe_rep_sums(1) [OF d fe_rep_consts(2)])
  have vv: "fe.rep 1 (fe_sq v) (ed_v y * ed_v y)" using fe.rep_sq [OF v] by simp
  have v3: "fe.rep 1 v3 (ed_v y ^ 3)"
    unfolding v3_def using fe_rep_mul [OF vv v] by (simp add: power3_eq_cube)
  have v6: "fe.rep 1 (fe_sq v3) (ed_v y ^ 3 * ed_v y ^ 3)" using fe.rep_sq [OF v3] by simp
  have v7: "fe.rep 1 (fe_mul (fe_sq v3) v) (ed_v y ^ 3 * ed_v y ^ 3 * ed_v y)"
    by (rule fe_rep_mul [OF v6 v]) simp_all
  have "ed_v y ^ 3 * ed_v y ^ 3 * ed_v y = ed_v y ^ 7"
    by (simp flip: power_add power_Suc2)
  with v7 have uv7: "fe.rep 1 (fe_mul (fe_mul (fe_sq v3) v) u) (ed_u y * ed_v y ^ 7)"
    using fe_rep_mul [OF v7 u] by (simp add: mult.commute)
  note p = fe.pw_rep [OF fe_pow22523_pw [OF uv7]]
  have a: "fe.rep 1 (fe_mul (fe_pow22523 (fe_mul (fe_mul (fe_sq v3) v) u)) v3)
      ((ed_u y * ed_v y ^ 7) ^ (2 ^ 252 - 3) * ed_v y ^ 3)"
    by (rule fe_rep_mul [OF p v3]) simp_all
  show "fe.rep 1 X (ed_root (ed_u y) (ed_v y))"
    unfolding X_def ed_root_def by (rule fe_rep_mul [OF a u]) simp_all
qed

lemma decode_check:
  assumes Y: "fe.rep 1 Y y" and W: "fe.rep 1 W w"
  defines "u \<equiv> fe_sub (fe_sq Y) fe_1"
  shows "fe_isnonzero (fe_sub W u) = (if w = ed_u y then 0 else - 1)"
    and "fe_isnonzero (fe_add W u) = (if w = - ed_u y then 0 else - 1)"
proof -
  have yy: "fe.rep 1 (fe_sq Y) (y * y)" using fe.rep_sq [OF Y] by simp
  have b: "fe_within 33889976 16944988 (fe_sq Y)" "fe_within 33889976 16944988 W"
    "fe_within 1 0 fe_1"
    using yy W by (simp_all add: fe.rep_def fe_terms_1 fe_within_0_1)
  have u: "fe_within (33889976 + 1) (16944988 + 0) u" "fe_val u = fe_val (fe_sq Y) - 1"
    unfolding u_def using fe_sub_exact [OF b(1,3)] by simp_all
  have s: "fe_within 73819750 36909875 (fe_sub W u)" "fe_val (fe_sub W u) = fe_val W - fe_val u"
    using fe_sub_exact [OF b(2) u(1)] by (auto elim: fe_within_mono)
  have a: "fe_within 73819750 36909875 (fe_add W u)" "fe_val (fe_add W u) = fe_val W + fe_val u"
    using fe_add_exact [OF b(2) u(1)] by (auto elim: fe_within_mono)
  have g: "fe_gf u = ed_u y" "fe_gf W = w"
    using yy W u(2) by (simp_all add: fe.rep_def fe_gf_def ed_u_def)
  have "fe_gf (fe_sub W u) = w - ed_u y" "fe_gf (fe_add W u) = w + ed_u y"
    using s(2) a(2) g by (simp_all add: fe_gf_def)
  then show "fe_isnonzero (fe_sub W u) = (if w = ed_u y then 0 else - 1)"
    "fe_isnonzero (fe_add W u) = (if w = - ed_u y then 0 else - 1)"
    using s(1) a(1) by (simp_all add: fe_isnonzero_gf eq_neg_iff_add_eq_0)
qed

lemma Rep_gf_neg: "Rep_gf (- x) = (if x = 0 then 0 else fe_p - Rep_gf x)"
proof (cases "x = 0")
  case False
  then have "Rep_gf x \<noteq> 0" by (metis Rep_gf_inject zero_gf.rep_eq)
  moreover have "0 \<le> Rep_gf x" "Rep_gf x < fe_p" using Rep_gf [of x] by simp_all
  ultimately have "(fe_p - Rep_gf x) mod fe_p = fe_p - Rep_gf x"
    by (intro mod_pos_pos_trivial) simp_all
  then show ?thesis using False by (simp add: uminus_gf.rep_eq)
qed (simp add: zero_gf.rep_eq)

lemma fe_p_odd: "fe_p mod 2 = 1"
  by (simp add: fe_p_def)

text \<open>The sign test of the decoder compares two bits.\<close>

lemma sign_test:
  assumes "fe.rep 1 X x"
  shows "fe_isnegative X = ucast (drop_bit 7 (b :: u8)) \<longleftrightarrow> Rep_gf x mod 2 = uint b div 128"
proof -
  have "sint (fe_isnegative X) = Rep_gf x mod 2"
    using fe_isnegative_correct [OF fe_rep_bytes(1) [OF assms]] fe_rep_bytes(2) [OF assms] by simp
  moreover have "sint (ucast (drop_bit 7 b) :: i32) = uint b div 128"
  proof -
    have d: "uint (drop_bit 7 b) = uint b div 128"
      using uint_lt2p [of b]
      by (subst unsigned_drop_bit_eq) (simp add: drop_bit_eq_div take_bit_int_eq_self)
    have "0 \<le> uint b div 128" "uint b div 128 < 2"
      using uint_lt2p [of b] by (simp_all add: pos_imp_zdiv_nonneg_iff)
    then have "fits 32 (uint b div 128)" by (intro fits_abs) simp
    then show ?thesis unfolding ucast_eq d by (rule sint_of_int_32)
  qed
  ultimately show ?thesis by (metis word_as_sint)
qed

lemma sign_fixed:
  assumes "fe.rep 1 X x"
  shows "\<exists>z. fe.rep 1 (if fe_isnegative X = ucast (drop_bit 7 (b :: u8)) then fe_neg X else X) z \<and>
    z * z = x * x \<and> (z = 0 \<or> Rep_gf z mod 2 \<noteq> uint b div 128)"
proof (cases "fe_isnegative X = ucast (drop_bit 7 b)")
  case True
  then have p: "Rep_gf x mod 2 = uint b div 128" by (simp add: sign_test [OF assms])
  have "- x = 0 \<or> Rep_gf (- x) mod 2 \<noteq> uint b div 128"
  proof (cases "x = 0")
    case False
    then have "Rep_gf (- x) mod 2 = (fe_p - Rep_gf x) mod 2" by (simp add: Rep_gf_neg)
    also have "\<dots> \<noteq> Rep_gf x mod 2" using fe_p_odd by presburger
    finally show ?thesis using p by simp
  qed simp
  with True show ?thesis using fe_rep_neg [OF assms] by (intro exI [of _ "- x"]) simp
next
  case False
  then show ?thesis using assms by (intro exI [of _ x]) (simp add: sign_test [OF assms])
qed

lemma fe_frombytes_rep:
  assumes "length s = 32"
  shows "fe.rep 1 (fe_frombytes s) (of_int (le_value s mod 2 ^ 255))"
  using fe_frombytes_correct [OF assms]
  by (simp add: fe.rep_def fe_terms_1 fe_gf_def gf_of_int_eq)

text \<open>
  The decoder accepts exactly when its candidate squares to u/v up to sign, and then
  returns a point of the curve with the decoded y and the parity opposite to the top bit.
\<close>

lemma ge_frombytes_correct:
  fixes s h
  assumes s: "length s = 32"
  defines "y \<equiv> of_int (le_value s mod 2 ^ 255)"
  defines "c \<equiv> ed_root (ed_u y) (ed_v y)"
  defines "good \<equiv> c * c * ed_v y = ed_u y \<or> c * c * ed_v y = - ed_u y"
  shows "fst (ge_frombytes_negate_vartime h s) = (if good then 0 else - 1)"
    and "good \<Longrightarrow> \<exists>x. p3_rep (snd (ge_frombytes_negate_vartime h s)) (x, y, 1, x * y) \<and>
      on_curve (x, y, 1, x * y) \<and> (x = 0 \<or> Rep_gf x mod 2 \<noteq> uint (s ! 31) div 128)"
proof -
  define Y where "Y = fe_frombytes s"
  have Y: "fe.rep 1 Y y" unfolding Y_def y_def by (rule fe_frombytes_rep [OF s])
  define u where "u = fe_sub (fe_sq Y) fe_1"
  define v where "v = fe_add (fe_mul (fe_sq Y) ge_d) fe_1"
  define v3 where "v3 = fe_mul (fe_sq v) v"
  define X where "X = fe_mul (fe_mul (fe_pow22523 (fe_mul (fe_mul (fe_sq v3) v) u)) v3) u"
  define W where "W = fe_mul (fe_sq X) v"
  note root = decode_root [OF Y, folded u_def v_def, folded v3_def, folded X_def]
  have W: "fe.rep 1 W (c * c * ed_v y)"
    unfolding W_def c_def using fe_rep_mul [OF fe.rep_sq [OF root(3)] root(2)] by simp
  note k = decode_check [OF Y W, folded u_def]
  define X' where "X' = (if fe_isnonzero (fe_sub W u) \<noteq> 0 then fe_mul X sqrtm1 else X)"
  define X'' where "X'' =
    (if fe_isnegative X' = ucast (drop_bit 7 (s ! 31)) then fe_neg X' else X')"
  have code: "ge_frombytes_negate_vartime h s =
    (if fe_isnonzero (fe_sub W u) \<noteq> 0 \<and> fe_isnonzero (fe_add W u) \<noteq> 0
     then (- 1, \<lparr>p3_X = X, p3_Y = Y, p3_Z = fe_1, p3_T = p3_T h\<rparr>)
     else (0, \<lparr>p3_X = X'', p3_Y = Y, p3_Z = fe_1, p3_T = fe_mul X'' Y\<rparr>))"
    by (simp only: ge_frombytes_negate_vartime_def Let_def Y_def u_def v_def v3_def X_def W_def
        X'_def X''_def)
  show "fst (ge_frombytes_negate_vartime h s) = (if good then 0 else - 1)"
    unfolding code k good_def by simp
  assume good: good
  define x where "x = (if c * c * ed_v y = ed_u y then c else c * ed_i)"
  have "fe.rep 1 (fe_mul X sqrtm1) (c * ed_i)"
    unfolding c_def by (rule fe_rep_mul [OF root(3) ge_constants(3)]) simp_all
  then have "fe.rep 1 X' x" using root(3) unfolding X'_def k x_def c_def by auto
  then obtain z where z: "fe.rep 1 X'' z" "z * z = x * x"
    "z = 0 \<or> Rep_gf z mod 2 \<noteq> uint (s ! 31) div 128"
    using sign_fixed unfolding X''_def by blast
  have "x * x * ed_v y = ed_u y"
  proof (cases "c * c * ed_v y = ed_u y")
    case False
    then have "c * c * ed_v y = - ed_u y" using good unfolding good_def by simp
    moreover have "c * ed_i * (c * ed_i) * ed_v y = (ed_i * ed_i) * (c * c * ed_v y)"
      by (simp only: ac_simps)
    ultimately show ?thesis using False by (simp add: x_def ed_i_square)
  qed (simp add: x_def)
  then have "on_curve (z, y, 1, z * y)" by (intro ed_point_on_curve) (simp only: z(2))
  moreover have "fe.rep 1 (fe_mul X'' Y) (z * y)" by (rule fe_rep_mul [OF z(1) Y]) simp_all
  then have "p3_rep (snd (ge_frombytes_negate_vartime h s)) (z, y, 1, z * y)"
    using good z(1) Y fe_rep_consts(2) unfolding code k good_def by auto
  ultimately show "\<exists>x. p3_rep (snd (ge_frombytes_negate_vartime h s)) (x, y, 1, x * y) \<and>
      on_curve (x, y, 1, x * y) \<and> (x = 0 \<or> Rep_gf x mod 2 \<noteq> uint (s ! 31) div 128)"
    using z(3) by blast
qed

section \<open>Properties\<close>

text \<open>
  C18: ge_add.c and ge_sub.c followed by ge_p1p1_to_p3.c compute the sum and the difference
  on the twisted Edwards curve: the result has reduced limbs, lies on the curve and obeys
  the affine addition law.
\<close>

theorem ge_add_sub_group:
  assumes "p3_rep p P" "ca_rep q Q" "on_curve P" "on_curve Q"
  shows "p3_rep (ge_p1p1_to_p3 (ge_add p q)) (ext_add P Q) \<and>
    p3_rep (ge_p1p1_to_p3 (ge_sub p q)) (ext_add P (ext_neg Q)) \<and>
    on_curve (ext_add P Q) \<and> on_curve (ext_add P (ext_neg Q)) \<and>
    ed_law P Q (ext_add P Q) \<and> ed_law P (ext_neg Q) (ext_add P (ext_neg Q))"
  using assms ge_add_rep p1p1_to_p3_rep ext_add_on_curve ext_neg_on_curve ext_add_law by blast

theorem ge_add_sub_group_witness:
  "p3_rep (ge_p1p1_to_p3 (ge_add ge_p3_0 (ge_p3_to_cached ge_p3_0))) (ext_add ext_zero ext_zero)"
  using ge_add_sub_group [OF p3_0_rep p3_to_cached_rep [OF p3_0_rep] ext_zero_on_curve
      ext_zero_on_curve] by blast

text \<open>C37: ge_madd.c and ge_msub.c do the same with a precomputed affine point.\<close>

theorem ge_madd_msub_group:
  assumes "p3_rep p P" "pc_rep q Q" "on_curve P" "on_curve Q"
  shows "p3_rep (ge_p1p1_to_p3 (ge_madd p q)) (ext_add P Q) \<and>
    p3_rep (ge_p1p1_to_p3 (ge_msub p q)) (ext_add P (ext_neg Q)) \<and>
    on_curve (ext_add P Q) \<and> ed_law P Q (ext_add P Q)"
  using assms ge_madd_rep p1p1_to_p3_rep ext_add_on_curve ext_add_law by blast

theorem ge_madd_msub_group_witness:
  "p3_rep (ge_p1p1_to_p3 (ge_msub ge_p3_0 ge_precomp_0)) (ext_add ext_zero (ext_neg ext_zero))"
  using ge_madd_msub_group [OF p3_0_rep precomp_0_rep ext_zero_on_curve ext_zero_on_curve] by blast

text \<open>
  C19: ge_p2_dbl.c and ge_p3_dbl.c double: the result has reduced limbs, obeys the affine law
  for the sum of the point with itself and is the same affine point as the general addition
  gives.
\<close>

theorem ge_dbl_group:
  assumes "p2_rep p P" "p3_rep q Q" "on_curve P" "on_curve Q"
  shows "p3_rep (ge_p1p1_to_p3 (ge_p2_dbl p)) (ext_dbl P) \<and>
    p3_rep (ge_p1p1_to_p3 (ge_p3_dbl q)) (ext_dbl Q) \<and>
    on_curve (ext_dbl P) \<and> ed_law P P (ext_dbl P) \<and> ext_eq (ext_dbl P) (ext_add P P) \<and>
    on_curve (ext_dbl Q) \<and> ed_law Q Q (ext_dbl Q) \<and> ext_eq (ext_dbl Q) (ext_add Q Q)"
  using assms p2_dbl_rep p3_dbl_rep p1p1_to_p3_rep ext_dbl_on_curve ext_dbl_law ext_dbl_add by blast

text \<open>The point (i, 0) of order four, in both representations.\<close>

theorem ge_dbl_group_witness:
  "p3_rep (ge_p1p1_to_p3 (ge_p2_dbl \<lparr>p2_X = sqrtm1, p2_Y = fe_0, p2_Z = fe_1\<rparr>)) (ext_dbl (ed_i, 0, 1, 0)) \<and>
    p3_rep (ge_p1p1_to_p3 (ge_p3_dbl \<lparr>p3_X = sqrtm1, p3_Y = fe_0, p3_Z = fe_1, p3_T = fe_0\<rparr>))
      (ext_dbl (ed_i, 0, 1, 0))"
proof -
  have p: "p2_rep \<lparr>p2_X = sqrtm1, p2_Y = fe_0, p2_Z = fe_1\<rparr> (ed_i, 0, 1, 0)"
    and q: "p3_rep \<lparr>p3_X = sqrtm1, p3_Y = fe_0, p3_Z = fe_1, p3_T = fe_0\<rparr> (ed_i, 0, 1, 0)"
    using ge_constants(3) fe_rep_consts by simp_all
  have "on_curve (ed_i, 0, 1, 0)" by (simp add: ed_i_square)
  from ge_dbl_group [OF p q this this] show ?thesis by blast
qed

text \<open>
  C38: ge_p3_tobytes.c encodes y = Y/Z in the low 255 bits and the parity of x = X/Z in the
  top bit, with 1/Z computed as Z^(p-2).
\<close>

theorem ge_p3_tobytes_encodes:
  assumes "p3_rep h (X, Y, Z, T)"
  shows "length (ge_p3_tobytes h) = 32 \<and> le_value (ge_p3_tobytes h) =
    Rep_gf (Y * Z ^ (2 ^ 255 - 21)) + 2 ^ 255 * (Rep_gf (X * Z ^ (2 ^ 255 - 21)) mod 2)"
  using ge_tobytes_rep [OF p3_to_p2_rep [OF assms]] ge_p3_tobytes_p2 [OF assms] by simp

theorem ge_p3_tobytes_encodes_witness:
  "le_value (ge_p3_tobytes ge_p3_0) =
    Rep_gf (1 * 1 ^ (2 ^ 255 - 21)) + 2 ^ 255 * (Rep_gf (0 * 1 ^ (2 ^ 255 - 21)) mod 2)"
  using ge_p3_tobytes_encodes [OF p3_0_rep [unfolded ext_zero_def]] by blast

end
