(* ===== verification/Ge_Scalarmult.thy ===== *)
theory Ge_Scalarmult
  imports Ge
begin

text \<open>
  Scalar multiplication: ge_scalarmult_base.c (a signed radix-16 recoding and a table of
  multiples read in constant time) and ge_double_scalarmult.c (two signed sliding windows).
  The tables base.h and base2.h are arguments here; the theory Ge_Base holds their contents.
\<close>

type_synonym i8 = "8 word"

section \<open>ge\_scalarmult\_base.c\<close>

definition equal_c :: "i8 \<Rightarrow> i8 \<Rightarrow> u8" where
  "equal_c b c =
     (let ub = b; uc = c;
          x = ub XOR uc;
          y = (ucast x :: 32 word);
          y = y - 1;
          y = drop_bit 31 y
      in ucast y)"

definition negative :: "i8 \<Rightarrow> u8" where
  "negative b =
     (let x = (scast b :: 64 word);
          x = drop_bit 63 x
      in ucast x)"

definition ge_cmov :: "ge_precomp \<Rightarrow> ge_precomp \<Rightarrow> u8 \<Rightarrow> ge_precomp" where
  "ge_cmov t u b =
    \<lparr>yplusx = fe_cmov (yplusx t) (yplusx u) (ucast b),
     yminusx = fe_cmov (yminusx t) (yminusx u) (ucast b),
     xy2d = fe_cmov (xy2d t) (xy2d u) (ucast b)\<rparr>"

definition ge_select :: "ge_precomp list list \<Rightarrow> nat \<Rightarrow> i8 \<Rightarrow> ge_precomp" where
  "ge_select base pos b =
     (let bnegative = negative b;
          babs = ucast ((scast b :: i32) - push_bit 1 ((- ucast bnegative) AND scast b));
          t = ge_precomp_0;
          t = ge_cmov t (base ! pos ! 0) (equal_c babs 1);
          t = ge_cmov t (base ! pos ! 1) (equal_c babs 2);
          t = ge_cmov t (base ! pos ! 2) (equal_c babs 3);
          t = ge_cmov t (base ! pos ! 3) (equal_c babs 4);
          t = ge_cmov t (base ! pos ! 4) (equal_c babs 5);
          t = ge_cmov t (base ! pos ! 5) (equal_c babs 6);
          t = ge_cmov t (base ! pos ! 6) (equal_c babs 7);
          t = ge_cmov t (base ! pos ! 7) (equal_c babs 8);
          minust = \<lparr>yplusx = fe_copy (yminusx t), yminusx = fe_copy (yplusx t),
                    xy2d = fe_neg (xy2d t)\<rparr>
      in ge_cmov t minust bnegative)"

text \<open>The digits: first the nibbles, then one pass of carries into the range -8..8.\<close>

definition nibbles :: "u8 list \<Rightarrow> i8 list" where
  "nibbles a = concat (map (\<lambda>i. [drop_bit 0 (a ! i) AND 15, drop_bit 4 (a ! i) AND 15]) [0..<32])"

fun recode_loop :: "i8 list \<Rightarrow> i8 \<Rightarrow> i8 list" where
  "recode_loop [] carry = []"
| "recode_loop [e] carry = [e + carry]"
| "recode_loop (e # es) carry =
     (let e = e + carry;
          carry = e + 8;
          carry = signed_drop_bit 4 carry;
          e = e - push_bit 4 carry
      in e # recode_loop es carry)"

definition recode :: "u8 list \<Rightarrow> i8 list" where
  "recode a = recode_loop (nibbles a) 0"

definition add_digit :: "ge_precomp list list \<Rightarrow> i8 list \<Rightarrow> ge_p3 \<Rightarrow> nat \<Rightarrow> ge_p3" where
  "add_digit base e h i =
     (let t = ge_select base (i div 2) (e ! i);
          r = ge_madd h t
      in ge_p1p1_to_p3 r)"

definition ge_scalarmult_base_with :: "ge_precomp list list \<Rightarrow> u8 list \<Rightarrow> ge_p3" where
  "ge_scalarmult_base_with base a =
     (let e = recode a;
          h = ge_p3_0;
          h = foldl (add_digit base e) h (filter odd [0..<64]);
          r = ge_p3_dbl h; s = ge_p1p1_to_p2 r;
          r = ge_p2_dbl s; s = ge_p1p1_to_p2 r;
          r = ge_p2_dbl s; s = ge_p1p1_to_p2 r;
          r = ge_p2_dbl s; h = ge_p1p1_to_p3 r
      in foldl (add_digit base e) h (filter even [0..<64]))"

section \<open>ge\_double\_scalarmult.c\<close>

text \<open>The carry loop of \<open>slide\<close>: the first zero from \<open>k\<close> on becomes 1, the ones before it 0.\<close>

function slide_carry :: "nat \<Rightarrow> i8 list \<Rightarrow> i8 list" where
  "slide_carry k r =
     (if k < 256 then
        (if r ! k = 0 then r[k := 1] else slide_carry (k + 1) (r[k := 0]))
      else r)"
  by pat_completeness auto
termination by (relation "measure (\<lambda>(k, r). 256 - k)") auto

declare slide_carry.simps [simp del]

text \<open>The loop over the window, from \<open>b\<close> up to 6; \<open>break\<close> returns.\<close>

function slide_window :: "nat \<Rightarrow> nat \<Rightarrow> i8 list \<Rightarrow> i8 list" where
  "slide_window i b r =
     (if b \<le> 6 \<and> i + b < 256 then
        (if r ! (i + b) \<noteq> 0 then
           (if sint (r ! i) + sint (r ! (i + b)) * 2 ^ b \<le> 15 then
              slide_window i (b + 1)
                ((r[i := r ! i + push_bit b (r ! (i + b))])[i + b := 0])
            else if sint (r ! i) - sint (r ! (i + b)) * 2 ^ b \<ge> - 15 then
              slide_window i (b + 1)
                (slide_carry (i + b) (r[i := r ! i - push_bit b (r ! (i + b))]))
            else r)
         else slide_window i (b + 1) r)
      else r)"
  by pat_completeness auto
termination by (relation "measure (\<lambda>(i, b, r). 7 - b)") auto

declare slide_window.simps [simp del]

definition slide :: "u8 list \<Rightarrow> i8 list" where
  "slide a =
     (let r = map (\<lambda>i. 1 AND drop_bit (i mod 8) (a ! (i div 8))) [0..<256]
      in foldl (\<lambda>r i. if r ! i \<noteq> 0 then slide_window i 1 r else r) r [0..<256])"

text \<open>The odd multiples A, 3A, ..., 15A.\<close>

definition odd_multiples :: "ge_p3 \<Rightarrow> ge_cached list" where
  "odd_multiples A =
     (let A0 = ge_p3_to_cached A;
          A2 = ge_p1p1_to_p3 (ge_p3_dbl A);
          A1 = ge_p3_to_cached (ge_p1p1_to_p3 (ge_add A2 A0));
          A2' = ge_p3_to_cached (ge_p1p1_to_p3 (ge_add A2 A1));
          A3 = ge_p3_to_cached (ge_p1p1_to_p3 (ge_add A2 A2'));
          A4 = ge_p3_to_cached (ge_p1p1_to_p3 (ge_add A2 A3));
          A5 = ge_p3_to_cached (ge_p1p1_to_p3 (ge_add A2 A4));
          A6 = ge_p3_to_cached (ge_p1p1_to_p3 (ge_add A2 A5));
          A7 = ge_p3_to_cached (ge_p1p1_to_p3 (ge_add A2 A6))
      in [A0, A1, A2', A3, A4, A5, A6, A7])"

text \<open>The number of positions left when the search for the highest digit stops.\<close>

fun top_digit :: "i8 list \<Rightarrow> i8 list \<Rightarrow> nat \<Rightarrow> nat" where
  "top_digit a b 0 = 0"
| "top_digit a b (Suc n) = (if a ! n \<noteq> 0 \<or> b ! n \<noteq> 0 then Suc n else top_digit a b n)"

definition double_step ::
  "ge_cached list \<Rightarrow> ge_precomp list \<Rightarrow> i8 \<Rightarrow> i8 \<Rightarrow> ge_p2 \<Rightarrow> ge_p2" where
  "double_step Ai Bi ad bd r =
     (let t = ge_p2_dbl r;
          t = (if 0 < sint ad then ge_add (ge_p1p1_to_p3 t) (Ai ! nat (sint ad div 2))
               else if sint ad < 0 then ge_sub (ge_p1p1_to_p3 t) (Ai ! nat ((- sint ad) div 2))
               else t);
          t = (if 0 < sint bd then ge_madd (ge_p1p1_to_p3 t) (Bi ! nat (sint bd div 2))
               else if sint bd < 0 then ge_msub (ge_p1p1_to_p3 t) (Bi ! nat ((- sint bd) div 2))
               else t)
      in ge_p1p1_to_p2 t)"

fun double_loop ::
  "ge_cached list \<Rightarrow> ge_precomp list \<Rightarrow> i8 list \<Rightarrow> i8 list \<Rightarrow> nat \<Rightarrow> ge_p2 \<Rightarrow> ge_p2" where
  "double_loop Ai Bi a b 0 r = r"
| "double_loop Ai Bi a b (Suc i) r =
     double_loop Ai Bi a b i (double_step Ai Bi (a ! i) (b ! i) r)"

definition ge_double_scalarmult_with ::
  "ge_precomp list \<Rightarrow> u8 list \<Rightarrow> ge_p3 \<Rightarrow> u8 list \<Rightarrow> ge_p2" where
  "ge_double_scalarmult_with Bi a A b =
     (let aslide = slide a;
          bslide = slide b;
          Ai = odd_multiples A
      in double_loop Ai Bi aslide bslide (top_digit aslide bslide 256) ge_p2_0)"

section \<open>Linear combinations\<close>

text \<open>
  \<open>lin A B m n P\<close>: the coordinates \<open>P\<close> arise from \<open>A\<close> and \<open>B\<close> by the group operations, with
  \<open>A\<close> taken \<open>m\<close> times and \<open>B\<close> taken \<open>n\<close> times, up to a common factor of the coordinates.
\<close>

inductive lin :: "ext \<Rightarrow> ext \<Rightarrow> int \<Rightarrow> int \<Rightarrow> ext \<Rightarrow> bool" for A B where
  zero: "lin A B 0 0 ext_zero"
| fst: "lin A B 1 0 A"
| snd: "lin A B 0 1 B"
| add: "lin A B m n P \<Longrightarrow> lin A B m' n' Q \<Longrightarrow> lin A B (m + m') (n + n') (ext_add P Q)"
| dbl: "lin A B m n P \<Longrightarrow> lin A B (2 * m) (2 * n) (ext_dbl P)"
| neg: "lin A B m n P \<Longrightarrow> lin A B (- m) (- n) (ext_neg P)"
| scale: "lin A B m n (X, Y, Z, T) \<Longrightarrow> c * c' = 1 \<Longrightarrow> lin A B m n (c * X, c * Y, c * Z, c * T)"

lemma lin_on_curve:
  assumes "lin A B m n P" "on_curve A" "on_curve B"
  shows "on_curve P"
  using assms
proof (induction rule: lin.induct)
  case (scale m n X Y Z T c c')
  then have "Y * Y - X * X = Z * Z + ed_d * T * T" "X * Y = Z * T" by simp_all
  then have "c * c * (Y * Y - X * X) = c * c * (Z * Z + ed_d * T * T)"
    "c * c * (X * Y) = c * c * (Z * T)" by simp_all
  then show ?case by (simp add: algebra_simps)
qed (auto intro: ext_zero_on_curve ext_add_on_curve ext_dbl_on_curve ext_neg_on_curve)

lemma lin_eq: "lin A B m n P \<Longrightarrow> m = m' \<Longrightarrow> n = n' \<Longrightarrow> lin A B m' n' P"
  by simp

definition p3_lin :: "ext \<Rightarrow> ext \<Rightarrow> int \<Rightarrow> int \<Rightarrow> ge_p3 \<Rightarrow> bool" where
  "p3_lin A B m n h \<longleftrightarrow> (\<exists>P. p3_rep h P \<and> lin A B m n P)"

definition p2_lin :: "ext \<Rightarrow> ext \<Rightarrow> int \<Rightarrow> int \<Rightarrow> ge_p2 \<Rightarrow> bool" where
  "p2_lin A B m n h \<longleftrightarrow> (\<exists>P. p2_rep h P \<and> lin A B m n P)"

definition pp_lin :: "ext \<Rightarrow> ext \<Rightarrow> int \<Rightarrow> int \<Rightarrow> ge_p1p1 \<Rightarrow> bool" where
  "pp_lin A B m n h \<longleftrightarrow> (\<exists>P. pp_rep h P \<and> lin A B m n P)"

definition pc_lin :: "ext \<Rightarrow> ext \<Rightarrow> int \<Rightarrow> int \<Rightarrow> ge_precomp \<Rightarrow> bool" where
  "pc_lin A B m n h \<longleftrightarrow> (\<exists>P. pc_rep h P \<and> lin A B m n P)"

definition ca_lin :: "ext \<Rightarrow> ext \<Rightarrow> int \<Rightarrow> int \<Rightarrow> ge_cached \<Rightarrow> bool" where
  "ca_lin A B m n h \<longleftrightarrow> (\<exists>P. ca_rep h P \<and> lin A B m n P)"

lemmas lin_defs = p3_lin_def p2_lin_def pp_lin_def pc_lin_def ca_lin_def

lemma point_lin:
  "p3_lin A B 0 0 ge_p3_0" "p2_lin A B 0 0 ge_p2_0" "pc_lin A B 0 0 ge_precomp_0"
  "pp_lin A B m n r \<Longrightarrow> p3_lin A B m n (ge_p1p1_to_p3 r)"
  "pp_lin A B m n r \<Longrightarrow> p2_lin A B m n (ge_p1p1_to_p2 r)"
  "p3_lin A B m n p \<Longrightarrow> ca_lin A B m n (ge_p3_to_cached p)"
  "p3_lin A B m n p \<Longrightarrow> pp_lin A B (2 * m) (2 * n) (ge_p3_dbl p)"
  "p2_lin A B m n q \<Longrightarrow> pp_lin A B (2 * m) (2 * n) (ge_p2_dbl q)"
  unfolding lin_defs
  using p3_0_rep p2_0_rep precomp_0_rep p1p1_to_p3_rep p1p1_to_p2_rep p3_to_cached_rep
    p3_dbl_rep p2_dbl_rep lin.zero lin.dbl by metis+

lemma point_lin_sums:
  "p3_lin A B m n p \<Longrightarrow> ca_lin A B m' n' c \<Longrightarrow> pp_lin A B (m + m') (n + n') (ge_add p c)"
  "p3_lin A B m n p \<Longrightarrow> ca_lin A B m' n' c \<Longrightarrow> pp_lin A B (m - m') (n - n') (ge_sub p c)"
  "p3_lin A B m n p \<Longrightarrow> pc_lin A B m' n' d \<Longrightarrow> pp_lin A B (m + m') (n + n') (ge_madd p d)"
  "p3_lin A B m n p \<Longrightarrow> pc_lin A B m' n' d \<Longrightarrow> pp_lin A B (m - m') (n - n') (ge_msub p d)"
  unfolding lin_defs diff_conv_add_uminus
  using ge_add_rep ge_madd_rep lin.add lin.neg by metis+

section \<open>Signed digits\<close>

fun radix :: "int \<Rightarrow> i8 list \<Rightarrow> int" where
  "radix b [] = 0"
| "radix b (e # es) = sint e + b * radix b es"

lemma radix_sum: "radix b es = (\<Sum>i<length es. sint (es ! i) * b ^ i)"
proof (induction es)
  case (Cons e es)
  have "(\<Sum>i<length (e # es). sint ((e # es) ! i) * b ^ i) =
      sint e + (\<Sum>i<length es. sint (es ! i) * b ^ Suc i)"
    by (simp only: length_Cons sum.lessThan_Suc_shift nth_Cons_0 nth_Cons_Suc power_0 mult_1_right)
  with Cons show ?case by (simp add: sum_distrib_left mult.left_commute)
qed simp

lemma sint_of_int_8: "fits 8 x \<Longrightarrow> sint (word_of_int x :: i8) = x"
  using sint_of_int [where 'a=8, of x] by simp

lemma sint_sum_8:
  "fits 8 (sint v + sint w) \<Longrightarrow> sint (v + w :: i8) = sint v + sint w"
  "fits 8 (sint v - sint w) \<Longrightarrow> sint (v - w :: i8) = sint v - sint w"
  "fits 8 (sint v * 2 ^ b) \<Longrightarrow> sint (push_bit b v :: i8) = sint v * 2 ^ b"
  using sint_add [where 'a=8, of v w] sint_sub [where 'a=8, of v w]
    sint_shift_left [where 'a=8, of v b] by simp_all

lemma nibble_values:
  "sint (drop_bit 0 b AND 15 :: u8) = uint b mod 16"
  "sint (drop_bit 4 b AND 15 :: u8) = uint b div 16"
  "sint (b AND 15 :: u8) = uint b mod 16" "uint (drop_bit 4 b) mod 16 = uint b div 16"
proof -
  have m: "c AND 15 = word_of_int (uint c mod 16)" for c :: u8
    using and_mask_int [where 'a=8, of "uint c" 4] by simp
  have s: "sint (c AND 15) = uint c mod 16" for c :: u8
  proof -
    have "fits 8 (uint c mod 16)" by (intro fits_abs) (simp add: abs_of_nonneg)
    then show ?thesis unfolding m by (rule sint_of_int_8)
  qed
  have "uint (drop_bit 4 b) = uint b div 16"
    using uint_lt2p [of b]
    by (subst unsigned_drop_bit_eq) (simp add: drop_bit_eq_div take_bit_int_eq_self)
  moreover have "uint b div 16 mod 16 = uint b div 16"
    using uint_lt2p [of b] by (intro mod_pos_pos_trivial) (simp_all add: pos_imp_zdiv_nonneg_iff)
  ultimately show "sint (drop_bit 0 b AND 15 :: u8) = uint b mod 16"
    "sint (drop_bit 4 b AND 15 :: u8) = uint b div 16"
    "sint (b AND 15 :: u8) = uint b mod 16" "uint (drop_bit 4 b) mod 16 = uint b div 16"
    by (simp_all add: s)
qed

lemma nibbles_concat:
  "length a = 32 \<Longrightarrow>
    nibbles a = concat (map (\<lambda>b. [drop_bit 0 b AND 15, drop_bit 4 b AND 15]) a)"
  unfolding nibbles_def by (rule arg_cong [of _ _ concat], rule nth_equalityI) simp_all

lemma nibbles_props:
  assumes "length a = 32" "le_value a < 2 ^ 255"
  shows "radix 16 (nibbles a) = le_value a" "length (nibbles a) = 64"
    "\<forall>e\<in>set (nibbles a). 0 \<le> sint e \<and> sint e \<le> 15" "sint (last (nibbles a)) \<le> 7"
proof -
  let ?f = "\<lambda>b :: u8. [drop_bit 0 b AND 15, drop_bit 4 b AND 15]"
  note n = nibbles_concat [OF assms(1)]
  have "radix 16 (concat (map ?f s)) = le_value s" for s
    by (induction s) (simp_all add: nibble_values)
  then show "radix 16 (nibbles a) = le_value a" by (simp only: n)
  have "length (concat (map ?f s)) = 2 * length s" for s by (induction s) simp_all
  then show "length (nibbles a) = 64" using assms by (simp only: n)
  have "0 \<le> uint b div 16 \<and> uint b div 16 \<le> 15" for b :: u8
    using uint_lt2p [of b] by (simp add: pos_imp_zdiv_nonneg_iff)
  then show "\<forall>e\<in>set (nibbles a). 0 \<le> sint e \<and> sint e \<le> 15"
    unfolding n by (auto simp: nibble_values)
  have "last (concat (map ?f s)) = drop_bit 4 (last s) AND 15" if "s \<noteq> []" for s
    using that by (induction s) auto
  moreover have ne: "a \<noteq> []" using assms(1) by auto
  moreover have "last a = a ! 31" using assms(1) last_conv_nth [OF ne] by simp
  ultimately show "sint (last (nibbles a)) \<le> 7"
    using le_value_top_byte [OF assms] by (simp add: n nibble_values)
qed

lemma carry_split: "c = (x + 8) div 16 \<Longrightarrow> x - c * 2 ^ 4 = (x + 8) mod 16 - (8 :: int)"
  by (simp add: minus_div_mult_eq_mod [symmetric])

lemma carry_bit: "0 \<le> x \<Longrightarrow> x \<le> 16 \<Longrightarrow> c = (x + 8) div 16 \<Longrightarrow> c = 0 \<or> c = (1 :: int)"
  by presburger

lemma recode_step:
  fixes e c :: i8
  assumes "0 \<le> sint e" "sint e \<le> 15" "sint c = 0 \<or> sint c = 1"
  defines "e' \<equiv> e + c"
  defines "c' \<equiv> signed_drop_bit 4 (e' + 8)"
  shows "sint c' = 0 \<or> sint c' = 1"
    and "sint (e' - push_bit 4 c') + 16 * sint c' = sint e + sint c"
    and "- 8 \<le> sint (e' - push_bit 4 c') \<and> sint (e' - push_bit 4 c') < 8"
proof -
  have e: "sint e' = sint e + sint c"
    unfolding e'_def using assms(1-3) by (intro sint_sum_8 fits_abs) auto
  have "sint (8 :: i8) = 8" by simp
  moreover have "fits 8 (sint e' + 8)" using assms(1-3) e by (intro fits_abs) auto
  ultimately have e8: "sint (e' + 8) = sint e' + 8" using sint_sum_8(1) [of e' 8] by simp
  have c: "sint c' = (sint e' + 8) div 16"
    using e8 unfolding c'_def by (simp add: sint_shift_right)
  have "0 \<le> sint e'" "sint e' \<le> 16" using assms(1-3) e by auto
  then show c01: "sint c' = 0 \<or> sint c' = 1" using c by (rule carry_bit)
  have "fits 8 (sint c' * 2 ^ 4)" using c01 by (intro fits_abs) auto
  then have p: "sint (push_bit 4 c') = sint c' * 2 ^ 4" by (rule sint_sum_8(3))
  have m: "sint e' - sint c' * 2 ^ 4 = (sint e' + 8) mod 16 - 8"
    using c by (rule carry_split)
  have b: "0 \<le> (sint e' + 8) mod 16" "(sint e' + 8) mod 16 < 16" by simp_all
  have "fits 8 (sint e' - sint (push_bit 4 c'))"
    unfolding p m using b by (intro fits_abs) simp
  then have s: "sint (e' - push_bit 4 c') = sint e' - sint c' * 2 ^ 4"
    using sint_sum_8(2) by (simp only: p)
  show "sint (e' - push_bit 4 c') + 16 * sint c' = sint e + sint c" unfolding s e by simp
  show "- 8 \<le> sint (e' - push_bit 4 c') \<and> sint (e' - push_bit 4 c') < 8"
    unfolding s m using b by simp
qed

lemma recode_loop_correct:
  assumes "\<forall>e\<in>set es. 0 \<le> sint e \<and> sint e \<le> 15" "es \<noteq> []" "sint (last es) \<le> 7"
    "sint c = 0 \<or> sint c = 1"
  shows "radix 16 (recode_loop es c) = radix 16 es + sint c"
    and "\<forall>e\<in>set (recode_loop es c). - 8 \<le> sint e \<and> sint e \<le> 8"
    and "length (recode_loop es c) = length es"
  using assms
proof (induction es c rule: recode_loop.induct)
  case (2 e c)
  {
    case 1
    then have "sint (e + c) = sint e + sint c" by (intro sint_sum_8 fits_abs) auto
    then show ?case by simp
  next
    case 2
    then have "sint (e + c) = sint e + sint c" by (intro sint_sum_8 fits_abs) auto
    then show ?case using 2 by auto
  next
    case 3
    show ?case by simp
  }
next
  case (3 e e2 es c)
  define e' where "e' = e + c"
  define c' where "c' = signed_drop_bit 4 (e' + 8)"
  have s: "recode_loop (e # e2 # es) c = (e' - push_bit 4 c') # recode_loop (e2 # es) c'"
    by (simp add: Let_def e'_def c'_def)
  note IH = "3.IH" [OF refl refl refl refl, folded e'_def, folded c'_def]
  {
    case 1
    note r = recode_step [of e c, folded e'_def, folded c'_def]
    show ?case using IH(1) r 1 unfolding s by auto
  next
    case 2
    note r = recode_step [of e c, folded e'_def, folded c'_def]
    show ?case using IH(2) r 2 unfolding s by auto
  next
    case 3
    note r = recode_step [of e c, folded e'_def, folded c'_def]
    show ?case using IH(3) r 3 unfolding s by auto
  }
qed auto

text \<open>The digits of \<open>ge_scalarmult_base\<close>.\<close>

lemma recode_correct:
  assumes "length a = 32" "le_value a < 2 ^ 255"
  shows "radix 16 (recode a) = le_value a" "length (recode a) = 64"
    "i < 64 \<Longrightarrow> - 8 \<le> sint (recode a ! i) \<and> sint (recode a ! i) \<le> 8"
proof -
  note n = nibbles_props [OF assms]
  have "nibbles a \<noteq> []" using n(2) by auto
  note r = recode_loop_correct [OF n(3) this n(4), of 0]
  show "radix 16 (recode a) = le_value a" using r(1) n(1) by (simp add: recode_def)
  show l: "length (recode a) = 64" using r(3) n(2) by (simp add: recode_def)
  show "i < 64 \<Longrightarrow> - 8 \<le> sint (recode a ! i) \<and> sint (recode a ! i) \<le> 8"
    using r(2) l unfolding recode_def by (simp add: all_set_conv_all_nth)
qed

section \<open>Reading the table\<close>

lemma digit_cases:
  assumes "- 8 \<le> sint (b :: i8)" "sint b \<le> 8"
  shows "b \<in> set (map word_of_int [-8..8])"
proof -
  have "sint b \<in> set [-8..8]" using assms by (simp only: set_upto atLeastAtMost_iff)
  then show ?thesis using word_as_sint [of b] by (metis image_eqI list.set_map)
qed

definition abs_digit :: "i8 \<Rightarrow> i8" where
  "abs_digit b = ucast ((scast b :: i32) - push_bit 1 ((- ucast (negative b)) AND scast b))"

text \<open>Every digit, computed.\<close>

lemma digit_table:
  "\<forall>b\<in>set (map word_of_int [-8..8]).
     negative b = (if sint b < 0 then 1 else 0) \<and>
     list_all (\<lambda>k. equal_c (abs_digit b) (word_of_int k) = (if \<bar>sint b\<bar> = k then 1 else 0))
       [1, 2, 3, 4, 5, 6, 7, 8]"
  by code_simp

lemma digit_flags:
  assumes "- 8 \<le> sint (b :: i8)" "sint b \<le> 8"
  shows "negative b = (if sint b < 0 then 1 else 0)"
    and "equal_c (abs_digit b) 1 = (if \<bar>sint b\<bar> = 1 then 1 else 0)"
    and "equal_c (abs_digit b) 2 = (if \<bar>sint b\<bar> = 2 then 1 else 0)"
    and "equal_c (abs_digit b) 3 = (if \<bar>sint b\<bar> = 3 then 1 else 0)"
    and "equal_c (abs_digit b) 4 = (if \<bar>sint b\<bar> = 4 then 1 else 0)"
    and "equal_c (abs_digit b) 5 = (if \<bar>sint b\<bar> = 5 then 1 else 0)"
    and "equal_c (abs_digit b) 6 = (if \<bar>sint b\<bar> = 6 then 1 else 0)"
    and "equal_c (abs_digit b) 7 = (if \<bar>sint b\<bar> = 7 then 1 else 0)"
    and "equal_c (abs_digit b) 8 = (if \<bar>sint b\<bar> = 8 then 1 else 0)"
  using bspec [OF digit_table digit_cases [OF assms]] by simp_all

definition pc_len :: "ge_precomp \<Rightarrow> bool" where
  "pc_len t \<longleftrightarrow> length (yplusx t) = 10 \<and> length (yminusx t) = 10 \<and> length (xy2d t) = 10"

lemma ge_cmov_select:
  assumes "pc_len t" "pc_len u"
  shows "ge_cmov t u (if c then 1 else 0) = (if c then u else t)"
  using assms by (simp add: pc_len_def ge_cmov_def fe_cmov_select)

lemma pc_len_cmov: "pc_len (ge_cmov t u b)"
  by (simp add: pc_len_def ge_cmov_def)

lemma fe_rep_length: "fe.rep n f v \<Longrightarrow> length f = 10"
  by (auto simp: fe.rep_def fe_terms_def fe_within_def)

lemma pc_lin_len: "pc_lin A B m n t \<Longrightarrow> pc_len t"
  unfolding pc_lin_def pc_len_def by (auto elim!: pc_rep.elims intro: fe_rep_length)

lemma pc_len_0: "pc_len ge_precomp_0"
  by (simp add: pc_len_def ge_precomp_0_def)

lemma minus_lin:
  assumes "pc_lin A B m n t"
  shows "pc_lin A B (- m) (- n) \<lparr>yplusx = fe_copy (yminusx t), yminusx = fe_copy (yplusx t),
    xy2d = fe_neg (xy2d t)\<rparr>"
proof -
  obtain X Y T where P: "pc_rep t (X, Y, 1, T)" "lin A B m n (X, Y, 1, T)"
    using assms by (auto simp: pc_lin_def elim!: pc_rep.elims)
  have "pc_rep \<lparr>yplusx = fe_copy (yminusx t), yminusx = fe_copy (yplusx t),
    xy2d = fe_neg (xy2d t)\<rparr> (ext_neg (X, Y, 1, T))"
    using P(1) fe_rep_neg [of "xy2d t"] by (auto intro: fe_rep_copy)
  then show ?thesis using lin.neg [OF P(2)] unfolding pc_lin_def by blast
qed

text \<open>A row of the table: the first eight multiples of its unit.\<close>

definition row_ok :: "ext \<Rightarrow> ext \<Rightarrow> int \<Rightarrow> ge_precomp list \<Rightarrow> bool" where
  "row_ok A B k row \<longleftrightarrow> (\<forall>j<8. pc_lin A B 0 ((int j + 1) * k) (row ! j))"

text \<open>What the chain of conditional moves reads, for any row of eight entries.\<close>

definition pc_minus :: "ge_precomp \<Rightarrow> ge_precomp" where
  "pc_minus t = \<lparr>yplusx = yminusx t, yminusx = yplusx t, xy2d = fe_neg (xy2d t)\<rparr>"

definition row_entry :: "ge_precomp list \<Rightarrow> int \<Rightarrow> ge_precomp" where
  "row_entry row d =
     (if d = 0 then ge_precomp_0
      else if 0 < d then row ! nat (d - 1)
      else pc_minus (row ! nat (- d - 1)))"

lemma pc_len_minus: "pc_len t \<Longrightarrow> pc_len (pc_minus t)"
  by (simp add: pc_len_def pc_minus_def)

lemma pc_minus_copy:
  "pc_len t \<Longrightarrow> \<lparr>yplusx = fe_copy (yminusx t), yminusx = fe_copy (yplusx t), xy2d = fe_neg (xy2d t)\<rparr> =
    pc_minus t"
  by (simp add: pc_len_def pc_minus_def fe_copy_id)

lemma pc_minus_0: "pc_minus ge_precomp_0 = ge_precomp_0"
  by code_simp

lemma ge_select_entry:
  assumes b: "- 8 \<le> sint b" "sint b \<le> 8" and row: "\<forall>j<8. pc_len (base ! pos ! j)"
  shows "ge_select base pos b = row_entry (base ! pos) (sint b)"
proof -
  note f = digit_flags [OF b]
  define t where "t = (if \<bar>sint b\<bar> = 8 then base ! pos ! 7
    else if \<bar>sint b\<bar> = 7 then base ! pos ! 6 else if \<bar>sint b\<bar> = 6 then base ! pos ! 5
    else if \<bar>sint b\<bar> = 5 then base ! pos ! 4 else if \<bar>sint b\<bar> = 4 then base ! pos ! 3
    else if \<bar>sint b\<bar> = 3 then base ! pos ! 2 else if \<bar>sint b\<bar> = 2 then base ! pos ! 1
    else if \<bar>sint b\<bar> = 1 then base ! pos ! 0 else ge_precomp_0)"
  have t: "t = row_entry (base ! pos) \<bar>sint b\<bar>"
  proof -
    have "\<bar>sint b\<bar> \<in> {0, 1, 2, 3, 4, 5, 6, 7, 8}" using b by auto
    then show ?thesis unfolding t_def row_entry_def by auto
  qed
  have c: "pc_len (if c then u else v)" if "pc_len u" "pc_len v" for c u v using that by simp
  have k: "pc_len (base ! pos ! 0)" "pc_len (base ! pos ! 1)" "pc_len (base ! pos ! 2)"
    "pc_len (base ! pos ! 3)" "pc_len (base ! pos ! 4)" "pc_len (base ! pos ! 5)"
    "pc_len (base ! pos ! 6)" "pc_len (base ! pos ! 7)" using row by simp_all
  note l1 = c [OF k(1) pc_len_0] note l2 = c [OF k(2) l1] note l3 = c [OF k(3) l2]
  note l4 = c [OF k(4) l3] note l5 = c [OF k(5) l4] note l6 = c [OF k(6) l5]
  note l7 = c [OF k(7) l6] note l8 = c [OF k(8) l7]
  note sel = ge_cmov_select [OF pc_len_0 k(1)] ge_cmov_select [OF l1 k(2)]
    ge_cmov_select [OF l2 k(3)] ge_cmov_select [OF l3 k(4)] ge_cmov_select [OF l4 k(5)]
    ge_cmov_select [OF l5 k(6)] ge_cmov_select [OF l6 k(7)] ge_cmov_select [OF l7 k(8)]
  have lt: "pc_len t" unfolding t_def by (rule l8)
  let ?m = "\<lparr>yplusx = fe_copy (yminusx t), yminusx = fe_copy (yplusx t), xy2d = fe_neg (xy2d t)\<rparr>"
  have "ge_select base pos b = ge_cmov t ?m (if sint b < 0 then 1 else 0)"
    unfolding ge_select_def Let_def unfolding abs_digit_def [symmetric]
    unfolding f t_def sel ..
  also have "\<dots> = (if sint b < 0 then pc_minus t else t)"
    unfolding pc_minus_copy [OF lt] by (rule ge_cmov_select [OF lt pc_len_minus [OF lt]])
  finally show ?thesis unfolding t by (simp add: row_entry_def)
qed

lemma ge_select_correct:
  assumes b: "- 8 \<le> sint b" "sint b \<le> 8" and row: "row_ok A B k (base ! pos)"
  shows "pc_lin A B 0 (sint b * k) (ge_select base pos b)"
proof -
  have r: "pc_lin A B 0 ((int j + 1) * k) (base ! pos ! j)" if "j < 8" for j
    using row that by (simp add: row_ok_def)
  then have l: "\<forall>j<8. pc_len (base ! pos ! j)" using pc_lin_len by blast
  have p: "pc_lin A B 0 (d * k) (base ! pos ! nat (d - 1))" if "0 < d" "d \<le> 8" for d
    using r [of "nat (d - 1)"] that by simp
  have n: "pc_lin A B 0 (- d * k) (pc_minus (base ! pos ! nat (d - 1)))" if "0 < d" "d \<le> 8" for d
    using minus_lin [OF p [OF that]] l that by (simp add: pc_minus_copy)
  show ?thesis
    unfolding ge_select_entry [OF b l] row_entry_def
    using p [of "sint b"] n [of "- sint b"] point_lin(3) [of A B] b by auto
qed

section \<open>ge\_scalarmult\_base\<close>

definition base_ok :: "ext \<Rightarrow> ext \<Rightarrow> ge_precomp list list \<Rightarrow> bool" where
  "base_ok A B base \<longleftrightarrow> (\<forall>i<32. row_ok A B (256 ^ i) (base ! i))"

lemma add_digit_lin:
  assumes "base_ok A B base" "\<forall>i\<in>set is. i < 64 \<and> - 8 \<le> sint (e ! i) \<and> sint (e ! i) \<le> 8"
    and "p3_lin A B m n h"
  shows "p3_lin A B m (n + (\<Sum>i\<leftarrow>is. sint (e ! i) * 256 ^ (i div 2))) (foldl (add_digit base e) h is)"
  using assms(2,3)
proof (induction "is" arbitrary: n h)
  case (Cons i "is")
  have "i div 2 < 32" using Cons.prems(1) by auto
  then have "row_ok A B (256 ^ (i div 2)) (base ! (i div 2))"
    using assms(1) by (simp add: base_ok_def)
  then have "pc_lin A B 0 (sint (e ! i) * 256 ^ (i div 2)) (ge_select base (i div 2) (e ! i))"
    using Cons.prems(1) by (intro ge_select_correct) simp_all
  then have "p3_lin A B m (n + sint (e ! i) * 256 ^ (i div 2)) (add_digit base e h i)"
    using point_lin(4) [OF point_lin_sums(3) [OF Cons.prems(2)]]
    unfolding add_digit_def Let_def by (metis add_0_right)
  from Cons.IH [OF _ this] show ?case using Cons.prems(1) by (simp add: add.assoc)
qed simp

lemma sum_list_partition:
  "(\<Sum>x\<leftarrow>filter P xs. f x) + (\<Sum>x\<leftarrow>filter (\<lambda>x. \<not> P x) xs. f x) = (\<Sum>x\<leftarrow>xs. f x :: int)"
  by (induction xs) auto

lemma radix_halves:
  assumes "length e = 64"
  shows "16 * (\<Sum>i\<leftarrow>filter odd [0..<64]. sint (e ! i) * 256 ^ (i div 2)) +
    (\<Sum>i\<leftarrow>filter even [0..<64]. sint (e ! i) * 256 ^ (i div 2)) = radix 16 e"
proof -
  let ?f = "\<lambda>i. sint (e ! i) * 16 ^ i"
  have p: "(256 :: int) ^ j = 16 ^ (2 * j)" for j by (simp add: power_mult)
  have "map (\<lambda>i. 16 * (sint (e ! i) * 256 ^ (i div 2))) (filter odd [0..<64]) =
      map ?f (filter odd [0..<64])"
    by (rule map_cong) (auto simp: p elim!: oddE)
  moreover have "map (\<lambda>i. sint (e ! i) * 256 ^ (i div 2)) (filter even [0..<64]) =
      map ?f (filter even [0..<64])"
    by (rule map_cong) (auto simp: p elim!: evenE)
  ultimately have "16 * (\<Sum>i\<leftarrow>filter odd [0..<64]. sint (e ! i) * 256 ^ (i div 2)) +
      (\<Sum>i\<leftarrow>filter even [0..<64]. sint (e ! i) * 256 ^ (i div 2)) =
    (\<Sum>i\<leftarrow>filter odd [0..<64]. ?f i) + (\<Sum>i\<leftarrow>filter even [0..<64]. ?f i)"
    by (simp only: sum_list_const_mult [symmetric])
  also have "\<dots> = (\<Sum>i\<leftarrow>[0..<64]. ?f i)"
    using sum_list_partition [of ?f odd "[0..<64]"] by simp
  also have "\<dots> = (\<Sum>i<64. ?f i)"
    by (simp only: interv_sum_list_conv_sum_set_nat atLeast0LessThan set_upt)
  finally show ?thesis using assms by (simp only: radix_sum)
qed

lemma ge_scalarmult_base_correct:
  assumes "base_ok A B base" "length a = 32" "le_value a < 2 ^ 255"
  shows "p3_lin A B 0 (le_value a) (ge_scalarmult_base_with base a)"
proof -
  define e where "e = recode a"
  note r = recode_correct [OF assms(2,3), folded e_def]
  let ?f = "\<lambda>i. sint (e ! i) * 256 ^ (i div 2)"
  define u where "u = (\<Sum>i\<leftarrow>filter odd [0..<64]. ?f i)"
  define v where "v = (\<Sum>i\<leftarrow>filter even [0..<64]. ?f i)"
  have d: "\<forall>i\<in>set (filter P [0..<64]). i < 64 \<and> - 8 \<le> sint (e ! i) \<and> sint (e ! i) \<le> 8" for P
    using r(3) by auto
  let ?h = "foldl (add_digit base e) ge_p3_0 (filter odd [0..<64])"
  have "p3_lin A B 0 u ?h"
    using add_digit_lin [OF assms(1) d point_lin(1)] by (simp add: u_def)
  then have "p3_lin A B 0 (16 * u) (ge_p1p1_to_p3 (ge_p2_dbl (ge_p1p1_to_p2 (ge_p2_dbl
      (ge_p1p1_to_p2 (ge_p2_dbl (ge_p1p1_to_p2 (ge_p3_dbl ?h))))))))"
    using point_lin(4) [OF point_lin(8) [OF point_lin(5) [OF point_lin(8) [OF point_lin(5)
      [OF point_lin(8) [OF point_lin(5) [OF point_lin(7)]]]]]]] by fastforce
  from add_digit_lin [OF assms(1) d this, of even]
  have "p3_lin A B 0 (16 * u + v) (ge_scalarmult_base_with base a)"
    by (simp only: ge_scalarmult_base_with_def Let_def e_def [symmetric] v_def)
  then show ?thesis using radix_halves [OF r(2)] r(1) by (simp add: u_def v_def)
qed

section \<open>The sliding window\<close>

text \<open>The value of the digits from position \<open>k\<close> on.\<close>

definition high :: "nat \<Rightarrow> i8 list \<Rightarrow> int" where
  "high k r = radix 2 (drop k r)"

lemma high_step: "k < length r \<Longrightarrow> high k r = sint (r ! k) + 2 * high (k + 1) r"
  unfolding high_def by (subst Cons_nth_drop_Suc [symmetric]) simp_all

lemma high_end: "length r \<le> k \<Longrightarrow> high k r = 0"
  by (simp add: high_def)

lemma radix_update:
  "j < length r \<Longrightarrow> radix 2 (r[j := x]) = radix 2 r + 2 ^ j * (sint x - sint (r ! j))"
proof (induction r arbitrary: j)
  case (Cons e r)
  show ?case
  proof (cases j)
    case (Suc i)
    then have "radix 2 (r[i := x]) = radix 2 r + 2 ^ i * (sint x - sint (r ! i))"
      using Cons by simp
    then show ?thesis using Suc by (simp add: distrib_left mult.assoc)
  qed simp
qed simp

lemma high_update:
  "k \<le> j \<Longrightarrow> j < length r \<Longrightarrow> high k (r[j := x]) = high k r + 2 ^ (j - k) * (sint x - sint (r ! j))"
  "j < k \<Longrightarrow> high k (r[j := x]) = high k r"
  by (simp_all add: high_def drop_update_swap radix_update)

lemma radix_append: "radix b (xs @ ys) = radix b xs + b ^ length xs * radix b ys"
  by (induction xs) (simp_all add: algebra_simps)

lemma radix_high: "k \<le> length r \<Longrightarrow> radix 2 r = radix 2 (take k r) + 2 ^ k * high k r"
  using radix_append [of 2 "take k r" "drop k r"] by (simp add: high_def min_absorb2)

definition bits_from :: "nat \<Rightarrow> i8 list \<Rightarrow> bool" where
  "bits_from k r \<longleftrightarrow> (\<forall>j. k \<le> j \<longrightarrow> j < 256 \<longrightarrow> r ! j = 0 \<or> r ! j = 1)"

lemma high_zeros:
  "\<lbrakk>k + d \<le> length r; \<forall>j. k \<le> j \<longrightarrow> j < k + d \<longrightarrow> r ! j = 0\<rbrakk> \<Longrightarrow> high k r = 2 ^ d * high (k + d) r"
proof (induction d)
  case (Suc d)
  then have "high (k + d) r = sint (r ! (k + d)) + 2 * high (k + d + 1) r"
    by (intro high_step) simp
  with Suc show ?case by simp
qed simp

lemma high_nonneg:
  assumes "bits_from k r" "length r = 256"
  shows "0 \<le> high k r"
  using assms(1)
proof (induction "256 - k" arbitrary: k)
  case 0
  then show ?case using assms(2) by (simp add: high_end)
next
  case (Suc n)
  then have "bits_from (k + 1) r" "n = 256 - (k + 1)" "k < 256" by (auto simp: bits_from_def)
  moreover from this have "0 \<le> sint (r ! k)" using Suc.prems by (force simp: bits_from_def)
  ultimately show ?case using Suc.hyps(1) [of "k + 1"] high_step [of k r] assms(2) by simp
qed

lemma high_below:
  assumes "bits_from k r" "length r = 256" "k \<le> 256"
  shows "high k r < 2 ^ (256 - k)"
  using assms(1,3)
proof (induction "256 - k" arbitrary: k)
  case 0
  then show ?case using assms(2) by (simp add: high_end)
next
  case (Suc n)
  then have k: "bits_from (k + 1) r" "n = 256 - (k + 1)" "k < 256" by (auto simp: bits_from_def)
  then have "high (k + 1) r + 1 \<le> 2 ^ n" using Suc.hyps(1) [of "k + 1"] by simp
  moreover have "sint (r ! k) \<le> 1" using Suc.prems k(3) by (force simp: bits_from_def)
  moreover have "high k r = sint (r ! k) + 2 * high (k + 1) r"
    using k(3) assms(2) by (simp add: high_step)
  moreover have "(2 :: int) ^ (256 - k) = 2 * 2 ^ n" by (simp flip: Suc.hyps(2))
  ultimately show ?case by linarith
qed

text \<open>The carry adds one at its position, modulo the digits there are: at the top it is lost.\<close>

lemma slide_carry_correct:
  assumes "k \<le> 256" "length r = 256" "bits_from k r"
  shows "length (slide_carry k r) = 256" and "take k (slide_carry k r) = take k r"
    and "bits_from k (slide_carry k r)"
    and "high k (slide_carry k r) = (high k r + 1) mod 2 ^ (256 - k)"
  using assms
proof (induction k r rule: slide_carry.induct)
  case (1 k r)
  note eq = slide_carry.simps [of k r]
  have stop: "k = 256" if "\<not> k < 256" "k \<le> 256" using that by simp
  have nz: "r ! k = 1" if "k < 256" "r ! k \<noteq> 0" "bits_from k r"
    using that by (auto simp: bits_from_def)
  have IH: "length (slide_carry (k + 1) (r[k := 0])) = 256 \<and>
      take (k + 1) (slide_carry (k + 1) (r[k := 0])) = take (k + 1) (r[k := 0]) \<and>
      bits_from (k + 1) (slide_carry (k + 1) (r[k := 0])) \<and>
      high (k + 1) (slide_carry (k + 1) (r[k := 0])) = (high (k + 1) r + 1) mod 2 ^ (256 - (k + 1))"
    if "k < 256" "length r = 256" "bits_from k r" "r ! k \<noteq> 0"
  proof -
    have "k + 1 \<le> 256" using that by simp
    moreover have "bits_from (k + 1) (r[k := 0])" using that by (auto simp: bits_from_def)
    ultimately show ?thesis using "1.IH" that by (simp add: high_update)
  qed
  have at_k: "slide_carry (k + 1) (r[k := 0]) ! k = 0"
    if "k < 256" "length r = 256" "bits_from k r" "r ! k \<noteq> 0"
    using IH [OF that] that by (metis add.commute less_add_one nth_list_update_eq nth_take)
  {
    case 1
    then show ?case using IH eq by (cases "k < 256"; cases "r ! k = 0") simp_all
  next
    case 2
    show ?case
    proof (cases "k < 256 \<and> r ! k \<noteq> 0")
      case True
      then have "take (k + 1) (slide_carry k r) = take (k + 1) (r[k := 0])"
        using IH 2 eq by simp
      then have "take k (take (k + 1) (slide_carry k r)) = take k (take (k + 1) (r[k := 0]))"
        by simp
      then show ?thesis by (simp add: min_def)
    qed (use eq in auto)
  next
    case 3
    show ?case
    proof (cases "k < 256 \<and> r ! k \<noteq> 0")
      case False
      then show ?thesis using 3 eq by (auto simp: bits_from_def nth_list_update)
    next
      case True
      have "slide_carry (k + 1) (r[k := 0]) ! j = 0 \<or> slide_carry (k + 1) (r[k := 0]) ! j = 1"
        if "k \<le> j" "j < 256" for j
        using IH at_k 3 True that by (cases "j = k") (simp_all add: bits_from_def)
      then show ?thesis using eq True by (simp add: bits_from_def)
    qed
  next
    case 4
    consider "k = 256" | "k < 256" "r ! k = 0" | "k < 256" "r ! k \<noteq> 0" using stop [OF _ 4(1)] by auto
    then show ?case
    proof cases
      case 1
      then show ?thesis using eq 4(2) by (simp add: high_end)
    next
      case 2
      have "high k (slide_carry k r) = high k r + 1" using 2 4 eq by (simp add: high_update)
      moreover have "bits_from k (slide_carry k r)" "length (slide_carry k r) = 256"
        using 2 4 eq by (auto simp: bits_from_def nth_list_update)
      then have "0 \<le> high k (slide_carry k r)" "high k (slide_carry k r) < 2 ^ (256 - k)"
        using high_nonneg high_below 4(1) by simp_all
      ultimately show ?thesis by (simp only: mod_pos_pos_trivial)
    next
      case 3
      have p: "(2 :: int) ^ (256 - k) = 2 * 2 ^ (256 - (k + 1))"
        using 3(1) by (simp flip: power_Suc add: Suc_diff_Suc)
      have "high k (slide_carry k r) = 2 * ((high (k + 1) r + 1) mod 2 ^ (256 - (k + 1)))"
        using IH [OF 3(1) 4(2,3) 3(2)] at_k [OF 3(1) 4(2,3) 3(2)] eq 3 4(2)
          high_step [of k "slide_carry (k + 1) (r[k := 0])"] by simp
      also have "\<dots> = (2 * (high (k + 1) r + 1)) mod 2 ^ (256 - k)"
        unfolding p by (rule mult_mod_right)
      also have "2 * (high (k + 1) r + 1) = high k r + 1"
        using nz [OF 3 4(3)] high_step [of k r] 3(1) 4(2) by simp
      finally show ?thesis .
    qed
  }
qed

text \<open>
  The state of one window: the digit at \<open>i\<close> is odd and either still positive, when no carry
  has left the window, or negative, when the rest of the window cannot produce another one.
  The flag \<open>c\<close> says that the scalar is below 2^255, so that every carry finds a free place.
\<close>

definition window_inv :: "bool \<Rightarrow> nat \<Rightarrow> nat \<Rightarrow> i8 list \<Rightarrow> bool" where
  "window_inv c i b r \<longleftrightarrow>
     length r = 256 \<and> i < 255 \<and> 1 \<le> b \<and> odd (sint (r ! i)) \<and> \<bar>sint (r ! i)\<bar> \<le> 15 \<and>
     (0 < sint (r ! i) \<longrightarrow> sint (r ! i) < 2 ^ b \<and> (c \<longrightarrow> high i r < 2 ^ (255 - i))) \<and>
     (sint (r ! i) < 0 \<longrightarrow> 5 \<le> b) \<and>
     bits_from (i + 1) r \<and> (\<forall>j. i + 1 \<le> j \<longrightarrow> j < i + b \<longrightarrow> j < 256 \<longrightarrow> r ! j = 0) \<and>
     (c \<longrightarrow> high (i + 1) r \<le> 2 ^ (254 - i))"

text \<open>The value is kept, or the carry is lost and no digit is left above.\<close>

definition high_kept :: "bool \<Rightarrow> nat \<Rightarrow> i8 list \<Rightarrow> i8 list \<Rightarrow> bool" where
  "high_kept c i r0 r \<longleftrightarrow> high i r = high i r0 \<or>
     \<not> c \<and> high (i + 1) r = 0 \<and> high i r = high i r0 - 2 ^ (256 - i)"

definition window_done :: "bool \<Rightarrow> nat \<Rightarrow> i8 list \<Rightarrow> i8 list \<Rightarrow> bool" where
  "window_done c i r0 r \<longleftrightarrow>
     length r = 256 \<and> odd (sint (r ! i)) \<and> \<bar>sint (r ! i)\<bar> \<le> 15 \<and> bits_from (i + 1) r \<and>
     (c \<longrightarrow> high (i + 1) r \<le> 2 ^ (254 - i)) \<and> high_kept c i r0 r \<and> take i r = take i r0"

lemma window_inv_done: "window_inv c i b r \<Longrightarrow> window_done c i r r"
  by (simp add: window_inv_def window_done_def high_kept_def)

lemma window_done_trans: "window_done c i r1 r \<Longrightarrow> high i r1 = high i r0 \<Longrightarrow> take i r1 = take i r0 \<Longrightarrow>
    window_done c i r0 r"
  by (simp add: window_done_def high_kept_def)

lemma sint_shifted_one:
  "r ! (i + b) = (1 :: i8) \<Longrightarrow> b \<le> 6 \<Longrightarrow> sint (push_bit b (r ! (i + b))) = 2 ^ b"
proof -
  assume "b \<le> 6" "r ! (i + b) = 1"
  then have "b \<in> {0, 1, 2, 3, 4, 5, 6}" by auto
  then have "sint (push_bit b (1 :: i8)) = 2 ^ b" by auto
  then show ?thesis by (simp add: \<open>r ! (i + b) = 1\<close>)
qed

lemma window_next_bit:
  assumes "window_inv c i b r" "i + b < 256" "r ! (i + b) \<noteq> 0"
  shows "r ! (i + b) = 1"
proof -
  have "i + 1 \<le> i + b" "bits_from (i + 1) r" using assms(1) by (simp_all add: window_inv_def)
  then show ?thesis using assms(2,3) unfolding bits_from_def by blast
qed

lemma window_sign:
  assumes "window_inv c i b r" "sint (r ! i) + 2 ^ b \<le> 15"
  shows "0 < sint (r ! i)" "b \<le> 3"
proof -
  have d: "odd (sint (r ! i))" "- 15 \<le> sint (r ! i)" "sint (r ! i) < 0 \<longrightarrow> 5 \<le> b"
    using assms(1) by (auto simp: window_inv_def)
  show p: "0 < sint (r ! i)"
  proof (rule ccontr)
    assume "\<not> 0 < sint (r ! i)"
    moreover have "sint (r ! i) \<noteq> 0" using d(1) by auto
    ultimately have "5 \<le> b" using d(3) by simp
    then have "(2 :: int) ^ 5 \<le> 2 ^ b" by (rule power_increasing) simp
    then show False using d(2) assms(2) by simp
  qed
  show "b \<le> 3"
  proof (rule ccontr)
    assume "\<not> b \<le> 3"
    then have "(2 :: int) ^ 4 \<le> 2 ^ b" by (intro power_increasing) simp_all
    then show False using p assms(2) by simp
  qed
qed

lemma high_ge_bit:
  assumes "bits_from k r" "length r = 256" "k \<le> j" "j < 256" "r ! j \<noteq> 0"
  shows "2 ^ (j - k) \<le> high k r"
  using assms
proof (induction "j - k" arbitrary: k)
  case 0
  then have "k = j" by simp
  moreover from this 0 have "r ! j = 1" by (auto simp: bits_from_def)
  moreover have "bits_from (j + 1) r" using 0 \<open>k = j\<close> by (simp add: bits_from_def)
  then have "0 \<le> high (j + 1) r" using 0 by (intro high_nonneg)
  ultimately show ?case using 0 by (simp add: high_step)
next
  case (Suc n)
  then have k: "k < j" "n = j - (k + 1)" "bits_from (k + 1) r" by (auto simp: bits_from_def)
  then have "2 ^ (j - (k + 1)) \<le> high (k + 1) r" using Suc.hyps(1) [OF k(2)] Suc.prems by simp
  moreover have "0 \<le> sint (r ! k)" using Suc.prems(1,4) k(1) by (force simp: bits_from_def)
  moreover have "j - k = Suc (j - (k + 1))" using k(1) by simp
  ultimately show ?case using high_step [of k r] Suc.prems(2,4) k(1) by simp
qed

lemma high_zero_bits:
  assumes "bits_from k r" "length r = 256" "high k r = 0" "k \<le> j" "j < 256"
  shows "r ! j = 0"
proof (rule ccontr)
  assume "r ! j \<noteq> 0"
  from high_ge_bit [OF assms(1,2,4,5) this] have "2 ^ (j - k) \<le> (0 :: int)" by (simp only: assms(3))
  moreover have "(0 :: int) < 2 ^ (j - k)" by simp
  ultimately show False by linarith
qed

lemma slide_window_zeros:
  assumes "1 \<le> b" "\<And>j. i < j \<Longrightarrow> j < 256 \<Longrightarrow> r ! j = 0"
  shows "slide_window i b r = r"
  using assms
proof (induction i b r rule: slide_window.induct)
  case (1 i b r)
  show ?case
  proof (cases "b \<le> 6 \<and> i + b < 256")
    case True
    then have z: "r ! (i + b) = 0" using 1(4,5) by simp
    then have "slide_window i (b + 1) r = r" using 1(3) True 1(4,5) by simp
    then show ?thesis using True z by (subst slide_window.simps) simp
  next
    case False
    then show ?thesis by (subst slide_window.simps) (simp only: if_False)
  qed
qed

lemma window_absorb:
  assumes w: "window_inv c i b r" and b: "b \<le> 6" "i + b < 256" "r ! (i + b) \<noteq> 0"
    and small: "sint (r ! i) + 2 ^ b \<le> 15"
  defines "r' \<equiv> (r[i := r ! i + push_bit b (r ! (i + b))])[i + b := 0]"
  shows "window_inv c i (b + 1) r'" and "high i r' = high i r" and "take i r' = take i r"
proof -
  have i: "length r = 256" "1 \<le> b" "i < 255" "odd (sint (r ! i))" "sint (r ! i) < 2 ^ b"
    "c \<longrightarrow> high i r < 2 ^ (255 - i)" "bits_from (i + 1) r"
    "\<forall>j. i + 1 \<le> j \<longrightarrow> j < i + b \<longrightarrow> j < 256 \<longrightarrow> r ! j = 0" "c \<longrightarrow> high (i + 1) r \<le> 2 ^ (254 - i)"
    using w window_sign [OF w small] by (simp_all add: window_inv_def)
  note one = window_next_bit [OF w b(2,3)]
  note p = sint_shifted_one [OF one b(1)]
  note pos = window_sign [OF w small]
  have "fits 8 (sint (r ! i) + 2 ^ b)" using pos small by (intro fits_abs) simp
  then have s: "sint (r ! i + push_bit b (r ! (i + b))) = sint (r ! i) + 2 ^ b"
    using sint_sum_8(1) [of "r ! i" "push_bit b (r ! (i + b))"] p by simp
  have at_i: "sint (r' ! i) = sint (r ! i) + 2 ^ b" using s i b by (simp add: r'_def)
  show h: "high i r' = high i r"
    unfolding r'_def using i b one s by (simp add: high_update(1))
  have h1: "high (i + 1) r' = high (i + 1) r - 2 ^ (b - 1)"
    unfolding r'_def using i b one by (simp add: high_update)
  show "take i r' = take i r" by (simp add: r'_def)
  have z: "\<forall>j. i + 1 \<le> j \<longrightarrow> j < i + (b + 1) \<longrightarrow> j < 256 \<longrightarrow> r' ! j = 0"
    using i(8) b i(1) by (auto simp: r'_def nth_list_update less_Suc_eq)
  have bits: "bits_from (i + 1) r'"
    using i(1,7) b(2) by (auto simp: bits_from_def r'_def nth_list_update)
  have "even ((2 :: int) ^ b)" using i(2) by simp
  then have "odd (sint (r' ! i))" unfolding at_i using i(4) by simp
  moreover have "length r' = 256" using i(1) by (simp add: r'_def)
  moreover have "(0 :: int) \<le> 2 ^ (b - 1)" by simp
  then have "c \<longrightarrow> high (i + 1) r' \<le> 2 ^ (254 - i)" using h1 i(9) by linarith
  moreover have "sint (r' ! i) < 2 ^ (b + 1)" unfolding at_i using i(5) by simp
  ultimately show "window_inv c i (b + 1) r'"
    unfolding window_inv_def using at_i pos small i(2,3,6) z bits h by simp
qed

lemma window_carry:
  assumes w: "window_inv c i b r" and b: "b \<le> 6" "i + b < 256" "r ! (i + b) \<noteq> 0"
    and large: "\<not> sint (r ! i) + 2 ^ b \<le> 15" "- 15 \<le> sint (r ! i) - 2 ^ b"
  defines "r' \<equiv> slide_carry (i + b) (r[i := r ! i - push_bit b (r ! (i + b))])"
  shows "window_inv c i (b + 1) r'" and "high_kept c i r r'" and "take i r' = take i r"
proof -
  have i: "length r = 256" "1 \<le> b" "i < 255" "odd (sint (r ! i))" "\<bar>sint (r ! i)\<bar> \<le> 15"
    "0 < sint (r ! i) \<longrightarrow> sint (r ! i) < 2 ^ b \<and> (c \<longrightarrow> high i r < 2 ^ (255 - i))"
    "sint (r ! i) < 0 \<longrightarrow> 5 \<le> b" "bits_from (i + 1) r"
    "\<forall>j. i + 1 \<le> j \<longrightarrow> j < i + b \<longrightarrow> j < 256 \<longrightarrow> r ! j = 0"
    using w by (simp_all add: window_inv_def)
  have "b \<in> {1, 2, 3, 4, 5, 6}" using b(1) i(2) by auto
  moreover have "sint (r ! i) \<noteq> 0" using i(4) by auto
  ultimately have b4: "b = 4" and pos: "0 < sint (r ! i)"
    using large i(5,6,7) by auto
  note one = window_next_bit [OF w b(2,3)]
  note p = sint_shifted_one [OF one b(1)]
  define q where "q = r[i := r ! i - push_bit b (r ! (i + b))]"
  have "fits 8 (sint (r ! i) - 2 ^ b)" using pos i(5) b4 by (intro fits_abs) simp
  then have s: "sint (q ! i) = sint (r ! i) - 2 ^ b"
    using sint_sum_8(2) [of "r ! i" "push_bit b (r ! (i + b))"] p i(1,3) by (simp add: q_def)
  have q: "length q = 256" "bits_from (i + b) q" "q ! (i + b) = 1" "high (i + b) q = high (i + b) r"
    using i b4 one by (auto simp: q_def bits_from_def high_update)
  have ib: "i + b \<le> 256" using b(2) by simp
  note s_c = slide_carry_correct [OF ib q(1,2)]
  have r': "r' = slide_carry (i + b) q" by (simp add: r'_def q_def)
  have low: "r' ! j = q ! j" if "j < i + b" for j
    using s_c(2) that unfolding r' by (metis nth_take)
  have z: "\<forall>j. i + 1 \<le> j \<longrightarrow> j < i + b \<longrightarrow> r' ! j = 0"
    using low i(9) b(2) by (auto simp: q_def)
  have len: "length r' = 256" using s_c(1) by (simp add: r')
  have at_i: "sint (r' ! i) = sint (r ! i) - 2 ^ b" using low [of i] s b4 by simp
  have "i + 1 + 3 = i + b" using b4 by simp
  then have h1: "high (i + 1) r' = 8 * high (i + b) r'" "high (i + 1) r = 8 * high (i + b) r"
    using high_zeros [of "i + 1" 3 r', unfolded \<open>i + 1 + 3 = i + b\<close>]
      high_zeros [of "i + 1" 3 r, unfolded \<open>i + 1 + 3 = i + b\<close>] z i(1,9) b(2) len by simp_all
  define H where "H = high (i + b) r"
  define e where "e = 251 - i"
  have e: "256 - (i + b) = Suc e" "255 - i = 4 + e" "254 - i = 3 + e" "256 - i = 5 + e"
    using b(2) b4 by (simp_all add: e_def)
  have h2: "high (i + b) r' = (H + 1) mod 2 ^ Suc e" using s_c(4) q(4) e(1) by (simp add: r' H_def)
  have H: "H + 1 \<le> 2 ^ Suc e"
    using high_below [OF q(2,1) ib] q(4) e(1) by (simp add: H_def)
  have H0: "0 \<le> H" using high_nonneg [OF q(2,1)] q(4) by (simp add: H_def)
  have hi: "high i r = sint (r ! i) + 2 * high (i + 1) r"
    "high i r' = sint (r' ! i) + 2 * high (i + 1) r'"
    using i(1,3) len by (simp_all add: high_step)
  have hi': "high i r = sint (r ! i) + 16 * H" "high i r' = sint (r ! i) - 16 + 16 * high (i + b) r'"
    using hi h1 at_i b4 by (simp_all add: H_def)
  have cH: "H + 1 \<le> 2 ^ e" if c
  proof -
    have "sint (r ! i) + 16 * H < 16 * 2 ^ e"
      using i(6) pos that unfolding hi'(1) e(2) power_add by simp
    then show ?thesis using pos by linarith
  qed
  have p: "(2 :: int) ^ Suc e = 2 * 2 ^ e" "(0 :: int) < 2 ^ e" by simp_all
  show "high_kept c i r r'"
  proof (cases "H + 1 = 2 ^ Suc e")
    case False
    then have "(H + 1) mod 2 ^ Suc e = H + 1" using H H0 by (intro mod_pos_pos_trivial) simp_all
    then show ?thesis using h2 hi' by (simp add: high_kept_def)
  next
    case True
    have "\<not> c" using cH True p by linarith
    moreover have "high (i + b) r' = 0" using h2 True by simp
    moreover have "high i r' = high i r - 2 ^ (256 - i)"
      using True \<open>high (i + b) r' = 0\<close> p(1) unfolding hi' e(4) power_add by simp
    ultimately show ?thesis using h1(1) by (simp add: high_kept_def)
  qed
  show "take i r' = take i r"
  proof -
    have "take i (take (i + b) r') = take i (take (i + b) q)" using s_c(2) by (simp add: r')
    then show ?thesis by (simp add: q_def)
  qed
  have top: "high (i + 1) r' \<le> 2 ^ (254 - i)" if c
  proof -
    have "(H + 1) mod 2 ^ Suc e \<le> H + 1" using H0 by (intro zmod_le_nonneg_dividend) simp
    then have "high (i + b) r' \<le> 2 ^ e" using cH [OF that] h2 by linarith
    then show ?thesis unfolding h1(1) e(3) power_add by simp
  qed
  have bits: "bits_from (i + 1) r'"
    unfolding bits_from_def
  proof (intro allI impI)
    fix j
    assume j: "i + 1 \<le> j" "j < 256"
    show "r' ! j = 0 \<or> r' ! j = 1"
    proof (cases "j < i + b")
      case False
      then show ?thesis using s_c(3) j unfolding bits_from_def r' by simp
    qed (use z j in simp)
  qed
  have zb: "r' ! (i + b) = 0"
  proof -
    have "high (i + b) r' = sint (r' ! (i + b)) + 2 * high (i + b + 1) r'"
      "H = 1 + 2 * high (i + b + 1) r"
      using b(2) len i(1) one by (simp_all add: high_step H_def)
    moreover from this(2) have "even (H + 1)" by simp
    then have "even (high (i + b) r')" unfolding h2 by (simp add: dvd_mod)
    ultimately have "even (sint (r' ! (i + b)))" by simp
    moreover have "r' ! (i + b) = 0 \<or> r' ! (i + b) = 1"
      using bits b(2) i(2) by (simp add: bits_from_def)
    ultimately show ?thesis by auto
  qed
  have z': "\<forall>j. i + 1 \<le> j \<longrightarrow> j < i + (b + 1) \<longrightarrow> j < 256 \<longrightarrow> r' ! j = 0"
    using z zb by (metis Suc_eq_plus1 add_Suc_right less_Suc_eq)
  have "sint (r' ! i) < 0" "odd (sint (r' ! i))" "\<bar>sint (r' ! i)\<bar> \<le> 15"
    using at_i b4 i(4,5,6) pos large(2) by auto
  then show "window_inv c i (b + 1) r'"
    unfolding window_inv_def using len i(3) b4 bits z' top by simp
qed

lemma slide_window_correct:
  "window_inv c i b r \<Longrightarrow> window_done c i r (slide_window i b r)"
proof (induction i b r rule: slide_window.induct)
  case (1 i b r)
  note eq = slide_window.simps [of i b r]
  show ?case
  proof (cases "b \<le> 6 \<and> i + b < 256")
    case False
    then have "slide_window i b r = r" by (subst eq) (simp only: if_False)
    then show ?thesis using window_inv_done [OF "1.prems"] by simp
  next
    case range: True
    show ?thesis
    proof (cases "r ! (i + b) = 0")
      case True
      have "window_inv c i (b + 1) r"
      proof -
        have "\<forall>j. i + 1 \<le> j \<longrightarrow> j < i + (b + 1) \<longrightarrow> j < 256 \<longrightarrow> r ! j = 0"
          using "1.prems" True unfolding window_inv_def by (metis Suc_eq_plus1 add_Suc_right less_Suc_eq)
        moreover have "(0 :: int) < 2 ^ b" by simp
        then have "sint (r ! i) < 2 ^ (b + 1)" if "sint (r ! i) < 2 ^ b"
          using that by (simp only: power_add power_one_right)
        ultimately show ?thesis using "1.prems" unfolding window_inv_def by auto
      qed
      then have "window_done c i r (slide_window i (b + 1) r)"
        using "1.IH"(3) range True by blast
      moreover have "slide_window i b r = slide_window i (b + 1) r"
        using range True by (subst eq) simp
      ultimately show ?thesis by (simp only:)
    next
      case False
      then have one: "sint (r ! (i + b)) = 1"
        using window_next_bit [OF "1.prems"] range by simp
      show ?thesis
      proof (cases "sint (r ! i) + 2 ^ b \<le> 15")
        case small: True
        let ?r = "(r[i := r ! i + push_bit b (r ! (i + b))])[i + b := 0]"
        have a: "window_inv c i (b + 1) ?r" "high i ?r = high i r" "take i ?r = take i r"
          using window_absorb [OF "1.prems" _ _ False small] range by blast+
        have e: "slide_window i b r = slide_window i (b + 1) ?r"
          using range False small one by (subst eq) simp
        have "window_done c i ?r (slide_window i (b + 1) ?r)"
          by (rule "1.IH"(1) [OF range False _ a(1)]) (simp add: one small)
        then show ?thesis unfolding e by (rule window_done_trans [OF _ a(2,3)])
      next
        case large: False
        show ?thesis
        proof (cases "- 15 \<le> sint (r ! i) - 2 ^ b")
          case True
          let ?r = "slide_carry (i + b) (r[i := r ! i - push_bit b (r ! (i + b))])"
          have a: "window_inv c i (b + 1) ?r" "high_kept c i r ?r" "take i ?r = take i r"
            using window_carry [OF "1.prems" _ _ False large True] range by blast+
          have e: "slide_window i b r = slide_window i (b + 1) ?r"
            using range False large True one by (subst eq) simp
          show ?thesis
          proof (cases "high i ?r = high i r")
            case True
            have "window_done c i ?r (slide_window i (b + 1) ?r)"
              by (rule "1.IH"(2) [OF range False _ _ a(1)])
                (simp_all add: one large \<open>- 15 \<le> sint (r ! i) - 2 ^ b\<close>)
            then show ?thesis unfolding e by (rule window_done_trans [OF _ True a(3)])
          next
            case False
            then have "high (i + 1) ?r = 0" using a(2) by (simp add: high_kept_def)
            then have "slide_window i (b + 1) ?r = ?r"
              using a(1) high_zero_bits [of "i + 1" ?r] unfolding window_inv_def
              by (intro slide_window_zeros) simp_all
            then show ?thesis
              unfolding e using window_inv_done [OF a(1)] a(2,3) by (simp add: window_done_def)
          qed
        next
          case no: False
          then have "slide_window i b r = r" using range False large one by (subst eq) simp
          then show ?thesis using window_inv_done [OF "1.prems"] by simp
        qed
      qed
    qed
  qed
qed

text \<open>All windows: the digits below \<open>i\<close> are final, those from \<open>i\<close> on are still bits.\<close>

definition slide_digit :: "i8 \<Rightarrow> bool" where
  "slide_digit d \<longleftrightarrow> d = 0 \<or> odd (sint d) \<and> \<bar>sint d\<bar> \<le> 15"

definition slide_inv :: "bool \<Rightarrow> nat \<Rightarrow> int \<Rightarrow> i8 list \<Rightarrow> bool" where
  "slide_inv c i v r \<longleftrightarrow> length r = 256 \<and>
     (radix 2 r = v \<or> \<not> c \<and> radix 2 r = v - 2 ^ 256 \<and> high i r = 0) \<and>
     (\<forall>j<i. slide_digit (r ! j)) \<and> bits_from i r \<and> (c \<longrightarrow> high i r \<le> 2 ^ (255 - i))"

lemma half_bound:
  fixes h :: int
  assumes "d + 2 * h \<le> 2 ^ (255 - i)" "0 \<le> d" "i < 255"
  shows "h \<le> 2 ^ (254 - i)"
proof -
  have "255 - i = Suc (254 - i)" using assms(3) by simp
  then show ?thesis using assms by simp
qed

lemma slide_step:
  assumes s: "slide_inv c i v r" and i: "i < 256"
  shows "slide_inv c (i + 1) v (if r ! i \<noteq> 0 then slide_window i 1 r else r)"
proof -
  have r: "length r = 256" "radix 2 r = v \<or> \<not> c \<and> radix 2 r = v - 2 ^ 256 \<and> high i r = 0"
    "\<forall>j<i. slide_digit (r ! j)" "bits_from i r"
    "c \<longrightarrow> high i r \<le> 2 ^ (255 - i)" using s by (simp_all add: slide_inv_def)
  have b: "bits_from (i + 1) r" using r(4) by (simp add: bits_from_def)
  have h: "high i r = sint (r ! i) + 2 * high (i + 1) r" using r(1) i by (simp add: high_step)
  have bit: "r ! i = 0 \<or> r ! i = 1" using r(4) i by (simp add: bits_from_def)
  then have nonneg: "0 \<le> sint (r ! i)" by auto
  have hn: "0 \<le> high (i + 1) r" using high_nonneg [OF b r(1)] .
  have h1: "c \<longrightarrow> high (i + 1) r \<le> 2 ^ (255 - (i + 1))"
  proof (cases "i < 255")
    case True
    then show ?thesis using half_bound [OF _ nonneg True, of "high (i + 1) r"] r(5) h by simp
  next
    case False
    then show ?thesis using r(1) by (simp add: high_end)
  qed
  have lost: "radix 2 r = v \<or> \<not> c \<and> radix 2 r = v - 2 ^ 256 \<and> high (i + 1) r = 0"
    using r(2) h nonneg hn by auto
  have keep: "slide_inv c (i + 1) v r" if "slide_digit (r ! i)"
    using r that b h1 lost by (auto simp: slide_inv_def less_Suc_eq)
  show ?thesis
  proof (cases "r ! i = 0")
    case True
    then show ?thesis using keep by (simp add: slide_digit_def)
  next
    case False
    then have one: "r ! i = 1" using bit by simp
    then have v: "radix 2 r = v" using r(2) h hn by auto
    show ?thesis
    proof (cases "i < 255")
      case False
      then have "slide_window i 1 r = r" by (subst slide_window.simps) simp
      then show ?thesis using keep one by (simp add: slide_digit_def)
    next
      case True
      have "even ((2 :: int) ^ (255 - i))" using True by simp
      moreover have "odd (high i r)" using h one by simp
      ultimately have "high i r \<noteq> 2 ^ (255 - i)" by metis
      then have "c \<longrightarrow> high i r < 2 ^ (255 - i)" using r(5) by (auto simp: order_less_le)
      moreover have "c \<longrightarrow> high (i + 1) r \<le> 2 ^ (254 - i)" using h1 by simp
      ultimately have "window_inv c i 1 r" using r(1) True one b by (simp add: window_inv_def)
      then have w: "window_done c i r (slide_window i 1 r)" by (rule slide_window_correct)
      let ?w = "slide_window i 1 r"
      have e: "radix 2 ?w = v + 2 ^ i * (high i ?w - high i r)"
        using w i r(1) v radix_high [of i ?w] radix_high [of i r]
        by (simp add: window_done_def right_diff_distrib)
      have "(2 :: int) ^ i * 2 ^ (256 - i) = 2 ^ 256" using i by (simp flip: power_add)
      then have "radix 2 ?w = v \<or> \<not> c \<and> radix 2 ?w = v - 2 ^ 256 \<and> high (i + 1) ?w = 0"
        using w e by (auto simp: window_done_def high_kept_def)
      moreover have "?w ! j = r ! j" if "j < i" for j
        using w that unfolding window_done_def by (metis nth_take)
      ultimately show ?thesis
        using w r(3) False
        by (auto simp: slide_inv_def window_done_def slide_digit_def less_Suc_eq)
    qed
  qed
qed

text \<open>The bits of the scalar.\<close>

lemma byte_bit:
  assumes "length a = 32" "i < 256"
  shows "sint (1 AND drop_bit (i mod 8) (a ! (i div 8)) :: u8) = le_value a div 2 ^ i mod 2"
proof -
  let ?j = "i div 8" and ?m = "i mod 8"
  let ?b = "a ! ?j"
  have j: "?j < 32" using assms(2) by auto
  have "drop ?j a = ?b # drop (?j + 1) a" using j assms(1) by (simp add: Cons_nth_drop_Suc)
  then have "le_value (drop ?j a) = uint ?b + 256 * le_value (drop (?j + 1) a)" by simp
  then have v: "le_value a div 256 ^ ?j = uint ?b + 256 * le_value (drop (?j + 1) a)"
    by (simp only: le_value_drop)
  have "(2 :: int) ^ i = 256 ^ ?j * 2 ^ ?m"
  proof -
    have "(2 :: int) ^ i = 2 ^ (8 * ?j + ?m)" by simp
    then show ?thesis by (simp only: power_add power_mult) simp
  qed
  then have "le_value a div 2 ^ i = (uint ?b + 256 * le_value (drop (?j + 1) a)) div 2 ^ ?m"
    using v by (simp add: zdiv_zmult2_eq)
  also have "256 * le_value (drop (?j + 1) a) =
      2 ^ ?m * (2 ^ (8 - ?m) * le_value (drop (?j + 1) a))"
  proof -
    have "(2 :: int) ^ ?m * 2 ^ (8 - ?m) = 256" by (simp flip: power_add)
    then show ?thesis by (simp only: mult.assoc [symmetric])
  qed
  also have "(uint ?b + 2 ^ ?m * (2 ^ (8 - ?m) * le_value (drop (?j + 1) a))) div 2 ^ ?m =
      uint ?b div 2 ^ ?m + 2 ^ (8 - ?m) * le_value (drop (?j + 1) a)" by simp
  also have "\<dots> mod 2 = uint ?b div 2 ^ ?m mod 2"
  proof -
    have "(2 :: int) ^ (8 - ?m) = 2 * 2 ^ (7 - ?m)"
      by (simp flip: power_Suc add: Suc_diff_le [symmetric] less_Suc_eq_le [symmetric])
    then show ?thesis by (simp only: mult.assoc mod_mult_self2)
  qed
  finally have r: "le_value a div 2 ^ i mod 2 = uint ?b div 2 ^ ?m mod 2" .
  have "uint (drop_bit ?m ?b) = uint ?b div 2 ^ ?m"
  proof -
    have "take_bit 8 (uint ?b) = uint ?b" using uint_lt2p [of ?b] by (simp add: take_bit_int_eq_self)
    then show ?thesis by (subst unsigned_drop_bit_eq) (simp add: drop_bit_eq_div)
  qed
  moreover have "c AND 1 = word_of_int (uint c mod 2)" for c :: u8
    using and_mask_int [where 'a=8, of "uint c" 1] by simp
  moreover have "sint (word_of_int (x mod 2) :: u8) = x mod 2" for x :: int
    by (rule sint_of_int_8) (auto intro!: fits_abs simp: abs_of_nonneg)
  ultimately show ?thesis unfolding r by (simp add: and.commute [of 1])
qed

lemma bit_sum: "0 \<le> v \<Longrightarrow> (\<Sum>i<n. (v div 2 ^ i mod 2) * 2 ^ i) = v mod (2 :: int) ^ n"
proof (induction n)
  case (Suc n)
  have "v mod 2 ^ Suc n = v mod 2 ^ n + 2 ^ n * (v div 2 ^ n mod 2)"
    using mod_split_at [of "Suc n" n 1 v] by simp
  with Suc show ?case by simp
qed simp

lemma slide_start:
  assumes "length a = 32"
  defines "r \<equiv> map (\<lambda>i. 1 AND drop_bit (i mod 8) (a ! (i div 8))) [0..<256]"
  shows "slide_inv (le_value a < 2 ^ 255) 0 (le_value a) r"
proof -
  have len: "length r = 256" by (simp add: r_def)
  have d: "sint (r ! i) = le_value a div 2 ^ i mod 2" if "i < 256" for i
    using byte_bit [OF assms(1) that] that by (simp add: r_def)
  have "radix 2 r = (\<Sum>i<256. le_value a div 2 ^ i mod 2 * 2 ^ i)"
    unfolding radix_sum len using d by simp
  also have "\<dots> = le_value a mod 2 ^ 256" by (simp only: bit_sum le_value_nonneg)
  also have "\<dots> = le_value a"
    using le_value_bound [of a] assms(1) by (intro mod_pos_pos_trivial le_value_nonneg) simp
  finally have v: "radix 2 r = le_value a" .
  have bits: "bits_from 0 r"
    unfolding bits_from_def
  proof (intro allI impI)
    fix i :: nat
    assume "i < 256"
    then have "sint (r ! i) = 0 \<or> sint (r ! i) = 1" using d by auto
    moreover have "w = 0" if "sint w = 0" for w :: i8 using that word_as_sint [of w] by simp
    moreover have "w = 1" if "sint w = 1" for w :: i8 using that word_as_sint [of w] by simp
    ultimately show "r ! i = 0 \<or> r ! i = 1" by blast
  qed
  show ?thesis using len v bits by (simp add: slide_inv_def high_def)
qed

lemma slide_result:
  assumes "length a = 32"
  shows "slide_inv (le_value a < 2 ^ 255) 256 (le_value a) (slide a)"
proof -
  let ?f = "\<lambda>r i. if r ! i \<noteq> 0 then slide_window i 1 r else r"
  let ?r = "map (\<lambda>i. 1 AND drop_bit (i mod 8) (a ! (i div 8))) [0..<256]"
  have "slide_inv (le_value a < 2 ^ 255) n (le_value a) (foldl ?f ?r [0..<n])" if "n \<le> 256" for n
    using that
  proof (induction n)
    case 0
    then show ?case using slide_start [OF assms] by simp
  next
    case (Suc n)
    then show ?case
      using slide_step [of "le_value a < 2 ^ 255" n "le_value a" "foldl ?f ?r [0..<n]"] by simp
  qed
  from this [of 256] show ?thesis by (simp only: slide_def Let_def order_refl)
qed

lemma slide_correct:
  assumes "length a = 32"
  shows "length (slide a) = 256" "\<And>i. i < 256 \<Longrightarrow> slide_digit (slide a ! i)"
    "radix 2 (slide a) = le_value a \<or> 2 ^ 255 \<le> le_value a \<and> radix 2 (slide a) = le_value a - 2 ^ 256"
    "le_value a < 2 ^ 255 \<Longrightarrow> radix 2 (slide a) = le_value a"
  using slide_result [OF assms] by (auto simp: slide_inv_def)

section \<open>A scalar that loses its carry\<close>

lemma slide_carry_ones:
  "k + n = 256 \<Longrightarrow> length xs = k \<Longrightarrow> slide_carry k (xs @ replicate n 1) = xs @ replicate n 0"
proof (induction n arbitrary: k xs)
  case 0
  then show ?case by (subst slide_carry.simps) simp
next
  case (Suc n)
  then have "slide_carry k (xs @ replicate (Suc n) 1) = slide_carry (k + 1) ((xs @ [0]) @ replicate n 1)"
    by (subst slide_carry.simps) (simp add: nth_append list_update_append)
  also have "\<dots> = (xs @ [0]) @ replicate n 0" using Suc by (intro Suc.IH) simp_all
  finally show ?case by simp
qed

lemma slide_zeros:
  "\<forall>i\<in>set is. r ! i = 0 \<Longrightarrow> foldl (\<lambda>r i. if r ! i \<noteq> 0 then slide_window i 1 r else r) r is = r"
  by (induction "is") simp_all

lemma slide_window_ones: "slide_window 0 1 (replicate 256 1) = - 1 # replicate 255 0"
proof -
  have r: "replicate 256 (1 :: i8) = [1, 1, 1, 1] @ replicate 252 1"
    by (rule nth_equalityI) (auto simp: nth_append nth_Cons')
  have four: "(4 :: nat) = Suc (Suc (Suc (Suc 0)))" by simp
  have c: "slide_carry 4 ([- 1, 0, 0, 0] @ replicate 252 1) = [- 1, 0, 0, 0] @ replicate 252 (0 :: i8)"
    by (rule slide_carry_ones) simp_all
  have z: "[- 1, 0, 0, 0] @ replicate 252 0 = - 1 # replicate 255 (0 :: i8)"
    by (rule nth_equalityI) (auto simp: nth_append nth_Cons')
  have "slide_window 0 1 ([1, 1, 1, 1] @ replicate 252 1) = slide_window 0 2 ([3, 0, 1, 1] @ replicate 252 1)"
    by (subst slide_window.simps) (simp add: numeral_2_eq_2)
  also have "\<dots> = slide_window 0 3 ([7, 0, 0, 1] @ replicate 252 1)"
    by (subst slide_window.simps) (simp add: numeral_2_eq_2 numeral_3_eq_3)
  also have "\<dots> = slide_window 0 4 ([15, 0, 0, 0] @ replicate 252 1)"
    by (subst slide_window.simps) (simp add: numeral_3_eq_3 four)
  also have "\<dots> = slide_window 0 5 ([- 1, 0, 0, 0] @ replicate 252 0)"
    by (subst slide_window.simps) (simp add: c [simplified])
  also have "\<dots> = [- 1, 0, 0, 0] @ replicate 252 0"
    by (rule slide_window_zeros) (auto simp: nth_append nth_Cons')
  finally show ?thesis unfolding r z .
qed

text \<open>
  The scalar 2^256 - 1 counts as -1: its first window takes the value -1 and its carry passes over
  the other 252 bits and off the array.
\<close>

lemma slide_loses_carry: "radix 2 (slide (replicate 32 255)) = - 1"
proof -
  have b: "1 AND drop_bit k (255 :: u8) = 1" if "k < 8" for k
  proof -
    have "k \<in> {0, 1, 2, 3, 4, 5, 6, 7}" using that by auto
    then show ?thesis by auto
  qed
  have r: "map (\<lambda>i. 1 AND drop_bit (i mod 8) (replicate 32 255 ! (i div 8))) [0..<256] =
      (replicate 256 1 :: i8 list)"
    by (rule nth_equalityI) (simp_all add: b)
  have u: "[0..<256] = 0 # [Suc 0..<256]" by (rule upt_conv_Cons) simp
  have "slide (replicate 32 255) = - 1 # replicate 255 0"
    unfolding slide_def Let_def r
    unfolding u foldl.simps
    by (subst if_P, simp) (simp only: slide_window_ones, rule slide_zeros, auto simp: nth_Cons')
  moreover have "radix 2 (replicate n 0) = 0" for n by (induction n) simp_all
  ultimately show ?thesis by simp
qed

section \<open>ge\_double\_scalarmult\<close>

lemma odd_multiples_lin:
  assumes "p3_lin P Q m n A" "j < 8"
  shows "ca_lin P Q ((2 * int j + 1) * m) ((2 * int j + 1) * n) (odd_multiples A ! j)"
proof -
  define A2 where "A2 = ge_p1p1_to_p3 (ge_p3_dbl A)"
  have A2: "p3_lin P Q (2 * m) (2 * n) A2"
    unfolding A2_def by (rule point_lin(4) [OF point_lin(7) [OF assms(1)]])
  note next_odd = point_lin(6) [OF point_lin(4) [OF point_lin_sums(1) [OF A2]]]
  note A0 = point_lin(6) [OF assms(1)]
  note A1 = next_odd [OF A0]
  note A2' = next_odd [OF A1]
  note A3 = next_odd [OF A2']
  note A4 = next_odd [OF A3]
  note A5 = next_odd [OF A4]
  note A6 = next_odd [OF A5]
  note A7 = next_odd [OF A6]
  have "j \<in> {0, 1, 2, 3, 4, 5, 6, 7}" using assms(2) by auto
  then show ?thesis
    using A0 A1 A2' A3 A4 A5 A6 A7
    unfolding odd_multiples_def Let_def A2_def [symmetric] by auto
qed

definition Bi_ok :: "ext \<Rightarrow> ext \<Rightarrow> ge_precomp list \<Rightarrow> bool" where
  "Bi_ok A B Bi \<longleftrightarrow> (\<forall>j<8. pc_lin A B 0 (2 * int j + 1) (Bi ! j))"

lemma odd_index:
  assumes "odd d" "0 < d" "d \<le> (15 :: int)"
  shows "nat (d div 2) < 8" "2 * int (nat (d div 2)) + 1 = d"
  using assms by (auto elim!: oddE)

lemma double_step_lin:
  assumes "p3_lin A B 1 0 P" "Bi_ok A B Bi" "slide_digit ad" "slide_digit bd"
    and "p2_lin A B m n r"
  shows "p2_lin A B (2 * m + sint ad) (2 * n + sint bd)
    (double_step (odd_multiples P) Bi ad bd r)"
proof -
  have Ai: "ca_lin A B d 0 (odd_multiples P ! nat (d div 2))"
    if "odd d" "0 < d" "d \<le> 15" for d
    using odd_multiples_lin [OF assms(1) odd_index(1) [OF that]]
    by (simp only: odd_index(2) [OF that] mult_1_right mult_zero_right)
  have Bi: "pc_lin A B 0 d (Bi ! nat (d div 2))" if "odd d" "0 < d" "d \<le> 15" for d
    using assms(2) odd_index [OF that] unfolding Bi_ok_def by metis
  have a: "sint ad = 0 \<or> odd (sint ad) \<and> \<bar>sint ad\<bar> \<le> 15"
    and b: "sint bd = 0 \<or> odd (sint bd) \<and> \<bar>sint bd\<bar> \<le> 15"
    using assms(3,4) by (auto simp: slide_digit_def)
  define t where "t = (if 0 < sint ad
      then ge_add (ge_p1p1_to_p3 (ge_p2_dbl r)) (odd_multiples P ! nat (sint ad div 2))
      else if sint ad < 0
      then ge_sub (ge_p1p1_to_p3 (ge_p2_dbl r)) (odd_multiples P ! nat ((- sint ad) div 2))
      else ge_p2_dbl r)"
  define t' where "t' = (if 0 < sint bd
      then ge_madd (ge_p1p1_to_p3 t) (Bi ! nat (sint bd div 2))
      else if sint bd < 0
      then ge_msub (ge_p1p1_to_p3 t) (Bi ! nat ((- sint bd) div 2))
      else t)"
  note dbl = point_lin(8) [OF assms(5)]
  note u = point_lin(4) [OF dbl]
  have "pp_lin A B (2 * m + sint ad) (2 * n) t"
    unfolding t_def using point_lin_sums(1) [OF u Ai, of "sint ad"]
      point_lin_sums(2) [OF u Ai, of "- sint ad"] dbl a
    by (cases "0 < sint ad"; cases "sint ad < 0") (simp_all add: abs_le_iff)
  note v = this point_lin(4) [OF this]
  have "pp_lin A B (2 * m + sint ad) (2 * n + sint bd) t'"
    unfolding t'_def using point_lin_sums(3) [OF v(2) Bi, of "sint bd"]
      point_lin_sums(4) [OF v(2) Bi, of "- sint bd"] v(1) b
    by (cases "0 < sint bd"; cases "sint bd < 0") (simp_all add: abs_le_iff)
  then show ?thesis
    using point_lin(5) by (simp only: double_step_def Let_def t_def [symmetric] t'_def [symmetric])
qed

lemma double_loop_lin:
  assumes "p3_lin A B 1 0 P" "Bi_ok A B Bi"
    and "length as = 256" "length bs = 256"
    and "\<And>i. i < 256 \<Longrightarrow> slide_digit (as ! i)" "\<And>i. i < 256 \<Longrightarrow> slide_digit (bs ! i)"
    and "n \<le> 256" "p2_lin A B (high n as) (high n bs) r"
  shows "p2_lin A B (radix 2 as) (radix 2 bs) (double_loop (odd_multiples P) Bi as bs n r)"
  using assms(7,8)
proof (induction n arbitrary: r)
  case 0
  then show ?case by (simp add: high_def)
next
  case (Suc n)
  then have n: "n < 256" by simp
  have "high n as = 2 * high (Suc n) as + sint (as ! n)"
    "high n bs = 2 * high (Suc n) bs + sint (bs ! n)"
    using n assms(3,4) by (simp_all add: high_step)
  then have "p2_lin A B (high n as) (high n bs)
      (double_step (odd_multiples P) Bi (as ! n) (bs ! n) r)"
    using double_step_lin [OF assms(1,2,5,6) Suc.prems(2)] n by simp
  then show ?case using Suc.IH n by simp
qed

lemma top_digit_high:
  assumes "length as = 256" "length bs = 256" "n \<le> 256" "high n as = 0" "high n bs = 0"
  shows "top_digit as bs n \<le> 256 \<and> high (top_digit as bs n) as = 0 \<and>
    high (top_digit as bs n) bs = 0"
  using assms(3-5)
proof (induction n)
  case (Suc n)
  then show ?case using assms(1,2) by (auto simp: high_step [of n])
qed simp

lemma ge_double_scalarmult_correct:
  assumes "p3_lin A B 1 0 P" "Bi_ok A B Bi" "length a = 32" "length b = 32"
  shows "p2_lin A B (radix 2 (slide a)) (radix 2 (slide b)) (ge_double_scalarmult_with Bi a P b)"
proof -
  note sa = slide_correct [OF assms(3)] and sb = slide_correct [OF assms(4)]
  let ?n = "top_digit (slide a) (slide b) 256"
  have t: "?n \<le> 256" "high ?n (slide a) = 0" "high ?n (slide b) = 0"
    using top_digit_high [OF sa(1) sb(1), of 256] sa(1) sb(1) by (simp_all add: high_end)
  have "p2_lin A B (high ?n (slide a)) (high ?n (slide b)) ge_p2_0"
    using t point_lin(2) [of A B] by simp
  from double_loop_lin [OF assms(1,2) sa(1) sb(1) sa(2) sb(2) t(1) this]
  show ?thesis by (simp only: ge_double_scalarmult_with_def Let_def)
qed

section \<open>The neutral point\<close>

text \<open>Every multiple of the neutral point is the neutral point: the contracts can be met.\<close>

lemma gf_quarter: "of_int 43422033463993573283839119378257965444976244249615211514796594002967423614962 * 4 = (1 :: gf)"
proof -
  have "(of_int (43422033463993573283839119378257965444976244249615211514796594002967423614962 * 4) :: gf) = of_int 1"
    unfolding gf_of_int_eq by (simp add: fe_p_def)
  then show ?thesis by (simp only: of_int_mult of_int_numeral of_int_1)
qed

lemma neutral_lin_add:
  assumes "lin A ext_zero 0 k ext_zero"
  shows "lin A ext_zero 0 (k + 1) ext_zero"
proof -
  have "lin A ext_zero 0 (k + 1) (0, 4, 4, 0)"
    using lin.add [OF assms lin.snd] by (simp add: ext_zero_def Let_def)
  from lin.scale [OF this gf_quarter] show ?thesis by (simp only: gf_quarter mult_zero_right ext_zero_def)
qed

lemma neutral_lin: "lin A ext_zero 0 (int k) ext_zero"
proof (induction k)
  case 0
  show ?case using lin.zero by simp
next
  case (Suc k)
  then show ?case using neutral_lin_add [of A "int k"] by (simp add: add.commute)
qed

lemma neutral_contracts:
  "row_ok A ext_zero (int k) (replicate 8 ge_precomp_0)"
  "base_ok A ext_zero (replicate 32 (replicate 8 ge_precomp_0))"
  "Bi_ok A ext_zero (replicate 8 ge_precomp_0)"
proof -
  have p: "pc_lin A ext_zero 0 (int n) ge_precomp_0" for n
    unfolding pc_lin_def using precomp_0_rep neutral_lin by blast
  have r: "row_ok A ext_zero (int k) (replicate 8 ge_precomp_0)" for k
    unfolding row_ok_def using p [of "(_ + 1) * k"] by (simp add: algebra_simps)
  then show "row_ok A ext_zero (int k) (replicate 8 ge_precomp_0)" .
  show "base_ok A ext_zero (replicate 32 (replicate 8 ge_precomp_0))"
    unfolding base_ok_def using r [of "256 ^ _"] by simp
  show "Bi_ok A ext_zero (replicate 8 ge_precomp_0)"
    unfolding Bi_ok_def using p [of "2 * _ + 1"] by (simp add: add.commute)
qed

section \<open>Properties\<close>

text \<open>
  C24: the recoding of ge_scalarmult_base.c turns a scalar below 2^255 into 64 digits between
  -8 and 8 with the same value.
\<close>

theorem recode_digits:
  assumes "length a = 32" "le_value a < 2 ^ 255"
  shows "length (recode a) = 64 \<and> radix 16 (recode a) = le_value a \<and>
    (\<forall>i<64. - 8 \<le> sint (recode a ! i) \<and> sint (recode a ! i) \<le> 8)"
  using recode_correct [OF assms] by simp

theorem recode_digits_witness:
  "radix 16 (recode (replicate 32 127)) = le_value (replicate 32 127)"
proof -
  have "length (replicate 32 (127 :: u8)) = 32" "le_value (replicate 32 127) < 2 ^ 255"
    by code_simp+
  from recode_digits [OF this] show ?thesis by blast
qed

text \<open>
  C39: \<open>select\<close> of ge_scalarmult_base.c, a chain of conditional moves without a branch, reads
  the entry that its digit names, whatever the eight entries of the row are: the neutral entry
  for 0, the entry b - 1 for a digit b from 1 to 8, and for a digit from -8 to -1 the entry of
  its absolute value with y + x and y - x exchanged and the product negated.
\<close>

theorem ge_select_reads:
  assumes "- 8 \<le> sint b" "sint b \<le> 8" "\<forall>j<8. pc_len (base ! pos ! j)"
  shows "ge_select base pos b =
    (if sint b = 0 then ge_precomp_0
     else if 0 < sint b then base ! pos ! nat (sint b - 1)
     else (let t = base ! pos ! nat (- sint b - 1)
           in \<lparr>yplusx = yminusx t, yminusx = yplusx t, xy2d = fe_neg (xy2d t)\<rparr>))"
  using ge_select_entry [OF assms] by (simp add: row_entry_def pc_minus_def Let_def)

theorem ge_select_reads_witness:
  "ge_select [[], map (\<lambda>k. \<lparr>yplusx = replicate 10 k, yminusx = replicate 10 (k + 100),
      xy2d = replicate 10 (k + 200)\<rparr>) [1, 2, 3, 4, 5, 6, 7, 8]] 1 (- 5) =
    \<lparr>yplusx = replicate 10 105, yminusx = replicate 10 5, xy2d = replicate 10 (- 205)\<rparr>"
proof -
  let ?row = "map (\<lambda>k. \<lparr>yplusx = replicate 10 k, yminusx = replicate 10 (k + 100),
      xy2d = replicate 10 (k + 200)\<rparr>) [1, 2, 3, 4, 5, 6, 7, 8] :: ge_precomp list"
  have "\<forall>j<8. pc_len ([[], ?row] ! 1 ! j)"
    by (simp add: pc_len_def All_less_Suc numeral_eq_Suc)
  from ge_select_reads [OF _ _ this, of "- 5"] show ?thesis
    by (simp add: fe_neg_def eval_nat_numeral)
qed

text \<open>
  C16: ge_scalarmult_base.c computes the multiple of the base point by its scalar, for every
  table of the promised multiples.
\<close>

theorem ge_scalarmult_base_multiple:
  assumes "base_ok A B base" "length a = 32" "le_value a < 2 ^ 255"
  shows "p3_lin A B 0 (le_value a) (ge_scalarmult_base_with base a)"
  by (rule ge_scalarmult_base_correct [OF assms])

theorem ge_scalarmult_base_multiple_witness:
  "p3_lin ext_zero ext_zero 0 (le_value (replicate 32 127))
    (ge_scalarmult_base_with (replicate 32 (replicate 8 ge_precomp_0)) (replicate 32 127))"
proof -
  have "length (replicate 32 (127 :: u8)) = 32" "le_value (replicate 32 127) < 2 ^ 255"
    by code_simp+
  from ge_scalarmult_base_multiple [OF neutral_contracts(2) this] show ?thesis .
qed

text \<open>
  C23: the sliding windows of ge_double_scalarmult.c, for every 32-byte scalar: 256 digits, each
  0 or odd and at most 15 in absolute value, so that it indexes the table of odd multiples. Their
  value is the scalar when the scalar is below 2^255; for a scalar with the top bit set the carry
  of a window can run off the array, and the value is then the scalar less 2^256, as it is for
  2^256 - 1.
\<close>

theorem slide_digits:
  assumes "length a = 32"
  shows "length (slide a) = 256 \<and>
    (\<forall>i<256. slide a ! i = 0 \<or> odd (sint (slide a ! i)) \<and> \<bar>sint (slide a ! i)\<bar> \<le> 15) \<and>
    (radix 2 (slide a) = le_value a \<or>
      2 ^ 255 \<le> le_value a \<and> radix 2 (slide a) = le_value a - 2 ^ 256) \<and>
    radix 2 (slide (replicate 32 255)) = - 1"
  using slide_correct(1-3) [OF assms] slide_loses_carry by (auto simp: slide_digit_def)

theorem slide_digits_witness:
  "radix 2 (slide (replicate 32 127)) = le_value (replicate 32 127)"
proof -
  have "length (replicate 32 (127 :: u8)) = 32" "le_value (replicate 32 127) < 2 ^ 255"
    by code_simp+
  with slide_digits [of "replicate 32 127"] show ?thesis by linarith
qed

end
