(* ===== verification/Table_Check.thy ===== *)
theory Table_Check
  imports Base_Point Multiples Ge_Base
begin

text \<open>
  How the tables of the base point are verified: their entries are turned into octal numbers,
  and a function on octal numbers checks each entry against the sum of two earlier ones.
\<close>

section \<open>Linear combinations as points\<close>

lemma lin_at:
  assumes "lin A B m n P" "ext_at A a" "ext_at B b"
  shows "ext_at P (zmul m a + zmul n b)"
  using assms
proof (induction rule: lin.induct)
  case (add m n P m' n' Q)
  have "zmul (m + m') a + zmul (n + n') b = (zmul m a + zmul n b) + (zmul m' a + zmul n' b)"
    by (simp add: zmul_add ac_simps)
  then show ?case using add by (simp add: ext_at_add)
next
  case (dbl m n P)
  have "zmul (2 * m) a + zmul (2 * n) b = (zmul m a + zmul n b) + (zmul m a + zmul n b)"
    unfolding zmul_double by (simp only: ac_simps)
  then show ?case using dbl by (simp add: ext_at_dbl)
next
  case (neg m n P)
  have "zmul (- m) a + zmul (- n) b = - (zmul m a + zmul n b)" by (simp add: zmul_minus)
  then show ?case using neg by (simp only: ext_at_neg)
next
  case (scale m n X Y Z T c c')
  then show ?case by (intro ext_at_scale) auto
qed (simp_all add: ext_at_zero)

lemma lin_affine:
  assumes "lin A B m n P" "ext_at P p"
  shows "lin A B m n (affine p)"
proof -
  obtain X Y Z T where P: "P = (X, Y, Z, T)" by (metis surj_pair)
  have z: "Z \<noteq> 0" "X = Z * ex p" "Y = Z * ey p" "T = Z * (ex p * ey p)" using assms(2) by (simp_all add: P)
  then have "inverse Z * Z = 1" by simp
  from lin.scale [OF assms(1) [unfolded P] this] show ?thesis
    using z(1) unfolding z(2-4) by (simp add: affine_def mult.assoc [symmetric])
qed

lemma lin_multiple: "lin A (affine b) 0 (int k) (affine (nmul k b))"
proof (induction k)
  case 0
  have "affine 0 = ext_zero" by (simp add: affine_def ext_zero_def zero_coords)
  then show ?case using lin.zero by simp
next
  case (Suc k)
  have "lin A (affine b) (0 + 0) (1 + int k) (ext_add (affine b) (affine (nmul k b)))"
    by (rule lin.add [OF lin.snd Suc])
  from lin_affine [OF this ext_at_add [OF ext_at_affine ext_at_affine]] show ?case by simp
qed

section \<open>Octal numbers from binary ones\<close>

fun onum_of :: "num \<Rightarrow> onum" where
  "onum_of num.One = D1 E"
| "onum_of (num.Bit0 num.One) = D2 E"
| "onum_of (num.Bit1 num.One) = D3 E"
| "onum_of (num.Bit0 (num.Bit0 num.One)) = D4 E"
| "onum_of (num.Bit1 (num.Bit0 num.One)) = D5 E"
| "onum_of (num.Bit0 (num.Bit1 num.One)) = D6 E"
| "onum_of (num.Bit1 (num.Bit1 num.One)) = D7 E"
| "onum_of (num.Bit0 (num.Bit0 (num.Bit0 n))) = D0 (onum_of n)"
| "onum_of (num.Bit1 (num.Bit0 (num.Bit0 n))) = D1 (onum_of n)"
| "onum_of (num.Bit0 (num.Bit1 (num.Bit0 n))) = D2 (onum_of n)"
| "onum_of (num.Bit1 (num.Bit1 (num.Bit0 n))) = D3 (onum_of n)"
| "onum_of (num.Bit0 (num.Bit0 (num.Bit1 n))) = D4 (onum_of n)"
| "onum_of (num.Bit1 (num.Bit0 (num.Bit1 n))) = D5 (onum_of n)"
| "onum_of (num.Bit0 (num.Bit1 (num.Bit1 n))) = D6 (onum_of n)"
| "onum_of (num.Bit1 (num.Bit1 (num.Bit1 n))) = D7 (onum_of n)"

lemma ov_onum_of: "ov (onum_of n) = numeral n"
proof -
  have "8 * numeral m = (numeral (num.Bit0 (num.Bit0 (num.Bit0 m))) :: int)" for m
    by (simp only: numeral_Bit0 [of m] numeral_Bit0 [of "num.Bit0 m"] numeral_Bit0 [of "num.Bit0 (num.Bit0 m)"])
  note e = this
  show ?thesis by (induction n rule: onum_of.induct) (simp_all only: onum_of.simps ov.simps e, simp_all)
qed

definition onum_int :: "int \<Rightarrow> onum" where
  "onum_int k = (if k \<le> 0 then E else onum_of (num_of_nat (nat k)))"

lemma onum_int_rules: "onum_int 0 = E" "onum_int 1 = D1 E" "onum_int (numeral n) = onum_of n"
  "onum_int (- 1) = E" "onum_int (- numeral n) = E"
  by (simp_all add: onum_int_def numeral_num_of_nat_unfold num_of_nat_numeral_eq)

lemma ov_onum_int: "0 \<le> k \<Longrightarrow> ov (onum_int k) = k"
  by (simp add: onum_int_def ov_onum_of numeral_num_of_nat_unfold)

text \<open>The negative of a residue, from the complements of its digits.\<close>

primrec ocomp :: "onum \<Rightarrow> unit list \<Rightarrow> onum" where
  "ocomp E us = foldr (\<lambda>u. D7) us E"
| "ocomp (D0 x) us = (case us of [] \<Rightarrow> E | u # us \<Rightarrow> D7 (ocomp x us))"
| "ocomp (D1 x) us = (case us of [] \<Rightarrow> E | u # us \<Rightarrow> D6 (ocomp x us))"
| "ocomp (D2 x) us = (case us of [] \<Rightarrow> E | u # us \<Rightarrow> D5 (ocomp x us))"
| "ocomp (D3 x) us = (case us of [] \<Rightarrow> E | u # us \<Rightarrow> D4 (ocomp x us))"
| "ocomp (D4 x) us = (case us of [] \<Rightarrow> E | u # us \<Rightarrow> D3 (ocomp x us))"
| "ocomp (D5 x) us = (case us of [] \<Rightarrow> E | u # us \<Rightarrow> D2 (ocomp x us))"
| "ocomp (D6 x) us = (case us of [] \<Rightarrow> E | u # us \<Rightarrow> D1 (ocomp x us))"
| "ocomp (D7 x) us = (case us of [] \<Rightarrow> E | u # us \<Rightarrow> D0 (ocomp x us))"

lemma ocomp_rules:
  "ocomp x [] = E" "ocomp E (u # us) = D7 (ocomp E us)"
  "ocomp (D0 x) (u # us) = D7 (ocomp x us)" "ocomp (D1 x) (u # us) = D6 (ocomp x us)"
  "ocomp (D2 x) (u # us) = D5 (ocomp x us)" "ocomp (D3 x) (u # us) = D4 (ocomp x us)"
  "ocomp (D4 x) (u # us) = D3 (ocomp x us)" "ocomp (D5 x) (u # us) = D2 (ocomp x us)"
  "ocomp (D6 x) (u # us) = D1 (ocomp x us)" "ocomp (D7 x) (u # us) = D0 (ocomp x us)"
  by (cases x; simp)+

lemma ov_ocomp: "ov (ocomp x us) + ov (fst (osplit us x)) = 8 ^ length us - 1"
proof (induction us arbitrary: x)
  case Nil
  show ?case by (cases x) simp_all
next
  case (Cons u us)
  show ?case using Cons [of "snd (ouncons x)"] Cons [of E] by (cases x) (simp_all add: ocons_def)
qed

definition ominus18 :: onum where
  "ominus18 = onum_int 57896044618658097711785492504343953926634992332820282019728792003956564819931"

definition ominus19 :: onum where
  "ominus19 = onum_int 57896044618658097711785492504343953926634992332820282019728792003956564819930"

text \<open>The constant for the digits above the 85th, which are almost always 0 or 1.\<close>

definition gneg2 :: "onum \<Rightarrow> onum" where
  "gneg2 hi = gadd ominus18 (gmul ominus19 hi)"

definition ominus37 :: onum where
  "ominus37 = onum_int 57896044618658097711785492504343953926634992332820282019728792003956564819912"

definition gneg3 :: "onum \<Rightarrow> onum" where
  "gneg3 hi = (if ov hi = 0 then ominus18 else if ov hi = 1 then ominus37 else gneg2 hi)"

lemma gneg3_rules:
  "gneg3 E = ominus18" "gneg3 (D0 E) = ominus18" "gneg3 (D1 E) = ominus37" "gneg3 (D0 (D0 E)) = ominus18"
  "gneg3 (D1 (D0 E)) = ominus37"
  by (simp_all add: gneg3_def)

fun gneg1 :: "onum \<times> onum \<Rightarrow> onum" where
  "gneg1 (lo, hi) = gadd (ocomp lo digits85) (gneg3 hi)"

definition gneg :: "onum \<Rightarrow> onum" where
  "gneg x = gneg1 (osplit digits85 x)"

lemma osplit_osplit: "osplit us (fst (osplit us x)) = (fst (osplit us x), E)"
proof (induction us arbitrary: x)
  case (Cons u us)
  have "ouncons (ocons d n) = (d, n)" if "0 \<le> d" "d < 8" for d n
    using that by (auto simp: ocons_def)
  then show ?case using Cons ov_ouncons [of x] by simp
qed simp

lemma og_minus: "og ominus18 = - 18" "og ominus19 = - 19" "og ominus37 = - 37"
proof -
  have "(of_int (ov ominus18) :: gf) = of_int (- 18)" "(of_int (ov ominus19) :: gf) = of_int (- 19)"
    "(of_int (ov ominus37) :: gf) = of_int (- 37)"
    unfolding gf_of_int_eq ominus18_def ominus19_def ominus37_def onum_int_rules ov_onum_of
    by (simp_all add: fe_p_def)
  then show "og ominus18 = - 18" "og ominus19 = - 19" "og ominus37 = - 37" by (simp_all add: og_def)
qed

lemma og_gneg3: "og (gneg3 hi) = - 18 - 19 * og hi"
  by (auto simp: gneg3_def gneg2_def og_ops og_minus) (simp_all add: og_def)

lemma og_gneg: "og (gneg x) = - og x"
proof -
  obtain lo hi where s: "osplit digits85 x = (lo, hi)" by (rule prod.exhaust)
  have "osplit digits85 lo = (lo, E)" using osplit_osplit [of digits85 x] by (simp add: s)
  then have "ov (ocomp lo digits85) + ov lo = 8 ^ 85 - 1" using ov_ocomp [of lo digits85] by simp
  moreover have "(8 :: int) ^ 85 = 2 ^ 255" by simp
  ultimately have "ov (ocomp lo digits85) + ov lo = 2 ^ 255 - 1" by (simp only:)
  then have "(of_int (ov (ocomp lo digits85) + ov lo) :: gf) = of_int (2 ^ 255 - 1)" by (simp only:)
  then have "og (ocomp lo digits85) + og lo = 2 ^ 255 - 1"
    by (simp only: og_def of_int_add of_int_diff of_int_power of_int_numeral of_int_1)
  then have "og (ocomp lo digits85) = 18 - og lo" unfolding gf_two_255 by (simp add: eq_diff_eq)
  then show ?thesis using og_split [of x] by (simp add: s gneg_def og_ops og_gneg3)
qed

definition times2 :: "onum \<Rightarrow> onum" where
  "times2 x = add0 x x"

definition times4 :: "onum \<Rightarrow> onum" where
  "times4 x = ored (times2 (times2 x))"

definition times8 :: "onum \<Rightarrow> onum" where
  "times8 x = ored (D0 x)"

lemma og_times: "og (times4 x) = 4 * og x" "og (times8 x) = 8 * og x" "og (D0 (D1 E)) = 8"
  by (simp_all add: times4_def times8_def times2_def og_ored) (simp_all add: og_def ov_add)

section \<open>Table entries\<close>

text \<open>An entry with the sums y + x, y - x, x - y and 2 d x y of a point.\<close>

type_synonym oentry = "onum \<times> onum \<times> onum \<times> onum"

fun entry_at :: "oentry \<Rightarrow> edpoint \<Rightarrow> bool" where
  "entry_at (p, m, n, t) P \<longleftrightarrow>
     og p = ey P + ex P \<and> og m = ey P - ex P \<and> og n = ex P - ey P \<and> og t = 2 * ed_d * (ex P * ey P)"

text \<open>
  The limbs of a field element, the positive and the negative ones apart, from the last to
  the first.
\<close>

type_synonym opair = "onum \<times> onum"

fun pair_val :: "opair \<Rightarrow> int" where
  "pair_val (a, b) = ov a - ov b"

definition limb_oct :: "i32 \<Rightarrow> opair" where
  "limb_oct a = (onum_int (sint a), onum_int (- sint a))"

lemma limb_oct_val: "pair_val (limb_oct a) = sint a"
  by (cases "0 \<le> sint a") (simp_all add: limb_oct_def ov_onum_int, simp_all add: onum_int_def)

lemma limb_oct_rules:
  "limb_oct 0 = (E, E)" "limb_oct 1 = (D1 E, E)" "limb_oct (- 1) = (E, D1 E)"
  "numeral n < (2147483648 :: int) \<Longrightarrow> limb_oct (numeral n) = (onum_of n, E)"
  "numeral n < (2147483648 :: int) \<Longrightarrow> limb_oct (- numeral n) = (E, onum_of n)"
proof -
  have p: "sint (numeral n :: i32) = numeral n" if "numeral n < (2147483648 :: int)" for n
    using that sint_of_int [where 'a=32, of "numeral n"] by (simp add: fits_def)
  have m: "sint (- numeral n :: i32) = - numeral n" if "numeral n < (2147483648 :: int)" for n
    using that sint_of_int [where 'a=32, of "- numeral n"] by (simp add: fits_def)
  show "numeral n < (2147483648 :: int) \<Longrightarrow> limb_oct (numeral n) = (onum_of n, E)"
    "numeral n < (2147483648 :: int) \<Longrightarrow> limb_oct (- numeral n) = (E, onum_of n)"
    by (simp_all only: limb_oct_def p m onum_int_rules minus_minus)
  show "limb_oct 0 = (E, E)" "limb_oct 1 = (D1 E, E)" "limb_oct (- 1) = (E, D1 E)"
    by (simp_all add: limb_oct_def onum_int_rules)
qed

definition shift8 :: "onum \<Rightarrow> onum" where
  "shift8 x = D0 (D0 (D0 (D0 (D0 (D0 (D0 (D0 x)))))))"

fun horner_step :: "bool \<Rightarrow> opair \<Rightarrow> opair \<Rightarrow> opair" where
  "horner_step True (a, b) (c, d) = (add0 a (shift8 (times2 (times2 c))), add0 b (shift8 (times2 (times2 d))))"
| "horner_step False (a, b) (c, d) = (add0 a (shift8 (times2 c)), add0 b (shift8 (times2 d)))"

fun horner :: "bool \<Rightarrow> i32 list \<Rightarrow> opair" where
  "horner b [] = (E, E)"
| "horner b (a # as) = horner_step b (limb_oct a) (horner (\<not> b) as)"

fun horner_val :: "bool \<Rightarrow> i32 list \<Rightarrow> int" where
  "horner_val b [] = 0"
| "horner_val b (a # as) = sint a + (if b then 2 ^ 26 else 2 ^ 25) * horner_val (\<not> b) as"

lemma horner_step_val: "pair_val (horner_step b x y) = pair_val x + (if b then 2 ^ 26 else 2 ^ 25) * pair_val y"
  by (cases x; cases y; cases b) (simp_all add: shift8_def times2_def ov_add)

lemma horner_pair: "pair_val (horner b as) = horner_val b as"
  by (induction as arbitrary: b) (simp_all add: horner_step_val limb_oct_val)

lemma horner_fe_val:
  assumes "length f = 10"
  shows "horner_val True f = fe_val f"
proof -
  have "\<exists>a0 a1 a2 a3 a4 a5 a6 a7 a8 a9. f = [a0, a1, a2, a3, a4, a5, a6, a7, a8, a9]"
    using assms by (auto simp: length_Suc_conv numeral_eq_Suc)
  then show ?thesis by (auto simp: fe_val_sum sum_less_10 fe_weight_def fe_exp_def)
qed

fun pair_gf :: "opair \<Rightarrow> onum" where
  "pair_gf (a, b) = gadd a (gneg b)"

fun pair_neg :: "opair \<Rightarrow> onum" where
  "pair_neg (a, b) = gadd b (gneg a)"

lemma og_pair: "og (pair_gf x) = of_int (pair_val x)" "og (pair_neg x) = - of_int (pair_val x)"
  by (cases x; simp add: og_ops og_gneg; simp add: og_def)+

definition entry_of :: "opair \<Rightarrow> opair \<Rightarrow> opair \<Rightarrow> oentry" where
  "entry_of p m t = (pair_gf p, pair_gf m, pair_neg m, pair_gf t)"

fun entry_oct :: "ge_precomp \<Rightarrow> oentry" where
  "entry_oct e = entry_of (horner True (yplusx e)) (horner True (yminusx e)) (horner True (xy2d e))"

lemma pc_rep_entry:
  assumes "pc_bounded e" "entry_at (entry_oct e) P"
  shows "pc_rep e (affine P)"
proof -
  have w: "fe_within 33889976 16944988 f \<and> length f = 10" if "fe_within 33554432 16777216 f" for f
    using that fe_within_mono [OF that, of 33889976 16944988] by (simp add: fe_within_def)
  have "of_int (horner_val True f) = fe_gf f" if "fe_within 33554432 16777216 f" for f
    using w [OF that] by (simp add: horner_fe_val fe_gf_def)
  then show ?thesis
    using assms w by (simp add: pc_bounded_def entry_of_def affine_def fe.rep_def fe_terms_1 og_pair horner_pair)
qed

lemma pc_lin_multiple:
  assumes "pc_bounded e" "entry_at (entry_oct e) (nmul k b)"
  shows "pc_lin A (affine b) 0 (int k) e"
  unfolding pc_lin_def using pc_rep_entry [OF assms] lin_multiple by blast

section \<open>Sums\<close>

definition od2 :: onum where
  "od2 = onum_int 16295367250680780974490674513165176452449235426866156013048779062215315747161"

lemma gf_4_8: "(4 :: gf) \<noteq> 0" "(8 :: gf) \<noteq> 0"
  by (rule gf_numeral_ne_0, simp add: fe_p_def)+

lemma og_od2: "og od2 = 2 * ed_d"
proof -
  have "(of_int (ov od2) :: gf) = of_int (2 * 37095705934669439343138083508754565189542113879843219016388785533085940283555)"
    unfolding gf_of_int_eq od2_def onum_int_rules ov_onum_of by (simp add: fe_p_def)
  then show ?thesis by (simp only: og_def ed_d_def of_int_mult of_int_numeral)
qed

text \<open>
  \<open>entry_is e w s z t\<close>: the coordinates 2 x and 2 y of the entry \<open>e\<close> are w / z and s / u, and
  its last component belongs to them.
\<close>

definition entry_coords :: "onum \<Rightarrow> onum \<Rightarrow> onum \<Rightarrow> onum \<Rightarrow> onum \<Rightarrow> onum \<Rightarrow> onum \<Rightarrow> bool" where
  "entry_coords w s w' z s' u t \<longleftrightarrow> geq (gmul w z) w' \<and> geq (gmul s u) s' \<and> geq (gmul od2 (gmul w s)) (times4 t)"

fun entry_is :: "oentry \<Rightarrow> onum \<Rightarrow> onum \<Rightarrow> onum \<Rightarrow> onum \<Rightarrow> bool" where
  "entry_is (p, m, n, t) w' z s' u = entry_coords (gadd p n) (gadd p m) w' z s' u t"

fun opposite :: "oentry \<Rightarrow> bool" where
  "opposite (p, m, n, t) \<longleftrightarrow> og n = - og m"

lemma opposite_entry_oct: "opposite (entry_oct e)"
  by (simp add: entry_of_def og_pair)

lemma entry_is_at:
  assumes "entry_is e w' z s' u" "opposite e" "og z \<noteq> 0" "og u \<noteq> 0"
    "og w' = og z * (2 * ex P)" "og s' = og u * (2 * ey P)"
  shows "entry_at e P"
proof -
  obtain p m n t where e: "e = (p, m, n, t)" by (metis surj_pair)
  have n: "og n = - og m" using assms(2) by (simp add: e)
  note c = assms(1) [unfolded e entry_is.simps entry_coords_def]
  have "(og p + og n) * og z = 2 * ex P * og z" "(og p + og m) * og u = 2 * ey P * og u"
    and t: "2 * ed_d * ((og p + og n) * (og p + og m)) = 4 * og t"
    using c [THEN conjunct1, THEN geqD] c [THEN conjunct2, THEN conjunct1, THEN geqD]
      c [THEN conjunct2, THEN conjunct2, THEN geqD] assms(5,6)
    by (simp_all add: og_ops og_times og_od2 ac_simps)
  then have ws: "og p + og n = 2 * ex P" "og p + og m = 2 * ey P" using assms(3,4) by simp_all
  have four: "4 * x = 4 * y \<Longrightarrow> x = y" "2 * x = 2 * y \<Longrightarrow> x = y" for x y :: gf
    using gf_4_8 gf_two_ne_0 by simp_all
  have "og p = ey P + ex P" by (rule four(2)) (use ws n in algebra)
  moreover from this have "og m = ey P - ex P" using ws by algebra
  moreover have "og t = 2 * ed_d * (ex P * ey P)"
    by (rule four(1)) (use t [unfolded ws] in algebra)
  ultimately show ?thesis by (simp add: e n)
qed

text \<open>
  The entry after \<open>c\<close> in a row that starts with \<open>f\<close>: the sum, with \<open>q\<close> four times the product of
  the coordinates of \<open>f\<close>.
\<close>

definition sum_coords2 :: "onum \<Rightarrow> onum \<Rightarrow> onum \<Rightarrow> oentry \<Rightarrow> bool" where
  "sum_coords2 a b k e = entry_is e (times8 (gadd b (gneg a))) (gadd (D0 (D1 E)) k)
     (times8 (gadd b a)) (gadd (D0 (D1 E)) (gneg k))"

fun sum_check :: "oentry \<Rightarrow> onum \<Rightarrow> oentry \<Rightarrow> oentry \<Rightarrow> bool" where
  "sum_check (p1, m1, n1, t1) q (p2, m2, n2, t2) e = sum_coords2 (gmul m1 m2) (gmul p1 p2) (gmul q t2) e"

fun four_xy :: "oentry \<Rightarrow> onum" where
  "four_xy (p, m, n, t) = gmul (gadd p n) (gadd p m)"

lemma og_four_xy: "entry_at e P \<Longrightarrow> og (four_xy e) = 4 * (ex P * ey P)"
proof -
  assume a: "entry_at e P"
  obtain p m n t where e: "e = (p, m, n, t)" by (metis surj_pair)
  have "og p = ey P + ex P" "og m = ey P - ex P" "og n = ex P - ey P" using a by (simp_all add: e)
  then show ?thesis unfolding e four_xy.simps og_ops by algebra
qed

lemma sum_check_at:
  assumes "sum_check f q c e" "entry_at f P" "entry_at c Q" "og q = 4 * (ex P * ey P)" "opposite e"
  shows "entry_at e (P + Q)"
proof -
  obtain p1 m1 n1 t1 where f: "f = (p1, m1, n1, t1)" by (metis surj_pair)
  obtain p2 m2 n2 t2 where c: "c = (p2, m2, n2, t2)" by (metis surj_pair)
  define k where "k = ed_k P Q"
  have n: "8 * (1 + k) \<noteq> 0" "8 * (1 - k) \<noteq> 0"
    using gf_4_8 ed_k_ne [of P Q] by (simp_all only: k_def no_zero_divisors not_False_eq_True)
  have o: "og p1 = ey P + ex P" "og m1 = ey P - ex P" "og p2 = ey Q + ex Q" "og m2 = ey Q - ex Q"
    "og t2 = 2 * ed_d * (ex Q * ey Q)" using assms(2,3) by (simp_all add: f c)
  have z: "og (gadd (D0 (D1 E)) (gmul q t2)) = 8 * (1 + k)" "og (gadd (D0 (D1 E)) (gneg (gmul q t2))) = 8 * (1 - k)"
    unfolding og_ops og_gneg og_times o assms(4) k_def ed_k_def by algebra+
  have x: "8 * (1 + k) * (2 * ex (P + Q)) = 16 * (ex P * ey Q + ey P * ex Q)"
    "8 * (1 - k) * (2 * ey (P + Q)) = 16 * (ey P * ey Q + ex P * ex Q)"
  proof -
    have c: "c \<noteq> 0 \<Longrightarrow> 8 * c * (2 * (a / c)) = 16 * a" for a c :: gf by simp
    show "8 * (1 + k) * (2 * ex (P + Q)) = 16 * (ex P * ey Q + ey P * ex Q)"
      "8 * (1 - k) * (2 * ey (P + Q)) = 16 * (ey P * ey Q + ex P * ex Q)"
      unfolding plus_coords k_def by (intro c ed_k_ne)+
  qed
  show ?thesis
  proof (rule entry_is_at [OF assms(1) [unfolded f c sum_check.simps sum_coords2_def] assms(5)])
  qed (unfold z x, use n in \<open>simp_all add: og_ops og_gneg og_times o algebra_simps\<close>)
qed

fun row_check :: "oentry \<Rightarrow> onum \<Rightarrow> oentry \<Rightarrow> oentry list \<Rightarrow> bool" where
  "row_check f q c [] \<longleftrightarrow> True"
| "row_check f q c (e # es) \<longleftrightarrow> sum_check f q c e \<and> row_check f q e es"

lemma row_check_at:
  assumes "row_check f q c es" "entry_at f P" "entry_at c Q" "og q = 4 * (ex P * ey P)"
    "list_all opposite es"
  shows "i < length es \<Longrightarrow> entry_at (es ! i) (nmul (Suc i) P + Q)"
  using assms
proof (induction es arbitrary: c Q i)
  case (Cons e es)
  then have e: "entry_at e (P + Q)" by (auto intro: sum_check_at)
  show ?case
  proof (cases i)
    case 0
    then show ?thesis using e by simp
  next
    case (Suc j)
    moreover have "entry_at (es ! j) (nmul (Suc j) P + (P + Q))"
      by (rule Cons.IH) (use Cons.prems Suc e in simp_all)
    moreover have "nmul (Suc j) P + (P + Q) = nmul (Suc (Suc j)) P + Q" by (simp add: ac_simps)
    ultimately show ?thesis using Suc by (simp only: nth_Cons_Suc)
  qed
qed simp

section \<open>Doublings\<close>

type_synonym oext = "onum \<times> onum \<times> onum \<times> onum"

fun oext :: "oext \<Rightarrow> ext" where
  "oext (X, Y, Z, T) = (og X, og Y, og Z, og T)"

definition odbl4 :: "onum \<Rightarrow> onum \<Rightarrow> onum \<Rightarrow> onum \<Rightarrow> oext" where
  "odbl4 e h g f = (gmul e f, gmul g h, gmul f g, gmul e h)"

definition odbl3 :: "onum \<Rightarrow> onum \<Rightarrow> onum \<Rightarrow> onum \<Rightarrow> oext" where
  "odbl3 e h g zz = odbl4 e h g (gadd zz (gneg g))"

definition odbl2 :: "onum \<Rightarrow> onum \<Rightarrow> onum \<Rightarrow> onum \<Rightarrow> oext" where
  "odbl2 xx yy zz xy = odbl3 (gadd xy xy) (gadd yy xx) (gadd yy (gneg xx)) (gadd zz zz)"

fun odbl :: "oext \<Rightarrow> oext" where
  "odbl (X, Y, Z, T) = odbl2 (gmul X X) (gmul Y Y) (gmul Z Z) (gmul X Y)"

lemma oext_dbl: "oext (odbl v) = ext_dbl (oext v)"
  by (cases v) (simp add: odbl2_def odbl3_def odbl4_def og_ops og_gneg Let_def algebra_simps)

fun entry_ext :: "oentry \<Rightarrow> oext" where
  "entry_ext (p, m, n, t) = (gadd (gadd p n) (gadd p n), gadd (gadd p m) (gadd p m), D4 E, gmul (gadd p n) (gadd p m))"

lemma ext_at_entry:
  assumes "entry_at e P"
  shows "ext_at (oext (entry_ext e)) P"
proof -
  obtain p m n t where e: "e = (p, m, n, t)" by (metis surj_pair)
  have o: "og p = ey P + ex P" "og m = ey P - ex P" "og n = ex P - ey P" "og (D4 E) = 4"
    using assms by (simp_all add: e) (simp add: og_def)
  show ?thesis
    unfolding e entry_ext.simps oext.simps ext_at.simps og_ops o
    by (intro conjI gf_4_8) (simp_all add: algebra_simps)
qed

fun ext_check :: "oext \<Rightarrow> oentry \<Rightarrow> bool" where
  "ext_check (X, Y, Z, T) e = entry_is e (gadd X X) Z (gadd Y Y) Z"

lemma ext_check_at:
  assumes "ext_check v e" "ext_at (oext v) P" "opposite e"
  shows "entry_at e P"
proof -
  obtain X Y Z T where v: "v = (X, Y, Z, T)" by (metis surj_pair)
  show ?thesis
  proof (rule entry_is_at [OF assms(1) [unfolded v ext_check.simps] assms(3)])
  qed (use assms(2) in \<open>simp_all add: v og_ops\<close>)
qed

text \<open>A row of base.h after the row whose last entry is \<open>c\<close>: 8 is doubled five times to 256.\<close>

fun next_row_check :: "oentry \<Rightarrow> oentry list \<Rightarrow> bool" where
  "next_row_check c [] \<longleftrightarrow> False"
| "next_row_check c (e # es) \<longleftrightarrow> ext_check (odbl (odbl (odbl (odbl (odbl (entry_ext c)))))) e \<and> row_check e (four_xy e) e es"

definition row_at :: "oentry list \<Rightarrow> edpoint \<Rightarrow> bool" where
  "row_at es P \<longleftrightarrow> length es = 8 \<and> (\<forall>j<8. entry_at (es ! j) (nmul (Suc j) P))"

lemma row_atI:
  assumes "row_check e (four_xy e) e es" "entry_at e P" "list_all opposite es" "length es = 7"
  shows "row_at (e # es) P"
  unfolding row_at_def
proof (intro conjI allI impI)
  fix j :: nat
  assume "j < 8"
  then show "entry_at ((e # es) ! j) (nmul (Suc j) P)"
    using row_check_at [OF assms(1,2,2) og_four_xy [OF assms(2)] assms(3), of "j - 1"] assms(2,4)
    by (cases j) (simp_all add: add.commute)
qed (simp add: assms(4))

lemma next_row_at:
  assumes "next_row_check (es ! 7) es'" "row_at es P" "length es' = 8" "list_all opposite es'"
  shows "row_at es' (nmul 256 P)"
proof -
  obtain e ds where es': "es' = e # ds" using assms(3) by (cases es') auto
  have "Suc 7 = 8" by simp
  then have c: "entry_at (es ! 7) (nmul 8 P)" using assms(2) unfolding row_at_def by (metis lessI)
  have "nmul 256 P = nmul (2 * (2 * (2 * (2 * (2 * 8))))) P" by simp
  then have "ext_at (oext (odbl (odbl (odbl (odbl (odbl (entry_ext (es ! 7)))))))) (nmul 256 P)"
    unfolding oext_dbl by (simp only: nmul_double ext_at_dbl ext_at_entry c)
  then have "entry_at e (nmul 256 P)" using assms(1,4) by (auto intro: ext_check_at simp: es')
  then show ?thesis using assms unfolding es' by (auto intro: row_atI)
qed

lemmas table_eval = octal_eval onum_of.simps onum_int_rules ocomp_rules gneg1.simps gneg_def times4_def times8_def
  entry_coords_def entry_is.simps sum_coords2_def sum_check.simps four_xy.simps row_check.simps
  pair_gf.simps pair_neg.simps entry_of_def times2_def odbl4_def odbl3_def odbl2_def odbl.simps entry_ext.simps ext_check.simps next_row_check.simps simp_thms
  od2_def ominus18_def ominus37_def gneg3_rules horner_step.simps shift8_def

text \<open>The checks on the tables themselves.\<close>

definition first_row_ok :: "ge_precomp list \<Rightarrow> bool" where
  "first_row_ok row \<longleftrightarrow> (case map entry_oct row of [] \<Rightarrow> False
     | e # es \<Rightarrow> entry_is e (times2 ox) (D1 E) (times2 oy) (D1 E) \<and> row_check e (four_xy e) e es)"

definition next_row_ok :: "ge_precomp list \<Rightarrow> ge_precomp list \<Rightarrow> bool" where
  "next_row_ok row row' \<longleftrightarrow> next_row_check (entry_oct (last row)) (map entry_oct row')"

lemma opposite_entries: "list_all opposite (map entry_oct row)"
  by (simp add: list_all_iff opposite_entry_oct del: entry_oct.simps)

lemma first_row_at:
  assumes "first_row_ok row" "length row = 8"
  shows "row_at (map entry_oct row) base_point"
proof -
  obtain x xs where row: "row = x # xs" "length xs = 7" using assms(2) by (cases row) auto
  have "og (D1 E) = 1" "og (times2 ox) = 2 * ex base_point" "og (times2 oy) = 2 * ey base_point"
    by (simp_all add: base_coords og_base [symmetric]) (simp_all add: og_def times2_def ov_add)
  then have "entry_at (entry_oct x) base_point"
    using assms(1) by (auto intro!: entry_is_at [of _ "times2 ox" "D1 E" "times2 oy" "D1 E"]
      simp: first_row_ok_def row opposite_entry_oct simp del: entry_oct.simps)
  with assms(1) row opposite_entries [of xs] show ?thesis
    by (auto intro: row_atI simp: first_row_ok_def simp del: entry_oct.simps)
qed

lemma next_row_ok_at:
  assumes "next_row_ok row row'" "row_at (map entry_oct row) P" "length row' = 8"
  shows "row_at (map entry_oct row') (nmul 256 P)"
proof -
  have "length row = 8" using assms(2) by (simp add: row_at_def)
  moreover from this have "last row = row ! 7" by (subst last_conv_nth) auto
  ultimately show ?thesis
    using assms next_row_at [of "map entry_oct row" "map entry_oct row'" P]
    by (simp add: next_row_ok_def opposite_entries del: entry_oct.simps)
qed

fun rows_ok :: "ge_precomp list \<Rightarrow> ge_precomp list list \<Rightarrow> bool" where
  "rows_ok row [] \<longleftrightarrow> True"
| "rows_ok row (row' # rows) \<longleftrightarrow> next_row_ok row row' \<and> length row' = 8 \<and> rows_ok row' rows"

lemma rows_ok_at:
  assumes "rows_ok row rows" "row_at (map entry_oct row) P" "i < Suc (length rows)"
  shows "row_at (map entry_oct ((row # rows) ! i)) (nmul (256 ^ i) P)"
  using assms
proof (induction rows arbitrary: row P i)
  case (Cons row' rows)
  show ?case
  proof (cases i)
    case (Suc j)
    have "row_at (map entry_oct row') (nmul 256 P)"
      using Cons.prems by (intro next_row_ok_at [of row]) (simp_all del: entry_oct.simps)
    then have "row_at (map entry_oct ((row' # rows) ! j)) (nmul (256 ^ j) (nmul 256 P))"
      using Cons.prems Suc by (intro Cons.IH) (simp_all del: entry_oct.simps)
    then show ?thesis by (simp add: Suc nmul_mult [symmetric] mult.commute del: entry_oct.simps nmul.simps)
  qed (use Cons.prems in \<open>simp del: entry_oct.simps\<close>)
qed simp

text \<open>The table of base2.h: each entry is the one before it and 2 B, the second of the first row.\<close>

definition odd_row_ok :: "ge_precomp list \<Rightarrow> ge_precomp list \<Rightarrow> bool" where
  "odd_row_ok row odds \<longleftrightarrow> (case (map entry_oct (take 2 row), map entry_oct odds) of
     ([b, d], e # es) \<Rightarrow> entry_is e (times2 ox) (D1 E) (times2 oy) (D1 E) \<and> row_check d (four_xy d) e es
   | _ \<Rightarrow> False)"

lemma odd_row_at:
  assumes "odd_row_ok row odds" "row_at (map entry_oct row) base_point" "length odds = 8" "j < 8"
  shows "entry_at (entry_oct (odds ! j)) (nmul (2 * j + 1) base_point)"
proof -
  let ?B = base_point
  have l: "length row = 8" using assms(2) by (simp add: row_at_def)
  obtain x xs where o: "odds = x # xs" "length xs = 7" using assms(3) by (cases odds) auto
  have "take 2 row = [row ! 0, row ! 1]" using l by (auto simp: numeral_eq_Suc length_Suc_conv)
  then have c: "entry_is (entry_oct x) (times2 ox) (D1 E) (times2 oy) (D1 E)"
    "row_check (entry_oct (row ! 1)) (four_xy (entry_oct (row ! 1))) (entry_oct x) (map entry_oct xs)"
    using assms(1) by (simp_all add: odd_row_ok_def o del: entry_oct.simps)
  have "og (D1 E) = 1" "og (times2 ox) = 2 * ex ?B" "og (times2 oy) = 2 * ey ?B"
    by (simp_all add: base_coords og_base [symmetric]) (simp_all add: og_def times2_def ov_add)
  then have e: "entry_at (entry_oct x) ?B"
    using c(1) by (auto intro!: entry_is_at [of _ "times2 ox" "D1 E" "times2 oy" "D1 E"]
      simp: opposite_entry_oct simp del: entry_oct.simps)
  have d: "entry_at (entry_oct (row ! 1)) (nmul 2 ?B)"
    using assms(2) l unfolding row_at_def by (auto dest: spec [of _ 1] simp: numeral_2_eq_2 simp del: entry_oct.simps)
  show ?thesis
  proof (cases j)
    case 0
    then show ?thesis using e by (simp add: o del: entry_oct.simps)
  next
    case (Suc i)
    have "nmul (Suc i) (nmul 2 ?B) + ?B = nmul (Suc i * 2 + 1) ?B"
      by (simp only: nmul_mult nmul_add) simp
    moreover have "Suc i * 2 + 1 = 2 * j + 1" using Suc by simp
    moreover have "entry_at (map entry_oct xs ! i) (nmul (Suc i) (nmul 2 ?B) + ?B)"
      using row_check_at [OF c(2) d e og_four_xy [OF d] opposite_entries, of i] assms(4) o(2) Suc by simp
    ultimately have "entry_at (map entry_oct xs ! i) (nmul (2 * j + 1) ?B)" by metis
    then show ?thesis using assms(4) o Suc by (simp del: entry_oct.simps nmul.simps mult_Suc_right)
  qed
qed

lemma last_rules: "last [x] = x" "last (x # y # xs) = last (y # xs)"
  by simp_all

lemma take_two: "take 2 (x # y # xs) = [x, y]"
  by simp

lemmas limb_eval = entry_oct.simps ge_precomp.select_convs horner.simps limb_oct_rules rel_simps simp_thms
  list.map list.case prod.case first_row_ok_def next_row_ok_def odd_row_ok_def last_rules take_two ox_def oy_def

end
