(* ===== verification/Base_Table.thy ===== *)
theory Base_Table
  imports Table_Check
begin

text \<open>
  The tables of base.h and base2.h hold the multiples of the base point that their comments
  promise: each row is evaluated.
\<close>

section \<open>The rows\<close>

lemma row_0_ok: "first_row_ok base_row_0"
  by (simp only: base_row_0_def limb_eval table_eval)

lemma row_1_ok: "next_row_ok base_row_0 base_row_1"
  by (simp only: base_row_0_def base_row_1_def limb_eval table_eval)

lemma row_2_ok: "next_row_ok base_row_1 base_row_2"
  by (simp only: base_row_1_def base_row_2_def limb_eval table_eval)

lemma row_3_ok: "next_row_ok base_row_2 base_row_3"
  by (simp only: base_row_2_def base_row_3_def limb_eval table_eval)

lemma row_4_ok: "next_row_ok base_row_3 base_row_4"
  by (simp only: base_row_3_def base_row_4_def limb_eval table_eval)

lemma row_5_ok: "next_row_ok base_row_4 base_row_5"
  by (simp only: base_row_4_def base_row_5_def limb_eval table_eval)

lemma row_6_ok: "next_row_ok base_row_5 base_row_6"
  by (simp only: base_row_5_def base_row_6_def limb_eval table_eval)

lemma row_7_ok: "next_row_ok base_row_6 base_row_7"
  by (simp only: base_row_6_def base_row_7_def limb_eval table_eval)

lemma row_8_ok: "next_row_ok base_row_7 base_row_8"
  by (simp only: base_row_7_def base_row_8_def limb_eval table_eval)

lemma row_9_ok: "next_row_ok base_row_8 base_row_9"
  by (simp only: base_row_8_def base_row_9_def limb_eval table_eval)

lemma row_10_ok: "next_row_ok base_row_9 base_row_10"
  by (simp only: base_row_9_def base_row_10_def limb_eval table_eval)

lemma row_11_ok: "next_row_ok base_row_10 base_row_11"
  by (simp only: base_row_10_def base_row_11_def limb_eval table_eval)

lemma row_12_ok: "next_row_ok base_row_11 base_row_12"
  by (simp only: base_row_11_def base_row_12_def limb_eval table_eval)

lemma row_13_ok: "next_row_ok base_row_12 base_row_13"
  by (simp only: base_row_12_def base_row_13_def limb_eval table_eval)

lemma row_14_ok: "next_row_ok base_row_13 base_row_14"
  by (simp only: base_row_13_def base_row_14_def limb_eval table_eval)

lemma row_15_ok: "next_row_ok base_row_14 base_row_15"
  by (simp only: base_row_14_def base_row_15_def limb_eval table_eval)

lemma row_16_ok: "next_row_ok base_row_15 base_row_16"
  by (simp only: base_row_15_def base_row_16_def limb_eval table_eval)

lemma row_17_ok: "next_row_ok base_row_16 base_row_17"
  by (simp only: base_row_16_def base_row_17_def limb_eval table_eval)

lemma row_18_ok: "next_row_ok base_row_17 base_row_18"
  by (simp only: base_row_17_def base_row_18_def limb_eval table_eval)

lemma row_19_ok: "next_row_ok base_row_18 base_row_19"
  by (simp only: base_row_18_def base_row_19_def limb_eval table_eval)

lemma row_20_ok: "next_row_ok base_row_19 base_row_20"
  by (simp only: base_row_19_def base_row_20_def limb_eval table_eval)

lemma row_21_ok: "next_row_ok base_row_20 base_row_21"
  by (simp only: base_row_20_def base_row_21_def limb_eval table_eval)

lemma row_22_ok: "next_row_ok base_row_21 base_row_22"
  by (simp only: base_row_21_def base_row_22_def limb_eval table_eval)

lemma row_23_ok: "next_row_ok base_row_22 base_row_23"
  by (simp only: base_row_22_def base_row_23_def limb_eval table_eval)

lemma row_24_ok: "next_row_ok base_row_23 base_row_24"
  by (simp only: base_row_23_def base_row_24_def limb_eval table_eval)

lemma row_25_ok: "next_row_ok base_row_24 base_row_25"
  by (simp only: base_row_24_def base_row_25_def limb_eval table_eval)

lemma row_26_ok: "next_row_ok base_row_25 base_row_26"
  by (simp only: base_row_25_def base_row_26_def limb_eval table_eval)

lemma row_27_ok: "next_row_ok base_row_26 base_row_27"
  by (simp only: base_row_26_def base_row_27_def limb_eval table_eval)

lemma row_28_ok: "next_row_ok base_row_27 base_row_28"
  by (simp only: base_row_27_def base_row_28_def limb_eval table_eval)

lemma row_29_ok: "next_row_ok base_row_28 base_row_29"
  by (simp only: base_row_28_def base_row_29_def limb_eval table_eval)

lemma row_30_ok: "next_row_ok base_row_29 base_row_30"
  by (simp only: base_row_29_def base_row_30_def limb_eval table_eval)

lemma row_31_ok: "next_row_ok base_row_30 base_row_31"
  by (simp only: base_row_30_def base_row_31_def limb_eval table_eval)

lemma Bi_ok_check: "odd_row_ok base_row_0 Bi"
  by (simp only: base_row_0_def Bi_def limb_eval table_eval)

section \<open>The multiples\<close>

lemmas rows_checked = row_1_ok row_2_ok row_3_ok row_4_ok row_5_ok row_6_ok row_7_ok row_8_ok row_9_ok row_10_ok row_11_ok row_12_ok row_13_ok row_14_ok row_15_ok row_16_ok row_17_ok row_18_ok row_19_ok row_20_ok row_21_ok row_22_ok row_23_ok row_24_ok row_25_ok row_26_ok row_27_ok row_28_ok row_29_ok row_30_ok row_31_ok

lemma base_rows_at: "i < 32 \<Longrightarrow> row_at (map entry_oct (base ! i)) (nmul (256 ^ i) base_point)"
proof -
  have b: "base = base_row_0 # tl base" by (simp add: base_def)
  have "rows_ok base_row_0 (tl base)"
    by (simp only: base_def list.sel rows_ok.simps rows_checked base_rows_bounded simp_thms)
  then have "i < 32 \<Longrightarrow> row_at (map entry_oct ((base_row_0 # tl base) ! i)) (nmul (256 ^ i) base_point)"
    by (rule rows_ok_at) (simp_all only: first_row_at [OF row_0_ok base_row_0_bounded(1)] length_tl base_bounded(1))
  then show "i < 32 \<Longrightarrow> row_at (map entry_oct (base ! i)) (nmul (256 ^ i) base_point)" by (simp only: b [symmetric])
qed

lemma Bi_at: "j < 8 \<Longrightarrow> entry_at (entry_oct (Bi ! j)) (nmul (2 * j + 1) base_point)"
  by (rule odd_row_at [OF Bi_ok_check first_row_at [OF row_0_ok base_row_0_bounded(1)] Bi_bounded(1)])

end
