(* ===== verification/Base_Group.thy ===== *)
theory Base_Group
  imports Base_Table
begin

text \<open>
  The scalar multiplications on the tables of base.h and base2.h, in the group of the curve.
\<close>

section \<open>The contracts of the scalar multiplications\<close>

lemma base_table_ok: "base_ok A (affine base_point) base"
  unfolding base_ok_def row_ok_def
proof (intro allI impI)
  fix i j :: nat
  assume i: "i < 32" and j: "j < 8"
  have "length (base ! i) = 8 \<and> list_all pc_bounded (base ! i)"
    using base_bounded i by (simp add: list_all_length)
  then have "pc_bounded (base ! i ! j)" using j by (simp add: list_all_length)
  moreover have "entry_at (entry_oct (base ! i ! j)) (nmul (Suc j) (nmul (256 ^ i) base_point))"
    using base_rows_at [OF i] j unfolding row_at_def by (metis length_map nth_map)
  ultimately have "pc_lin A (affine base_point) 0 (int (Suc j * 256 ^ i)) (base ! i ! j)"
    by (intro pc_lin_multiple) (simp_all only: nmul_mult)
  moreover have "int (Suc j * 256 ^ i) = (int j + 1) * 256 ^ i" by (simp add: distrib_right)
  ultimately show "pc_lin A (affine base_point) 0 ((int j + 1) * 256 ^ i) (base ! i ! j)" by simp
qed

lemma Bi_table_ok: "Bi_ok A (affine base_point) Bi"
  unfolding Bi_ok_def
proof (intro allI impI)
  fix j :: nat
  assume j: "j < 8"
  have "pc_bounded (Bi ! j)" using Bi_bounded j by (simp add: list_all_length)
  moreover have "int (2 * j + 1) = 2 * int j + 1" by simp
  ultimately show "pc_lin A (affine base_point) 0 (2 * int j + 1) (Bi ! j)"
    using pc_lin_multiple [OF _ Bi_at [OF j]] by metis
qed

section \<open>The multiplications in the group\<close>

definition p3_at :: "ge_p3 \<Rightarrow> edpoint \<Rightarrow> bool" where
  "p3_at h P \<longleftrightarrow> (\<exists>v. p3_rep h v \<and> ext_at v P)"

definition p2_at :: "ge_p2 \<Rightarrow> edpoint \<Rightarrow> bool" where
  "p2_at h P \<longleftrightarrow> (\<exists>v. p2_rep h v \<and> ext_at v P)"

lemma ge_scalarmult_base_at:
  assumes "length a = 32" "le_value a < 2 ^ 255"
  shows "p3_at (ge_scalarmult_base a) (zmul (le_value a) base_point)"
proof -
  have "p3_lin ext_zero (affine base_point) 0 (le_value a) (ge_scalarmult_base_with base a)"
    by (rule ge_scalarmult_base_correct [OF base_table_ok assms])
  then show ?thesis
    using lin_at [OF _ ext_at_zero ext_at_affine]
    unfolding p3_at_def p3_lin_def ge_scalarmult_base_def by fastforce
qed

lemma ge_double_scalarmult_digits_at:
  assumes "p3_at A P" "length a = 32" "length b = 32"
  shows "p2_at (ge_double_scalarmult_vartime a A b)
    (zmul (radix 2 (slide a)) P + zmul (radix 2 (slide b)) base_point)"
proof -
  obtain v where v: "p3_rep A v" "ext_at v P" using assms(1) by (auto simp: p3_at_def)
  have "p3_lin v (affine base_point) 1 0 A" unfolding p3_lin_def using v(1) lin.fst by blast
  from ge_double_scalarmult_correct [OF this Bi_table_ok assms(2-)] show ?thesis
    using lin_at [OF _ v(2) ext_at_affine]
    unfolding p2_at_def p2_lin_def ge_double_scalarmult_vartime_def by blast
qed

lemma ge_double_scalarmult_at:
  assumes "p3_at A P" "length a = 32" "le_value a < 2 ^ 255" "length b = 32" "le_value b < 2 ^ 255"
  shows "p2_at (ge_double_scalarmult_vartime a A b) (zmul (le_value a) P + zmul (le_value b) base_point)"
  using ge_double_scalarmult_digits_at [OF assms(1,2,4)] slide_correct(4) assms(2-) by simp

section \<open>Properties\<close>

lemma entry_of_multiple:
  assumes "pc_bounded e" "entry_at (entry_oct e) P"
  shows "\<exists>Q. pc_rep e Q \<and> ext_at Q P"
  using pc_rep_entry [OF assms] ext_at_affine by blast

text \<open>
  C9: the entry (i, j) of base.h stands for the point (j + 1) 256^i B and the entry j of base2.h
  for (2 j + 1) B, with limbs within the bound of a precomputed point.
\<close>

theorem tables_hold_multiples:
  assumes "i < 32" "j < 8"
  shows "(\<exists>Q. pc_rep (base ! i ! j) Q \<and> ext_at Q (nmul ((j + 1) * 256 ^ i) base_point)) \<and>
    (\<exists>Q. pc_rep (Bi ! j) Q \<and> ext_at Q (nmul (2 * j + 1) base_point))"
proof (intro conjI entry_of_multiple)
  have "length (base ! i) = 8 \<and> list_all pc_bounded (base ! i)"
    using base_bounded assms(1) by (simp add: list_all_length)
  then show "pc_bounded (base ! i ! j)" using assms(2) by (simp add: list_all_length)
  have "entry_at (entry_oct (base ! i ! j)) (nmul (Suc j) (nmul (256 ^ i) base_point))"
    using base_rows_at [OF assms(1)] assms(2) unfolding row_at_def by (metis length_map nth_map)
  then show "entry_at (entry_oct (base ! i ! j)) (nmul ((j + 1) * 256 ^ i) base_point)"
    by (simp only: nmul_mult Suc_eq_plus1)
  show "pc_bounded (Bi ! j)" using Bi_bounded assms(2) by (simp add: list_all_length)
qed (rule Bi_at [OF assms(2)])

theorem tables_hold_multiples_witness:
  "\<exists>Q. pc_rep (base ! 31 ! 7) Q \<and> ext_at Q (nmul ((7 + 1) * 256 ^ 31) base_point)"
  using tables_hold_multiples [of 31 7] by simp

text \<open>
  C17: ge_double_scalarmult.c computes a A + b B, on the table of base2.h, for scalars below 2^255
  (the comment at its head names 32-byte scalars of any value). A scalar a with the top bit set
  can count as a - 2^256, when its recoding has lost the last carry: in general it counts with the
  value of its digits, which is one of the two.
\<close>

theorem ge_double_scalarmult_sum:
  assumes "p3_at A P" "length a = 32" "length b = 32"
  shows "(le_value a < 2 ^ 255 \<and> le_value b < 2 ^ 255 \<longrightarrow>
      p2_at (ge_double_scalarmult_vartime a A b) (zmul (le_value a) P + zmul (le_value b) base_point)) \<and>
    (\<exists>m n. m \<in> {le_value a, le_value a - 2 ^ 256} \<and> n \<in> {le_value b, le_value b - 2 ^ 256} \<and>
      m = radix 2 (slide a) \<and> n = radix 2 (slide b) \<and>
      p2_at (ge_double_scalarmult_vartime a A b) (zmul m P + zmul n base_point))"
  using ge_double_scalarmult_at [OF assms(1)] ge_double_scalarmult_digits_at [OF assms]
    slide_correct(3) assms(2,3) by blast

theorem ge_double_scalarmult_sum_witness:
  "p2_at (ge_double_scalarmult_vartime (5 # replicate 31 0) (ge_scalarmult_base (3 # replicate 31 0))
    (7 # replicate 31 0)) (zmul 22 base_point)"
proof -
  have v: "le_value (k # replicate 31 0) = uint k" for k by simp
  have l: "length (k # replicate 31 (0 :: u8)) = 32" for k :: u8 by simp
  have "p3_at (ge_scalarmult_base (3 # replicate 31 0)) (zmul 3 base_point)"
    using ge_scalarmult_base_at [OF l, of 3] by (simp add: v)
  from ge_double_scalarmult_sum [OF this l l, of 5 7]
  have "p2_at (ge_double_scalarmult_vartime (5 # replicate 31 0) (ge_scalarmult_base (3 # replicate 31 0))
    (7 # replicate 31 0)) (zmul 5 (zmul 3 base_point) + zmul 7 base_point)"
    by (simp add: v)
  moreover have "zmul 5 (zmul 3 base_point) + zmul 7 base_point = zmul 22 base_point"
    using zmul_add [of 15 7 base_point] zmul_mult [of 5 3 base_point] by simp
  ultimately show ?thesis by simp
qed

end
