(* ===== verification/Point_Codec.thy ===== *)
theory Point_Codec
  imports Base_Group
begin

text \<open>
  The encoding of points in 32 bytes. As the residues are a field and -1 is a square, the
  square-root candidate of ge_frombytes.c is a root up to the factor it tries whenever there
  is one, so decoding inverts encoding.
\<close>

section \<open>Encoding\<close>

definition encode :: "edpoint \<Rightarrow> u8 list" where
  "encode P = le_bytes 32 (Rep_gf (ey P) + 2 ^ 255 * (Rep_gf (ex P) mod 2))"

lemma encode_number:
  "le_value (encode P) = Rep_gf (ey P) + 2 ^ 255 * (Rep_gf (ex P) mod 2)"
  "le_value (encode P) mod 2 ^ 255 = Rep_gf (ey P)"
  "le_value (encode P) div 2 ^ 255 = Rep_gf (ex P) mod 2"
proof -
  define r b where "r = Rep_gf (ey P)" and "b = Rep_gf (ex P) mod 2"
  have r: "0 \<le> r" "r < fe_p" using Rep_gf [of "ey P"] by (simp_all add: r_def)
  then have r': "r < 2 ^ 255" by (simp add: fe_p_def)
  have b: "b = 0 \<or> b = 1" by (auto simp: b_def)
  have v: "le_value (encode P) = r + 2 ^ 255 * b"
    using r r' b by (auto simp: encode_def le_value_le_bytes r_def [symmetric] b_def [symmetric] mod_pos_pos_trivial)
  show "le_value (encode P) = Rep_gf (ey P) + 2 ^ 255 * (Rep_gf (ex P) mod 2)"
    using v by (simp only: r_def b_def)
  show "le_value (encode P) mod 2 ^ 255 = Rep_gf (ey P)"
    unfolding v mod_mult_self2 using r r' by (simp only: r_def mod_pos_pos_trivial)
  have "(r + 2 ^ 255 * b) div 2 ^ 255 = b + r div 2 ^ 255" by (rule div_mult_self2) simp
  then show "le_value (encode P) div 2 ^ 255 = Rep_gf (ex P) mod 2"
    unfolding v using div_pos_pos_trivial [OF r(1) r'] by (simp only: b_def add_0_right)
qed

lemma length_encode [simp, len_simps]: "length (encode P) = 32"
  by (simp add: encode_def)

lemma gf_of_Rep: "of_int (Rep_gf x) = (x :: gf)"
  using Rep_gf [of x] by (simp add: Rep_gf_inject [symmetric] Rep_gf_of_int mod_pos_pos_trivial)

lemma top_bit_div:
  assumes "length s = 32"
  shows "uint (s ! 31) div 128 = le_value s div 2 ^ 255"
proof -
  have "drop 31 s = [s ! 31]" using assms Cons_nth_drop_Suc [of 31 s] by simp
  then have "uint (s ! 31) = le_value s div 256 ^ 31" using le_value_drop [of 31 s] by simp
  moreover have "(256 :: int) ^ 31 * 128 = 2 ^ 255" by simp
  ultimately show ?thesis by (metis zdiv_zmult2_eq zero_le_numeral)
qed

lemma ge_tobytes_at:
  assumes "p2_at h P"
  shows "ge_tobytes h = encode P"
proof -
  obtain v where v: "p2_rep h v" "ext_at v P" using assms by (auto simp: p2_at_def)
  obtain X Y Z T where e: "v = (X, Y, Z, T)" by (metis surj_pair)
  have z: "Z \<noteq> 0" "X = Z * ex P" "Y = Z * ey P" using v(2) by (simp_all add: e)
  have w: "Z ^ (2 ^ 255 - 21) = inverse Z" by (simp only: inverse_gf_def)
  note t = ge_tobytes_rep [OF v(1) [unfolded e]]
  have "Y * inverse Z = ey P" "X * inverse Z = ex P" using z by simp_all
  with t show ?thesis unfolding w by (intro le_value_inj) (simp_all add: encode_number)
qed

lemma ge_p3_tobytes_at:
  assumes "p3_at h P"
  shows "ge_p3_tobytes h = encode P"
proof -
  obtain v where v: "p3_rep h v" "ext_at v P" using assms unfolding p3_at_def by blast
  then have "p2_at (ge_p3_to_p2 h) P" unfolding p2_at_def using p3_to_p2_rep by blast
  from ge_tobytes_at [OF this] show ?thesis by (simp only: ge_p3_tobytes_p2 [OF v(1)])
qed

section \<open>Square roots\<close>

lemma half_power:
  assumes "(s :: gf) \<noteq> 0"
  shows "s ^ (2 ^ 254 - 10) = 1 \<or> s ^ (2 ^ 254 - 10) = - 1"
proof -
  have "nat (fe_p - 1) = (2 ^ 254 - 10) * 2" by (simp add: fe_p_def)
  then have "s ^ (2 ^ 254 - 10) * s ^ (2 ^ 254 - 10) = 1"
    using gf_fermat [OF assms] by (simp only: power_mult power2_eq_square)
  then show ?thesis by (simp only: square_eq_1_iff)
qed

lemma ed_v_ne_0: "ed_v y \<noteq> 0"
proof
  assume "ed_v y = 0"
  then have z: "1 + ed_d * (y * y) = 0" by (simp add: ed_v_def algebra_simps)
  then have "y \<noteq> 0" by auto
  moreover have "ed_i * ed_i = ed_d * (y * y)" using z ed_i_square by algebra
  ultimately show False using square_ratio by blast
qed

lemma root_candidate:
  assumes "x * x * v = u"
  shows "Ge.ed_root u v * Ge.ed_root u v * v = u \<or> Ge.ed_root u v * Ge.ed_root u v * v = - u"
proof -
  define s where "s = x * (v * v * v * v)"
  define n :: nat where "n = 2 ^ 252 - 3"
  have w: "u * v ^ 7 = s * s" unfolding s_def assms [symmetric] by (simp add: power_numeral_reduce ac_simps)
  have r: "Ge.ed_root u v = (s * s) ^ n * v ^ 3 * u" by (simp only: Ge.ed_root_def w n_def)
  have "Ge.ed_root u v * Ge.ed_root u v * v = (s * s) ^ n * (s * s) ^ n * (u * v ^ 7) * u"
    unfolding r by (simp add: power_numeral_reduce ac_simps)
  also have "\<dots> = (s * s) ^ n * (s * s) ^ n * (s * s) * u" by (simp only: w)
  also have "(s * s) ^ n * (s * s) ^ n * (s * s) = s ^ (4 * n + 2)"
    by (simp add: power_add power_mult_distrib mult_2 numeral_eq_Suc ac_simps flip: power_mult)
  also have "4 * n + 2 = 2 ^ 254 - 10" by (simp add: n_def)
  finally have c: "Ge.ed_root u v * Ge.ed_root u v * v = s ^ (2 ^ 254 - 10) * u" .
  show ?thesis
  proof (cases "s = 0")
    case True
    then have "x = 0 \<or> v = 0" by (auto simp: s_def)
    then have "u = 0" using assms by auto
    then show ?thesis by (simp add: Ge.ed_root_def)
  next
    case False
    then show ?thesis using half_power unfolding c by fastforce
  qed
qed

lemma same_y:
  assumes "ed_curve x y" "ed_curve x' y"
  shows "x' = x \<or> x' = - x"
proof -
  have "x * x * ed_v y = ed_u y" "x' * x' * ed_v y = ed_u y"
    using assms by (simp_all add: ed_curve_def ed_v_def ed_u_def) algebra+
  then have "x * x * ed_v y = x' * x' * ed_v y" by simp
  then have "x' * x' = x * x" using ed_v_ne_0 by simp
  then show ?thesis by (simp add: square_eq_iff)
qed

text \<open>The 32 bytes determine the point.\<close>

lemma encode_inj_iff: "encode P = encode Q \<longleftrightarrow> P = Q"
proof
  assume e: "encode P = encode Q"
  have y: "ey P = ey Q"
    using arg_cong [OF e, of "\<lambda>s. le_value s mod 2 ^ 255"]
    unfolding encode_number(2) by (simp only: Rep_gf_inject)
  have parity: "Rep_gf (ex P) mod 2 = Rep_gf (ex Q) mod 2"
    using arg_cong [OF e, of "\<lambda>s. le_value s div 2 ^ 255"] unfolding encode_number(3) .
  have "ex Q = ex P \<or> ex Q = - ex P"
    using same_y [of "ex P" "ey P" "ex Q"] ed_on_curve [of P] ed_on_curve [of Q] by (simp add: y)
  moreover have "ex Q \<noteq> - ex P" if "ex P \<noteq> 0"
  proof
    assume "ex Q = - ex P"
    then have "Rep_gf (ex Q) = fe_p - Rep_gf (ex P)" using that by (simp add: Rep_gf_neg)
    then show False using parity fe_p_odd by presburger
  qed
  ultimately have "ex P = ex Q" by (cases "ex P = 0") auto
  with y show "P = Q" by (intro edpoint_eqI)
qed simp

section \<open>Decoding inverts encoding\<close>

lemma decode_encode:
  "fst (ge_frombytes_negate_vartime h (encode P)) = 0"
  "p3_at (snd (ge_frombytes_negate_vartime h (encode P))) (- P)"
proof -
  define x y where "x = ex P" and "y = ey P"
  have c: "ed_curve x y" using ed_on_curve [of P] by (simp add: x_def y_def)
  have y: "of_int (le_value (encode P) mod 2 ^ 255) = y"
    unfolding encode_number(2) gf_of_Rep y_def ..
  have "x * x * ed_v y = ed_u y" using c by (simp add: ed_curve_def ed_v_def ed_u_def) algebra
  note g = root_candidate [OF this]
  note f = ge_frombytes_correct [OF length_encode [of P], where h = h, unfolded y]
  show "fst (ge_frombytes_negate_vartime h (encode P)) = 0" using f(1) g by simp
  obtain x' where x': "p3_rep (snd (ge_frombytes_negate_vartime h (encode P))) (x', y, 1, x' * y)"
    "on_curve (x', y, 1, x' * y)" "x' = 0 \<or> Rep_gf x' mod 2 \<noteq> uint (encode P ! 31) div 128"
    using f(2) [OF g] by blast
  have "ed_curve x' y" using x'(2) by (simp add: ed_curve_def ac_simps)
  from same_y [OF c this] have "x' = - x"
  proof
    assume "x' = x"
    then have "x = 0" using x'(3) unfolding top_bit_div [OF length_encode] encode_number(3) by (simp add: x_def)
    with \<open>x' = x\<close> show "x' = - x" by simp
  qed
  then have "ext_at (x', y, 1, x' * y) (- P)" by (simp add: uminus_coords x_def y_def)
  with x'(1) show "p3_at (snd (ge_frombytes_negate_vartime h (encode P))) (- P)" unfolding p3_at_def by blast
qed

section \<open>What the decoder accepts\<close>

lemma ed_curve_root: "ed_curve x y \<longleftrightarrow> x * x * ed_v y = ed_u y"
proof -
  have "x * x * ed_v y - ed_u y = 1 + ed_d * (x * x) * (y * y) - (y * y - x * x)"
    unfolding ed_v_def ed_u_def by (simp add: algebra_simps)
  then show ?thesis
    unfolding ed_curve_def eq_iff_diff_eq_0 [of "x * x * ed_v y"]
    by (simp only: eq_iff_diff_eq_0 [of "1 + _", symmetric] eq_commute [of "y * y - x * x"])
qed

lemma ge_frombytes_decides:
  fixes s h
  assumes s: "length s = 32"
  defines "y \<equiv> of_int (le_value s mod 2 ^ 255)"
  shows "if \<exists>x. ed_curve x y
    then fst (ge_frombytes_negate_vartime h s) = 0 \<and>
      (\<exists>P. p3_at (snd (ge_frombytes_negate_vartime h s)) P \<and> ey P = y \<and>
        (ex P = 0 \<or> Rep_gf (ex P) mod 2 \<noteq> uint (s ! 31) div 128))
    else fst (ge_frombytes_negate_vartime h s) = - 1"
proof -
  define c where "c = Ge.ed_root (ed_u y) (ed_v y)"
  define good where "good \<longleftrightarrow> c * c * ed_v y = ed_u y \<or> c * c * ed_v y = - ed_u y"
  note f = ge_frombytes_correct [OF s, where h = h, folded y_def, folded c_def, folded good_def]
  have good: "good" if "ed_curve x y" for x
    unfolding good_def c_def using that by (intro root_candidate) (simp only: ed_curve_root)
  have point: "\<exists>P. p3_at (snd (ge_frombytes_negate_vartime h s)) P \<and> ey P = y \<and>
      (ex P = 0 \<or> Rep_gf (ex P) mod 2 \<noteq> uint (s ! 31) div 128)" if g: good
  proof -
    obtain x where x: "p3_rep (snd (ge_frombytes_negate_vartime h s)) (x, y, 1, x * y)"
      "on_curve (x, y, 1, x * y)" "x = 0 \<or> Rep_gf x mod 2 \<noteq> uint (s ! 31) div 128"
      using f(2) [OF g] by blast
    then have "ed_curve x y" by (simp add: ed_curve_def ac_simps)
    then have P: "ex (ed_point x y) = x" "ey (ed_point x y) = y" by simp_all
    then have "ext_at (x, y, 1, x * y) (ed_point x y)" by simp
    with x(1) have "p3_at (snd (ge_frombytes_negate_vartime h s)) (ed_point x y)"
      unfolding p3_at_def by (intro exI conjI)
    moreover have "ey (ed_point x y) = y \<and>
        (ex (ed_point x y) = 0 \<or> Rep_gf (ex (ed_point x y)) mod 2 \<noteq> uint (s ! 31) div 128)"
      using x(3) unfolding P by (intro conjI refl)
    ultimately show ?thesis by (rule exI [of _ "ed_point x y", OF conjI])
  qed
  show ?thesis
  proof (cases "\<exists>x. ed_curve x y")
    case True
    then have g: good using good by blast
    with True point [OF g] f(1) show ?thesis by simp
  next
    case False
    have "\<not> good"
    proof
      assume good
      then obtain P where "ey P = y" using point by blast
      then have "ed_curve (ex P) y" using ed_on_curve [of P] by simp
      with False show False by blast
    qed
    with False f(1) show ?thesis by simp
  qed
qed

section \<open>Properties\<close>

text \<open>
  C11: ge_frombytes.c inverts ge_p3_tobytes.c up to the sign it promises: from the encoding of
  any point it restores the negated point, and it never rejects it.
\<close>

theorem ge_frombytes_tobytes:
  assumes "p3_at A P"
  shows "\<exists>A'. ge_frombytes_negate_vartime h (ge_p3_tobytes A) = (0, A') \<and> p3_at A' (- P) \<and>
    ge_p3_tobytes A' = encode (- P)"
proof -
  note d = decode_encode [of h P]
  show ?thesis unfolding ge_p3_tobytes_at [OF assms] using d ge_p3_tobytes_at [OF d(2)]
    by (metis prod.collapse)
qed

theorem ge_frombytes_tobytes_witness:
  "\<exists>A'. ge_frombytes_negate_vartime ge_p3_0 (ge_p3_tobytes ge_p3_0) = (0, A') \<and> p3_at A' (- 0) \<and>
    ge_p3_tobytes A' = encode (- 0)"
proof -
  have "p3_at ge_p3_0 0" unfolding p3_at_def using p3_0_rep ext_at_zero by blast
  then show ?thesis by (rule ge_frombytes_tobytes)
qed

text \<open>
  C20: ge_frombytes.c accepts a 32-byte string exactly when some point of the curve has its low
  255 bits as y. An accepted string gives 0 and, as the name of the function says, the point with
  that y and the negated x: the parity of x is opposite to the top bit (unless x is 0, where
  either sign is accepted). A rejected string gives -1.
\<close>

theorem ge_frombytes_decodes:
  assumes "length s = 32" "y = of_int (le_value s mod 2 ^ 255)"
  shows "if \<exists>x. ed_curve x y
    then \<exists>h' P. ge_frombytes_negate_vartime h s = (0, h') \<and> p3_at h' P \<and> ey P = y \<and>
      (ex P = 0 \<or> Rep_gf (ex P) mod 2 \<noteq> uint (s ! 31) div 128)
    else fst (ge_frombytes_negate_vartime h s) = - 1"
proof -
  note d = ge_frombytes_decides [OF assms(1), of h, folded assms(2)]
  show ?thesis
  proof (cases "\<exists>x. ed_curve x y")
    case True
    with d show ?thesis by (metis prod.collapse)
  qed (use d in simp)
qed

theorem ge_frombytes_decodes_witness:
  "\<exists>h'. ge_frombytes_negate_vartime ge_p3_0 (88 # replicate 31 102) = (0, h') \<and> p3_at h' (- base_point)"
proof -
  let ?s = "88 # replicate 31 (102 :: u8)"
  have v: "le_value ?s mod 2 ^ 255 = base_y" by (simp only: base_y_def) code_simp
  have y: "ey base_point = of_int (le_value ?s mod 2 ^ 255)" by (simp only: v base_coords)
  have c: "ed_curve (ex base_point) (ey base_point)" by (rule ed_on_curve)
  have "length ?s = 32" by simp
  note d = ge_frombytes_decodes [OF this y, of ge_p3_0]
  have "\<exists>x. ed_curve x (ey base_point)" using c by (rule exI)
  from d [unfolded if_P [OF this]]
  obtain h' P where h: "ge_frombytes_negate_vartime ge_p3_0 ?s = (0, h')" "p3_at h' P"
    "ey P = ey base_point" "ex P = 0 \<or> Rep_gf (ex P) mod 2 \<noteq> uint (?s ! 31) div 128"
    by (elim exE conjE)
  have top: "uint (?s ! 31) div 128 = 0" by simp
  have "Rep_gf (ex base_point) = base_x"
    unfolding base_coords Rep_gf_of_int by (simp add: base_x_def fe_p_def)
  then have even: "Rep_gf (ex base_point) mod 2 = 0" "Rep_gf (ex base_point) \<noteq> 0"
    by (simp_all add: base_x_def)
  then have "ex base_point \<noteq> 0" using zero_gf.rep_eq by metis
  moreover have "ex P = ex base_point \<or> ex P = - ex base_point"
    using same_y [OF c, of "ex P"] ed_on_curve [of P] by (simp add: h(3))
  ultimately have "ex P = - ex base_point" using h(4) even(1) top by auto
  then have "P = - base_point" using h(3) by (intro edpoint_eqI) (simp_all add: uminus_coords)
  with h(1,2) show ?thesis by blast
qed

end
