(* ===== verification/Sc.thy ===== *)
theory Sc
  imports Fe_Bytes
begin

text \<open>
  Scalars modulo the group order l: sc_reduce.c and sc_muladd.c. Both work on 24 signed limbs
  of 21 bits in 64-bit words; they are runs of the limb machine, and sc_muladd.c ends with the
  statements of sc_reduce.c.
\<close>

section \<open>The group order\<close>

definition sc_l :: int where
  "sc_l = 2 ^ 252 + 27742317777372353535851937790883648493"

section \<open>Loading\<close>

text \<open>The 24 limbs of a 64-byte string, and the 12 limbs of a 32-byte string.\<close>

definition sc_limbs :: "u8 list \<Rightarrow> i64 list" where
  "sc_limbs s =
    [2097151 AND load_3 s 0,
     2097151 AND drop_bit 5 (load_4 s 2),
     2097151 AND drop_bit 2 (load_3 s 5),
     2097151 AND drop_bit 7 (load_4 s 7),
     2097151 AND drop_bit 4 (load_4 s 10),
     2097151 AND drop_bit 1 (load_3 s 13),
     2097151 AND drop_bit 6 (load_4 s 15),
     2097151 AND drop_bit 3 (load_3 s 18),
     2097151 AND load_3 s 21,
     2097151 AND drop_bit 5 (load_4 s 23),
     2097151 AND drop_bit 2 (load_3 s 26),
     2097151 AND drop_bit 7 (load_4 s 28),
     2097151 AND drop_bit 4 (load_4 s 31),
     2097151 AND drop_bit 1 (load_3 s 34),
     2097151 AND drop_bit 6 (load_4 s 36),
     2097151 AND drop_bit 3 (load_3 s 39),
     2097151 AND load_3 s 42,
     2097151 AND drop_bit 5 (load_4 s 44),
     2097151 AND drop_bit 2 (load_3 s 47),
     2097151 AND drop_bit 7 (load_4 s 49),
     2097151 AND drop_bit 4 (load_4 s 52),
     2097151 AND drop_bit 1 (load_3 s 55),
     2097151 AND drop_bit 6 (load_4 s 57),
     drop_bit 3 (load_4 s 60)]"

definition sc_limbs12 :: "u8 list \<Rightarrow> i64 list" where
  "sc_limbs12 s =
    [2097151 AND load_3 s 0,
     2097151 AND drop_bit 5 (load_4 s 2),
     2097151 AND drop_bit 2 (load_3 s 5),
     2097151 AND drop_bit 7 (load_4 s 7),
     2097151 AND drop_bit 4 (load_4 s 10),
     2097151 AND drop_bit 1 (load_3 s 13),
     2097151 AND drop_bit 6 (load_4 s 15),
     2097151 AND drop_bit 3 (load_3 s 18),
     2097151 AND load_3 s 21,
     2097151 AND drop_bit 5 (load_4 s 23),
     2097151 AND drop_bit 2 (load_3 s 26),
     drop_bit 7 (load_4 s 28)]"

section \<open>The reduction\<close>

text \<open>
  The three statements the two files consist of: limb \<open>i\<close> is folded into the limbs twelve
  below by 2^252 = -27742317777372353535851937790883648493 modulo l; a rounded carry; a
  plain carry.
\<close>

definition sc_fold :: "nat \<Rightarrow> limb_step" where
  "sc_fold i =
     Fold i [(i - 12, 666643), (i - 11, 470296), (i - 10, 654183), (i - 9, - 997805),
       (i - 8, 136657), (i - 7, - 683901)]"

definition sc_round :: "nat \<Rightarrow> limb_step" where
  "sc_round i = Carry i 21 (2 ^ 20) [(i + 1, 1)]"

definition sc_carry :: "nat \<Rightarrow> limb_step" where
  "sc_carry i = Carry i 21 0 [(i + 1, 1)]"

definition sc_folds :: "limb_step list" where
  "sc_folds =
     map sc_fold [23, 22, 21, 20, 19, 18] @
     map sc_round [6, 8, 10, 12, 14, 16] @ map sc_round [7, 9, 11, 13, 15] @
     map sc_fold [17, 16, 15, 14, 13, 12] @
     map sc_round [0, 2, 4, 6, 8, 10] @ map sc_round [1, 3, 5, 7, 9, 11] @
     map sc_fold [12] @ map sc_carry [0, 1, 2, 3, 4, 5, 6, 7, 8, 9, 10, 11]"

definition sc_finish :: "limb_step list" where
  "sc_finish = sc_fold 12 # map sc_carry [0, 1, 2, 3, 4, 5, 6, 7, 8, 9, 10]"

definition sc_store :: "i64 list \<Rightarrow> u8 list" where
  "sc_store s =
    [ucast (signed_drop_bit 0 (s ! 0)),
     ucast (signed_drop_bit 8 (s ! 0)),
     ucast (signed_drop_bit 16 (s ! 0) OR push_bit 5 (s ! 1)),
     ucast (signed_drop_bit 3 (s ! 1)),
     ucast (signed_drop_bit 11 (s ! 1)),
     ucast (signed_drop_bit 19 (s ! 1) OR push_bit 2 (s ! 2)),
     ucast (signed_drop_bit 6 (s ! 2)),
     ucast (signed_drop_bit 14 (s ! 2) OR push_bit 7 (s ! 3)),
     ucast (signed_drop_bit 1 (s ! 3)),
     ucast (signed_drop_bit 9 (s ! 3)),
     ucast (signed_drop_bit 17 (s ! 3) OR push_bit 4 (s ! 4)),
     ucast (signed_drop_bit 4 (s ! 4)),
     ucast (signed_drop_bit 12 (s ! 4)),
     ucast (signed_drop_bit 20 (s ! 4) OR push_bit 1 (s ! 5)),
     ucast (signed_drop_bit 7 (s ! 5)),
     ucast (signed_drop_bit 15 (s ! 5) OR push_bit 6 (s ! 6)),
     ucast (signed_drop_bit 2 (s ! 6)),
     ucast (signed_drop_bit 10 (s ! 6)),
     ucast (signed_drop_bit 18 (s ! 6) OR push_bit 3 (s ! 7)),
     ucast (signed_drop_bit 5 (s ! 7)),
     ucast (signed_drop_bit 13 (s ! 7)),
     ucast (signed_drop_bit 0 (s ! 8)),
     ucast (signed_drop_bit 8 (s ! 8)),
     ucast (signed_drop_bit 16 (s ! 8) OR push_bit 5 (s ! 9)),
     ucast (signed_drop_bit 3 (s ! 9)),
     ucast (signed_drop_bit 11 (s ! 9)),
     ucast (signed_drop_bit 19 (s ! 9) OR push_bit 2 (s ! 10)),
     ucast (signed_drop_bit 6 (s ! 10)),
     ucast (signed_drop_bit 14 (s ! 10) OR push_bit 7 (s ! 11)),
     ucast (signed_drop_bit 1 (s ! 11)),
     ucast (signed_drop_bit 9 (s ! 11)),
     ucast (signed_drop_bit 17 (s ! 11))]"

text \<open>\<open>sc_reduce\<close> overwrites the first 32 of the 64 bytes of its argument.\<close>

definition sc_reduce :: "u8 list \<Rightarrow> u8 list" where
  "sc_reduce s = sc_store (run_w (sc_folds @ sc_finish) (sc_limbs s)) @ drop 32 s"

section \<open>Multiplication and addition\<close>

text \<open>
  The sums of products of sc_muladd.c. The code forms them on 64-bit words; the definition is
  generic in the ring so that the same text also gives the exact integers.
\<close>

definition sc_products :: "'a::comm_ring_1 list \<Rightarrow> 'a list \<Rightarrow> 'a list \<Rightarrow> 'a list" where
  "sc_products a b c =
    [c ! 0 + a ! 0 * b ! 0,
     c ! 1 + a ! 0 * b ! 1 + a ! 1 * b ! 0,
     c ! 2 + a ! 0 * b ! 2 + a ! 1 * b ! 1 + a ! 2 * b ! 0,
     c ! 3 + a ! 0 * b ! 3 + a ! 1 * b ! 2 + a ! 2 * b ! 1 + a ! 3 * b ! 0,
     c ! 4 + a ! 0 * b ! 4 + a ! 1 * b ! 3 + a ! 2 * b ! 2 + a ! 3 * b ! 1 + a ! 4 * b ! 0,
     c ! 5 + a ! 0 * b ! 5 + a ! 1 * b ! 4 + a ! 2 * b ! 3 + a ! 3 * b ! 2 + a ! 4 * b ! 1 +
       a ! 5 * b ! 0,
     c ! 6 + a ! 0 * b ! 6 + a ! 1 * b ! 5 + a ! 2 * b ! 4 + a ! 3 * b ! 3 + a ! 4 * b ! 2 +
       a ! 5 * b ! 1 + a ! 6 * b ! 0,
     c ! 7 + a ! 0 * b ! 7 + a ! 1 * b ! 6 + a ! 2 * b ! 5 + a ! 3 * b ! 4 + a ! 4 * b ! 3 +
       a ! 5 * b ! 2 + a ! 6 * b ! 1 + a ! 7 * b ! 0,
     c ! 8 + a ! 0 * b ! 8 + a ! 1 * b ! 7 + a ! 2 * b ! 6 + a ! 3 * b ! 5 + a ! 4 * b ! 4 +
       a ! 5 * b ! 3 + a ! 6 * b ! 2 + a ! 7 * b ! 1 + a ! 8 * b ! 0,
     c ! 9 + a ! 0 * b ! 9 + a ! 1 * b ! 8 + a ! 2 * b ! 7 + a ! 3 * b ! 6 + a ! 4 * b ! 5 +
       a ! 5 * b ! 4 + a ! 6 * b ! 3 + a ! 7 * b ! 2 + a ! 8 * b ! 1 + a ! 9 * b ! 0,
     c ! 10 + a ! 0 * b ! 10 + a ! 1 * b ! 9 + a ! 2 * b ! 8 + a ! 3 * b ! 7 + a ! 4 * b ! 6
       + a ! 5 * b ! 5 + a ! 6 * b ! 4 + a ! 7 * b ! 3 + a ! 8 * b ! 2 + a ! 9 * b ! 1 + a !
       10 * b ! 0,
     c ! 11 + a ! 0 * b ! 11 + a ! 1 * b ! 10 + a ! 2 * b ! 9 + a ! 3 * b ! 8 + a ! 4 * b !
       7 + a ! 5 * b ! 6 + a ! 6 * b ! 5 + a ! 7 * b ! 4 + a ! 8 * b ! 3 + a ! 9 * b ! 2 + a
       ! 10 * b ! 1 + a ! 11 * b ! 0,
     a ! 1 * b ! 11 + a ! 2 * b ! 10 + a ! 3 * b ! 9 + a ! 4 * b ! 8 + a ! 5 * b ! 7 + a ! 6
       * b ! 6 + a ! 7 * b ! 5 + a ! 8 * b ! 4 + a ! 9 * b ! 3 + a ! 10 * b ! 2 + a ! 11 * b
       ! 1,
     a ! 2 * b ! 11 + a ! 3 * b ! 10 + a ! 4 * b ! 9 + a ! 5 * b ! 8 + a ! 6 * b ! 7 + a ! 7
       * b ! 6 + a ! 8 * b ! 5 + a ! 9 * b ! 4 + a ! 10 * b ! 3 + a ! 11 * b ! 2,
     a ! 3 * b ! 11 + a ! 4 * b ! 10 + a ! 5 * b ! 9 + a ! 6 * b ! 8 + a ! 7 * b ! 7 + a ! 8
       * b ! 6 + a ! 9 * b ! 5 + a ! 10 * b ! 4 + a ! 11 * b ! 3,
     a ! 4 * b ! 11 + a ! 5 * b ! 10 + a ! 6 * b ! 9 + a ! 7 * b ! 8 + a ! 8 * b ! 7 + a ! 9
       * b ! 6 + a ! 10 * b ! 5 + a ! 11 * b ! 4,
     a ! 5 * b ! 11 + a ! 6 * b ! 10 + a ! 7 * b ! 9 + a ! 8 * b ! 8 + a ! 9 * b ! 7 + a !
       10 * b ! 6 + a ! 11 * b ! 5,
     a ! 6 * b ! 11 + a ! 7 * b ! 10 + a ! 8 * b ! 9 + a ! 9 * b ! 8 + a ! 10 * b ! 7 + a !
       11 * b ! 6,
     a ! 7 * b ! 11 + a ! 8 * b ! 10 + a ! 9 * b ! 9 + a ! 10 * b ! 8 + a ! 11 * b ! 7,
     a ! 8 * b ! 11 + a ! 9 * b ! 10 + a ! 10 * b ! 9 + a ! 11 * b ! 8,
     a ! 9 * b ! 11 + a ! 10 * b ! 10 + a ! 11 * b ! 9,
     a ! 10 * b ! 11 + a ! 11 * b ! 10,
     a ! 11 * b ! 11,
     0]"

definition sc_muladd_carries :: "limb_step list" where
  "sc_muladd_carries =
     map sc_round [0, 2, 4, 6, 8, 10, 12, 14, 16, 18, 20, 22] @
     map sc_round [1, 3, 5, 7, 9, 11, 13, 15, 17, 19, 21]"

definition sc_muladd :: "u8 list \<Rightarrow> u8 list \<Rightarrow> u8 list \<Rightarrow> u8 list" where
  "sc_muladd a b c =
     (let s = sc_products (sc_limbs12 a) (sc_limbs12 b) (sc_limbs12 c)
      in sc_store (run_w (sc_muladd_carries @ sc_folds @ sc_finish) s))"

section \<open>The runs\<close>

definition sc_weight :: "nat \<Rightarrow> int" where
  "sc_weight i = 2 ^ (21 * i)"

text \<open>The last fold in exact integers: limb 12 weighs what it is folded into.\<close>

definition sc_weight' :: "nat \<Rightarrow> int" where
  "sc_weight' i = (if i = 12 then - 27742317777372353535851937790883648493 else 2 ^ (21 * i))"

definition sc_reduce_ivls :: "ivl list" where
  "sc_reduce_ivls =
    [(0, 2097151), (0, 2097151), (0, 2097151), (0, 2097151), (0, 2097151), (0, 2097151),
     (0, 2097151), (0, 2097151), (0, 2097151), (0, 2097151), (0, 2097151), (0, 2097151),
     (0, 2097151), (0, 2097151), (0, 2097151), (0, 2097151), (0, 2097151), (0, 2097151),
     (0, 2097151), (0, 2097151), (0, 2097151), (0, 2097151), (0, 2097151), (0, 536870911)]"

definition sc_folded_ivls :: "ivl list" where
  "sc_folded_ivls =
    [(0, 2097151), (0, 2097151), (0, 2097151), (0, 2097151), (0, 2097151), (0, 2097151),
     (0, 2097151), (0, 2097151), (0, 2097151), (0, 2097151), (0, 2097151), (0, 2097151),
     (- 1, 0), (0, 0), (0, 0), (0, 0), (0, 0), (0, 0), (0, 0), (0, 0), (0, 0), (0, 0), (0,
     0), (0, 0)]"

definition sc_final_ivls :: "ivl list" where
  "sc_final_ivls =
    [(0, 2097151), (0, 2097151), (0, 2097151), (0, 2097151), (0, 2097151), (0, 2097151),
     (0, 2097151), (0, 2097151), (0, 2097151), (0, 2097151), (0, 2097151), (- 1, 2097152),
     (0, 0), (0, 0), (0, 0), (0, 0), (0, 0), (0, 0), (0, 0), (0, 0), (0, 0), (0, 0), (0,
     0), (0, 0)]"

lemmas sc_step_defs = sc_fold_def sc_round_def sc_carry_def
lemmas sc_ivl_defs = sc_reduce_ivls_def sc_folded_ivls_def sc_final_ivls_def

lemma sc_weight_add: "sc_weight (k + j) = sc_weight k * 2 ^ (21 * j)"
  by (simp add: sc_weight_def power_add algebra_simps)

lemma sc_fold_ok:
  assumes "12 \<le> i" "i < n"
  shows "step_ok sc_weight sc_l n (sc_fold i)"
proof -
  define k where "k = i - 12"
  have i: "i - 12 = k + 0" "i - 11 = k + 1" "i - 10 = k + 2" "i - 9 = k + 3" "i - 8 = k + 4"
    "i - 7 = k + 5" "i = k + 12"
    using assms by (simp_all add: k_def)
  let ?ts = "[(i - 12, 666643), (i - 11, 470296), (i - 10, 654183), (i - 9, - 997805),
    (i - 8, 136657), (i - 7, - 683901)]"
  have "target_weight sc_weight ?ts - sc_weight i = sc_weight k * - sc_l"
    unfolding target_weight.simps i(1-6) unfolding i(7) sc_weight_add
    by (simp add: sc_l_def algebra_simps)
  moreover have "targets_ok n i ?ts" using assms by auto
  ultimately show ?thesis using assms by (simp add: sc_fold_def del: target_weight.simps)
qed

lemma sc_carry_ok:
  assumes "i + 1 < n"
  shows "step_ok sc_weight M n (sc_round i)" "step_ok sc_weight M n (sc_carry i)"
  using assms by (simp_all add: sc_round_def sc_carry_def sc_weight_def power_add)

lemmas sc_ok = sc_fold_ok sc_carry_ok

interpretation sc_fold_run: limb_program "TYPE(64)" sc_weight sc_l sc_folds
  sc_reduce_ivls sc_folded_ivls
proof unfold_locales
  show "list_all (step_ok sc_weight sc_l (length sc_reduce_ivls)) sc_folds"
    by (simp add: sc_folds_def sc_reduce_ivls_def sc_ok)
  have "run_i 64 sc_folds sc_reduce_ivls = Some sc_folded_ivls" by code_simp
  then show "run_i LENGTH(64) sc_folds sc_reduce_ivls = Some sc_folded_ivls" by simp
qed

interpretation sc_finish_run: limb_program "TYPE(64)" sc_weight' 0 sc_finish
  sc_folded_ivls sc_final_ivls
proof unfold_locales
  show "list_all (step_ok sc_weight' 0 (length sc_folded_ivls)) sc_finish"
    by (simp add: sc_finish_def sc_step_defs sc_folded_ivls_def sc_weight'_def)
  have "run_i 64 sc_finish sc_folded_ivls = Some sc_final_ivls" by code_simp
  then show "run_i LENGTH(64) sc_finish sc_folded_ivls = Some sc_final_ivls" by simp
qed

section \<open>Loading limbs\<close>

definition sc_ints :: "nat \<Rightarrow> nat \<Rightarrow> int \<Rightarrow> int list" where
  "sc_ints n m v =
     map (\<lambda>i. v div 2 ^ (21 * i) mod 2 ^ 21) [0..<n] @ [v div 2 ^ (21 * n) mod 2 ^ m]"

lemma length_sc_ints [simp]: "length (sc_ints n m v) = Suc n"
  by (simp add: sc_ints_def)

lemma sc_ints_nth:
  "i < n \<Longrightarrow> sc_ints n m v ! i = v div 2 ^ (21 * i) mod 2 ^ 21"
  "sc_ints n m v ! n = v div 2 ^ (21 * n) mod 2 ^ m"
  by (simp_all add: sc_ints_def nth_append)

lemma sc_digits_sum:
  "(\<Sum>i<n. 2 ^ (21 * i) * (v div 2 ^ (21 * i) mod 2 ^ 21)) = v mod (2 :: int) ^ (21 * n)"
proof (induction n)
  case (Suc n)
  have "v mod 2 ^ (21 * Suc n) =
      v mod 2 ^ (21 * n) + 2 ^ (21 * n) * (v div 2 ^ (21 * n) mod 2 ^ 21)"
    by (rule mod_split_at) simp
  with Suc show ?case by simp
qed simp

lemma sc_ints_value: "limb_value sc_weight (sc_ints n m v) = v mod 2 ^ (21 * n + m)"
proof -
  have "limb_value sc_weight (sc_ints n m v) =
      (\<Sum>i<n. 2 ^ (21 * i) * (v div 2 ^ (21 * i) mod 2 ^ 21)) +
      2 ^ (21 * n) * (v div 2 ^ (21 * n) mod 2 ^ m)"
    unfolding limb_value_def by (simp add: sc_ints_nth sc_weight_def)
  also have "\<dots> = v mod 2 ^ (21 * n + m)" unfolding sc_digits_sum by (rule mod_split_pow [symmetric])
  finally show ?thesis .
qed

lemma bits_of_part:
  assumes "t + k \<le> (n :: nat)"
  shows "(v div 256 ^ b mod 2 ^ n) div 2 ^ t mod 2 ^ k = v div 2 ^ (8 * b + t) mod (2 :: int) ^ k"
proof -
  have b: "(256 :: int) ^ b = 2 ^ (8 * b)" by (simp add: power_mult)
  have "take_bit k (drop_bit t (take_bit n (drop_bit (8 * b) v))) =
      take_bit k (drop_bit (8 * b + t) v)"
    using assms by (simp add: drop_bit_take_bit take_bit_take_bit min_absorb1 le_diff_conv2 ac_simps)
  then show ?thesis by (simp only: b take_bit_eq_mod drop_bit_eq_div)
qed

lemma drop_bit_of_int:
  assumes "0 \<le> x" "x < 2 ^ 64"
  shows "drop_bit t (word_of_int x :: i64) = word_of_int (x div 2 ^ t)"
proof -
  have "uint (word_of_int x :: i64) = x"
    using assms by (simp add: uint_word_of_int mod_pos_pos_trivial)
  then have u: "uint (drop_bit t (word_of_int x :: i64)) = x div 2 ^ t"
    using assms by (subst unsigned_drop_bit_eq) (simp add: drop_bit_eq_div take_bit_int_eq_self)
  show ?thesis unfolding u [symmetric] by simp
qed

lemma mod_pow_lt_64: "n \<le> 64 \<Longrightarrow> x mod 2 ^ n < (2 :: int) ^ 64"
  using pos_mod_bound [of "2 ^ n" x] power_increasing [of n 64 "2 :: int"]
  by (simp del: pos_mod_bound)

lemma mask_21: "2097151 AND (word_of_int x :: i64) = word_of_int (x mod 2 ^ 21)"
  using and_mask_int [where 'a=64, of x 21] by (simp add: and.commute)

lemma sc_load:
  assumes "b + 2 < length s"
  shows "t + 21 \<le> 24 \<Longrightarrow> 2097151 AND drop_bit t (load_3 s b) =
      word_of_int (le_value s div 2 ^ (8 * b + t) mod 2 ^ 21)"
    and "2097151 AND load_3 s b = word_of_int (le_value s div 2 ^ (8 * b) mod 2 ^ 21)"
    and "b + 3 < length s \<Longrightarrow> t + 21 \<le> 32 \<Longrightarrow> 2097151 AND drop_bit t (load_4 s b) =
      word_of_int (le_value s div 2 ^ (8 * b + t) mod 2 ^ 21)"
    and "b + 3 < length s \<Longrightarrow> t + k = 32 \<Longrightarrow> drop_bit t (load_4 s b) =
      word_of_int (le_value s div 2 ^ (8 * b + t) mod 2 ^ k)"
proof -
  have d: "drop_bit t (word_of_int (x mod 2 ^ n) :: i64) = word_of_int (x mod 2 ^ n div 2 ^ t)"
    if "n \<le> 64" for x t n
    using that by (intro drop_bit_of_int mod_pow_lt_64) simp_all
  show "t + 21 \<le> 24 \<Longrightarrow> 2097151 AND drop_bit t (load_3 s b) =
      word_of_int (le_value s div 2 ^ (8 * b + t) mod 2 ^ 21)"
    using assms bits_of_part [of t 21 24 "le_value s" b]
    by (simp only: load_3_value d mask_21)
  show "2097151 AND load_3 s b = word_of_int (le_value s div 2 ^ (8 * b) mod 2 ^ 21)"
    using assms bits_of_part [of 0 21 24 "le_value s" b]
    by (simp only: load_3_value mask_21 power_0 div_by_1 add_0_right)
  show "b + 3 < length s \<Longrightarrow> t + 21 \<le> 32 \<Longrightarrow> 2097151 AND drop_bit t (load_4 s b) =
      word_of_int (le_value s div 2 ^ (8 * b + t) mod 2 ^ 21)"
    using bits_of_part [of t 21 32 "le_value s" b] by (simp only: load_4_value d mask_21)
  assume b: "b + 3 < length s" and tk: "t + k = 32"
  have "le_value s div 256 ^ b mod 2 ^ 32 div 2 ^ t < 2 ^ k"
    using tk pos_mod_bound [of "2 ^ 32" "le_value s div 256 ^ b"] by (intro div_less_power) simp
  moreover have "0 \<le> le_value s div 256 ^ b mod 2 ^ 32 div 2 ^ t"
    by (simp add: pos_imp_zdiv_nonneg_iff)
  ultimately show "drop_bit t (load_4 s b) =
      word_of_int (le_value s div 2 ^ (8 * b + t) mod 2 ^ k)"
    using b tk bits_of_part [of t k 32 "le_value s" b]
    by (simp only: load_4_value d mod_pos_pos_trivial)
qed

lemma sc_limbs_words:
  assumes "length s = 64"
  shows "sc_limbs s = map word_of_int (sc_ints 23 29 (le_value s))"
  using assms unfolding sc_limbs_def sc_ints_def
  by (simp add: sc_load(1,2,3) sc_load(4) [where k = 29] upt_conv_Cons del: power_numeral)

lemma sc_limbs12_words:
  assumes "length s = 32"
  shows "sc_limbs12 s = map word_of_int (sc_ints 11 25 (le_value s))"
proof -
  have "y mod 2 ^ 25 mod 2 ^ 21 = (y mod 2 ^ 21 :: int)" for y
    by (simp add: mod_mod_cancel)
  then show ?thesis
    using assms unfolding sc_limbs12_def sc_ints_def
    by (simp add: sc_load(1,2,3) sc_load(4) [where k = 25] mask_21 upt_conv_Cons
        del: power_numeral)
qed

lemma sc_ints_ivls: "in_ivls (sc_ints 23 29 v) sc_reduce_ivls"
proof -
  have "in_ivl (sc_ints 23 29 v ! i) (sc_reduce_ivls ! i)" if "i < 24" for i
  proof (cases "i = 23")
    case True
    then show ?thesis using mod_pow_bounds [of "v div 2 ^ 483" 29]
      by (simp add: sc_ints_nth sc_reduce_ivls_def in_ivl_def del: mod_pow_bounds)
  next
    case False
    with that have i: "i < 23" by simp
    have "\<forall>i<23. sc_reduce_ivls ! i = (0, 2097151)" by code_simp
    with i show ?thesis using mod_pow_bounds [of "v div 2 ^ (21 * i)" 21]
      by (simp add: sc_ints_nth in_ivl_def)
  qed
  then show ?thesis by (simp add: in_ivls_def) (simp add: sc_reduce_ivls_def)
qed

section \<open>Storing bytes\<close>

lemma le_value_digits:
  "map uint bs = map (\<lambda>j. v div 256 ^ j mod 256) [0..<length bs] \<Longrightarrow>
    le_value bs = v mod 256 ^ length bs"
proof (induction bs arbitrary: v)
  case (Cons b bs)
  have "[0..<Suc (length bs)] = 0 # map Suc [0..<length bs]"
    by (simp add: upt_conv_Cons map_Suc_upt del: upt_Suc)
  with Cons.prems have b: "uint b = v mod 256"
    and bs: "map uint bs = map (\<lambda>j. v div 256 div 256 ^ j mod 256) [0..<length bs]"
    by (simp_all add: zdiv_zmult2_eq comp_def del: upt_Suc)
  show ?case using b Cons.IH [OF bs] by (simp add: zmod_zmult2_eq)
qed simp

lemma bits_of_limb:
  assumes "k + m \<le> (n :: nat)"
  shows "(v div 2 ^ p mod 2 ^ n) div 2 ^ k mod 2 ^ m = v div 2 ^ (p + k) mod (2 :: int) ^ m"
proof -
  have "take_bit m (drop_bit k (take_bit n (drop_bit p v))) = take_bit m (drop_bit (p + k) v)"
    using assms by (simp add: drop_bit_take_bit take_bit_take_bit min_absorb1 le_diff_conv2 ac_simps)
  then show ?thesis by (simp only: take_bit_eq_mod drop_bit_eq_div)
qed

lemma store_byte:
  fixes h :: i64
  shows "uint (ucast (signed_drop_bit k h) :: u8) = sint h div 2 ^ k mod 256"
  by (simp add: byte_of_limb sint_shift_right)

lemma store_whole:
  fixes h :: i64
  assumes "sint h = v div 2 ^ p mod 2 ^ n" "k + 8 \<le> n"
  shows "uint (ucast (signed_drop_bit k h) :: u8) = v div 2 ^ (p + k) mod 256"
  using bits_of_limb [of k 8 n v p] assms by (simp add: store_byte)

lemma store_top:
  fixes h :: i64
  assumes "sint h = v div 2 ^ p"
  shows "uint (ucast (signed_drop_bit k h) :: u8) = v div 2 ^ (p + k) mod 256"
  using assms by (simp add: store_byte power_add zdiv_zmult2_eq)

lemma store_shared:
  fixes lo hi :: i64
  assumes lo: "sint lo = v div 2 ^ p mod 2 ^ (k + j)" and j: "j \<le> 8"
    and hi: "sint hi mod 2 ^ (8 - j) = v div 2 ^ (p + k + j) mod 2 ^ (8 - j)"
  shows "uint (ucast (signed_drop_bit k lo OR push_bit j hi) :: u8) = v div 2 ^ (p + k) mod 256"
proof -
  let ?x = "v div 2 ^ (p + k)"
  have x: "?x div 2 ^ j = v div 2 ^ (p + k + j)" by (simp add: power_add zdiv_zmult2_eq)
  have b: "0 \<le> sint lo" "sint lo < 2 ^ (k + j)" unfolding lo by simp_all
  then have l: "sint lo div 2 ^ k < 2 ^ j" "0 \<le> sint lo div 2 ^ k"
    by (simp_all add: div_less_power pos_imp_zdiv_nonneg_iff)
  then have "sint lo div 2 ^ k = sint lo div 2 ^ k mod 2 ^ j" by (simp add: mod_pos_pos_trivial)
  also have "\<dots> = ?x mod 2 ^ j" unfolding lo by (rule bits_of_limb) simp
  finally have k: "sint lo div 2 ^ k = ?x mod 2 ^ j" .
  have e: "(2 :: int) ^ j * 2 ^ (8 - j) = 256" using j by (simp flip: power_add)
  have "uint (ucast (signed_drop_bit k lo OR push_bit j hi) :: u8) =
      (sint lo div 2 ^ k + 2 ^ j * sint hi) mod 256"
    using b by (intro byte_shared) simp_all
  also have "\<dots> = sint lo div 2 ^ k + 2 ^ j * (sint hi mod 2 ^ (8 - j))"
    using l e by (intro mod_shared) simp_all
  also have "\<dots> = ?x mod 2 ^ j + 2 ^ j * (?x div 2 ^ j mod 2 ^ (8 - j))"
    unfolding k hi x ..
  also have "\<dots> = ?x mod 2 ^ 8"
    by (rule mod_split_at [symmetric]) (use j in simp)
  finally show ?thesis by simp
qed

lemma sc_store_value:
  assumes d: "\<And>i. i < 11 \<Longrightarrow> sint (s ! i) = v div 2 ^ (21 * i) mod 2 ^ 21"
    and t: "sint (s ! 11) = v div 2 ^ 231" and v: "0 \<le> v" "v < 2 ^ 256"
  shows "le_value (sc_store s) = v"
proof -
  have h: "sint (s ! i) mod 2 ^ n = v div 2 ^ (21 * i) mod 2 ^ n" if "i < 12" "n \<le> 21" for i n
  proof (cases "i < 11")
    case True
    then show ?thesis using bits_of_limb [of 0 n 21 v "21 * i"] that by (simp only: d) simp
  next
    case False
    with that have "i = 11" by simp
    then show ?thesis using t by simp
  qed
  note w = store_whole [OF d]
  have s: "uint (ucast (signed_drop_bit k (s ! i) OR push_bit j (s ! m)) :: u8) =
      v div 2 ^ (21 * i + k) mod 256"
    if "i < 11" "k + j = 21" "m = i + 1" "j \<le> 8" for i k j m
  proof (rule store_shared)
    show "sint (s ! i) = v div 2 ^ (21 * i) mod 2 ^ (k + j)" using d that by simp
    have e: "21 * i + k + j = 21 * m" and m: "m < 12" "8 - j \<le> 21" using that by simp_all
    show "sint (s ! m) mod 2 ^ (8 - j) = v div 2 ^ (21 * i + k + j) mod 2 ^ (8 - j)"
      unfolding e by (rule h [OF m])
  qed (rule that)
  have z: "uint (ucast (s ! 0) :: u8) = v mod 256" "uint (ucast (s ! 8) :: u8) = v div 2 ^ 168 mod 256"
    "uint (ucast (signed_drop_bit 20 (s ! 4) OR s ! 5 * 2) :: u8) = v div 2 ^ 104 mod 256"
    using w [of 0 0] w [of 8 0] s [of 4 20 1 5] by simp_all
  have b: "(256 :: int) ^ j = 2 ^ (8 * j)" for j by (simp add: power_mult)
  have "map uint (sc_store s) = map (\<lambda>j. v div 256 ^ j mod 256) [0..<length (sc_store s)]"
    unfolding b sc_store_def
    by (simp add: w s z store_top [OF t] upt_conv_Cons numeral_2_eq_2 [symmetric] del: power_numeral)
  then have "le_value (sc_store s) = v mod 256 ^ length (sc_store s)" by (rule le_value_digits)
  also have "length (sc_store s) = 32" by (simp add: sc_store_def)
  also have "v mod 256 ^ 32 = v" using v by (simp add: mod_pos_pos_trivial)
  finally show ?thesis .
qed

section \<open>The reduced value\<close>

lemma sc_digits_unique:
  assumes "\<forall>i<n. 0 \<le> f i \<and> f i < 2 ^ 21" "v = (\<Sum>i<n. 2 ^ (21 * i) * f i) + 2 ^ (21 * n) * t"
  shows "v div 2 ^ (21 * n) = (t :: int) \<and> (\<forall>i<n. f i = v div 2 ^ (21 * i) mod 2 ^ 21)"
  using assms
proof (induction n arbitrary: t)
  case (Suc n)
  let ?x = "f n + 2 ^ 21 * t"
  have f: "0 \<le> f n" "f n < 2 ^ 21" using Suc.prems(1) by simp_all
  have v: "v = (\<Sum>i<n. 2 ^ (21 * i) * f i) + 2 ^ (21 * n) * ?x"
    unfolding Suc.prems(2) by (simp add: algebra_simps power_add)
  have "\<forall>i<n. 0 \<le> f i \<and> f i < 2 ^ 21" using Suc.prems(1) by simp
  from Suc.IH [OF this v]
  have i: "v div 2 ^ (21 * n) = ?x" "\<forall>i<n. f i = v div 2 ^ (21 * i) mod 2 ^ 21" by blast+
  have "?x div 2 ^ 21 = t" "?x mod 2 ^ 21 = f n"
    using f by (simp_all add: div_pos_pos_trivial mod_pos_pos_trivial)
  moreover have "v div 2 ^ (21 * Suc n) = v div 2 ^ (21 * n) div 2 ^ 21"
    by (simp add: zdiv_zmult2_eq power_add mult.commute)
  ultimately show ?case unfolding i(1) using i by (auto simp: less_Suc_eq)
qed simp

lemma sc_digits_bound:
  assumes "\<forall>i<n. 0 \<le> f i \<and> f i < 2 ^ 21"
  shows "0 \<le> (\<Sum>i<n. 2 ^ (21 * i) * f i)" "(\<Sum>i<n. 2 ^ (21 * i) * f i) < (2 :: int) ^ (21 * n)"
proof -
  show "0 \<le> (\<Sum>i<n. 2 ^ (21 * i) * f i)" using assms by (intro sum_nonneg) simp
  from assms show "(\<Sum>i<n. 2 ^ (21 * i) * f i) < (2 :: int) ^ (21 * n)"
  proof (induction n)
    case (Suc n)
    let ?P = "(2 :: int) ^ (21 * n)"
    have "?P * f n \<le> ?P * 2097151" using Suc.prems by (intro mult_left_mono) auto
    moreover have "(2 :: int) ^ (21 * Suc n) = ?P * 2097152" by (simp add: power_add)
    moreover have "(\<Sum>i<n. 2 ^ (21 * i) * f i) < ?P" using Suc by simp
    ultimately show ?case unfolding sum.lessThan_Suc by linarith
  qed simp
qed

lemma limb_value_prefix:
  assumes "n \<le> length s" "\<forall>i<length s. n \<le> i \<longrightarrow> s ! i = 0"
  shows "limb_value w s = (\<Sum>i<n. w i * s ! i)"
  unfolding limb_value_def using assms by (intro sum.mono_neutral_right) auto

lemma in_ivls_segment:
  assumes "in_ivls t I" "\<forall>i<n. m \<le> i \<longrightarrow> I ! i = (a, b)" "n \<le> length I"
  shows "\<forall>i<n. m \<le> i \<longrightarrow> a \<le> t ! i \<and> t ! i \<le> b"
proof (intro allI impI)
  fix i
  assume "i < n" "m \<le> i"
  then show "a \<le> t ! i \<and> t ! i \<le> b"
    using assms in_ivls_nth [of t I i] by (simp add: in_ivl_def)
qed

lemma sc_folded_limbs:
  assumes t: "in_ivls t sc_folded_ivls"
  shows "length t = 24" "\<forall>i<12. 0 \<le> t ! i \<and> t ! i < 2 ^ 21"
    and "- 1 \<le> t ! 12" "t ! 12 \<le> 0" "\<forall>i<24. 13 \<le> i \<longrightarrow> t ! i = 0"
proof -
  have l: "length sc_folded_ivls = 24" by (simp add: sc_folded_ivls_def)
  show "length t = 24" using t l by (simp add: in_ivls_def)
  have "\<forall>i<12. 0 \<le> i \<longrightarrow> sc_folded_ivls ! i = (0, 2097151)" by code_simp
  from in_ivls_segment [OF t this] show "\<forall>i<12. 0 \<le> t ! i \<and> t ! i < 2 ^ 21"
    by (fastforce simp: l)
  have "\<forall>i<24. 13 \<le> i \<longrightarrow> sc_folded_ivls ! i = (0, 0)" by code_simp
  from in_ivls_segment [OF t this] show "\<forall>i<24. 13 \<le> i \<longrightarrow> t ! i = 0"
    by (fastforce simp: l)
  show "- 1 \<le> t ! 12" "t ! 12 \<le> 0"
    using in_ivls_nth [OF t, of 12] by (simp_all add: sc_folded_ivls_def in_ivl_def)
qed

lemma sc_final_limbs:
  assumes t: "in_ivls t sc_final_ivls"
  shows "length t = 24" "\<forall>i<11. 0 \<le> t ! i \<and> t ! i < 2 ^ 21" "\<forall>i<24. 12 \<le> i \<longrightarrow> t ! i = 0"
proof -
  have l: "length sc_final_ivls = 24" by (simp add: sc_final_ivls_def)
  show "length t = 24" using t l by (simp add: in_ivls_def)
  have "\<forall>i<11. 0 \<le> i \<longrightarrow> sc_final_ivls ! i = (0, 2097151)" by code_simp
  from in_ivls_segment [OF t this] show "\<forall>i<11. 0 \<le> t ! i \<and> t ! i < 2 ^ 21"
    by (fastforce simp: l)
  have "\<forall>i<24. 12 \<le> i \<longrightarrow> sc_final_ivls ! i = (0, 0)" by code_simp
  from in_ivls_segment [OF t this] show "\<forall>i<24. 12 \<le> i \<longrightarrow> t ! i = 0"
    by (fastforce simp: l)
qed

text \<open>
  Before the last fold the array holds \<open>L + t 2^252\<close> with \<open>0 \<le> L < 2^252\<close> and \<open>t\<close> 0 or -1,
  so the fold gives a value between 0 and l - 1: the canonical one.
\<close>

lemma sc_folded_value:
  assumes "in_ivls t sc_folded_ivls"
  shows "0 \<le> limb_value sc_weight' t" "limb_value sc_weight' t < sc_l"
    and "limb_value sc_weight' t mod sc_l = limb_value sc_weight t mod sc_l"
proof -
  note f = sc_folded_limbs [OF assms]
  let ?L = "\<Sum>i<12. 2 ^ (21 * i) * t ! i"
  have b: "0 \<le> ?L" "?L < 2 ^ 252" using sc_digits_bound [OF f(2)] by simp_all
  have s: "limb_value w t = (\<Sum>i<12. w i * t ! i) + w 12 * t ! 12" for w
    using limb_value_prefix [of 13 t w] f by (simp add: lessThan_Suc eval_nat_numeral)
  have v: "limb_value sc_weight' t =
      ?L - 27742317777372353535851937790883648493 * t ! 12"
    unfolding s by (simp add: sc_weight'_def)
  have v': "limb_value sc_weight t = ?L + 2 ^ 252 * t ! 12"
    unfolding s by (simp add: sc_weight_def)
  have t: "t ! 12 = 0 \<or> t ! 12 = - 1" using f(3,4) by arith
  show "0 \<le> limb_value sc_weight' t" "limb_value sc_weight' t < sc_l"
    using b t unfolding v by (auto simp: sc_l_def)
  have "limb_value sc_weight' t = limb_value sc_weight t + sc_l * (- t ! 12)"
    unfolding v v' sc_l_def by (simp add: algebra_simps)
  then show "limb_value sc_weight' t mod sc_l = limb_value sc_weight t mod sc_l"
    by (simp only: mod_mult_self2)
qed

lemma sc_finish_value:
  assumes "in_ivls (map sint s) sc_folded_ivls"
  shows "le_value (sc_store (run_w sc_finish s)) = limb_value sc_weight (map sint s) mod sc_l"
proof -
  let ?r = "run_w sc_finish s"
  define v where "v = limb_value sc_weight' (map sint s)"
  note r = sc_final_limbs [OF sc_finish_run.bounded [OF assms]]
  have l: "length ?r = 24" using r(1) by simp
  have v: "0 \<le> v" "v < sc_l" "v mod sc_l = limb_value sc_weight (map sint s) mod sc_l"
    unfolding v_def by (rule sc_folded_value [OF assms])+
  have "limb_value sc_weight' (map sint ?r) = v"
    using sc_finish_run.keeps_value [OF assms] by (simp add: v_def)
  moreover have "limb_value sc_weight' (map sint ?r) = (\<Sum>i<12. sc_weight' i * map sint ?r ! i)"
    using r by (intro limb_value_prefix) simp_all
  ultimately have "v = (\<Sum>i<11. 2 ^ (21 * i) * map sint ?r ! i) + 2 ^ (21 * 11) * map sint ?r ! 11"
    by (simp add: sc_weight'_def lessThan_Suc eval_nat_numeral)
  from sc_digits_unique [OF r(2) this] l
  have d: "sint (?r ! i) = v div 2 ^ (21 * i) mod 2 ^ 21" "sint (?r ! 11) = v div 2 ^ 231"
    if "i < 11" for i
    using that by simp_all
  have "v < 2 ^ 256" using v(2) by (simp add: sc_l_def)
  with v(1) d [of 0] d have "le_value (sc_store ?r) = v" by (intro sc_store_value) simp_all
  with v show ?thesis by (simp add: mod_pos_pos_trivial)
qed

lemma sc_reduce_state:
  assumes "length s = 64"
  shows "map sint (sc_limbs s) = sc_ints 23 29 (le_value s)"
    and "in_ivls (map sint (sc_limbs s)) sc_reduce_ivls"
proof -
  show w: "map sint (sc_limbs s) = sc_ints 23 29 (le_value s)"
    unfolding sc_limbs_words [OF assms] by (rule ints_sint [OF sc_ints_ivls]) code_simp
  show "in_ivls (map sint (sc_limbs s)) sc_reduce_ivls" unfolding w by (rule sc_ints_ivls)
qed

lemma sc_reduce_correct:
  assumes "length s = 64"
  shows "le_value (take 32 (sc_reduce s)) = le_value s mod sc_l"
proof -
  note st = sc_reduce_state [OF assms]
  have "le_value s < 2 ^ 512" using le_value_bound [of s] assms by simp
  then have "limb_value sc_weight (map sint (sc_limbs s)) = le_value s"
    unfolding st(1) sc_ints_value by (simp add: mod_pos_pos_trivial)
  moreover have "take 32 (sc_reduce s) = sc_store (run_w sc_finish (run_w sc_folds (sc_limbs s)))"
    by (simp add: sc_reduce_def run_w_append sc_store_def)
  ultimately show ?thesis
    using sc_finish_value [OF sc_fold_run.bounded [OF st(2)]] sc_fold_run.keeps_value [OF st(2)]
    by simp
qed

section \<open>sc_muladd\<close>

definition sc_product_ivls :: "ivl list" where
  "sc_product_ivls =
    [(0, 4398044413952), (0, 8796086730753), (0, 13194129047554), (0, 17592171364355), (0,
     21990213681156), (0, 26388255997957), (0, 30786298314758), (0, 35184340631559), (0,
     39582382948360), (0, 43980425265161), (0, 48378467581962), (0, 184717873774603), (0,
     180319797903371), (0, 175921755586570), (0, 171523713269769), (0, 167125670952968),
     (0, 162727628636167), (0, 158329586319366), (0, 153931544002565), (0,
     149533501685764), (0, 145135459368963), (0, 140737417052162), (0, 1125899839733761),
     (0, 0)]"

interpretation sc_carry_run: limb_program "TYPE(64)" sc_weight sc_l "sc_muladd_carries @ sc_folds"
  sc_product_ivls sc_folded_ivls
proof unfold_locales
  show "list_all (step_ok sc_weight sc_l (length sc_product_ivls)) (sc_muladd_carries @ sc_folds)"
    by (simp add: sc_muladd_carries_def sc_folds_def sc_product_ivls_def sc_ok)
  have "run_i 64 (sc_muladd_carries @ sc_folds) sc_product_ivls = Some sc_folded_ivls"
    by code_simp
  then show "run_i LENGTH(64) (sc_muladd_carries @ sc_folds) sc_product_ivls = Some sc_folded_ivls"
    by simp
qed

lemma sc_products_words:
  assumes "length A = 12" "length B = 12" "length C = 12"
  shows "sc_products (map word_of_int A) (map word_of_int B) (map word_of_int C) =
    (map word_of_int (sc_products A B C) :: i64 list)"
  using assms by (simp add: sc_products_def)

lemma sc_products_mono:
  fixes A :: "int list"
  assumes "\<And>i. i < 12 \<Longrightarrow> 0 \<le> A ! i \<and> A ! i \<le> A' ! i"
    and "\<And>i. i < 12 \<Longrightarrow> 0 \<le> B ! i \<and> B ! i \<le> B' ! i"
    and "\<And>i. i < 12 \<Longrightarrow> 0 \<le> C ! i \<and> C ! i \<le> C' ! i"
  shows "list_all2 (\<lambda>x y. 0 \<le> x \<and> x \<le> y) (sc_products A B C) (sc_products A' B' C')"
proof -
  have n: "0 \<le> A ! i" "A ! i \<le> A' ! i" "0 \<le> A' ! i" "0 \<le> B ! i" "B ! i \<le> B' ! i"
    "0 \<le> B' ! i" "0 \<le> C ! i" "C ! i \<le> C' ! i" if "i < 12" for i
    using assms [OF that] by auto
  show ?thesis
    unfolding sc_products_def list_all2_Cons
    by (intro conjI add_nonneg_nonneg add_mono mult_mono mult_nonneg_nonneg list_all2_Nil
        [THEN iffD2]; simp add: n)
qed

lemma sc_value_12:
  "length A = 12 \<Longrightarrow> limb_value sc_weight A =
    A ! 0 + 2 ^ 21 * A ! 1 + 2 ^ 42 * A ! 2 + 2 ^ 63 * A ! 3 + 2 ^ 84 * A ! 4 + 2 ^ 105 *
      A ! 5 + 2 ^ 126 * A ! 6 + 2 ^ 147 * A ! 7 + 2 ^ 168 * A ! 8 + 2 ^ 189 * A ! 9 + 2 ^
      210 * A ! 10 + 2 ^ 231 * A ! 11"
  unfolding limb_value_def sc_weight_def by (simp add: eval_nat_numeral lessThan_Suc)

lemma sc_value_24:
  "limb_value sc_weight
    [x0, x1, x2, x3, x4, x5, x6, x7, x8, x9, x10, x11, x12, x13, x14, x15, x16, x17, x18,
      x19, x20, x21, x22, x23] =
    x0 + 2 ^ 21 * x1 + 2 ^ 42 * x2 + 2 ^ 63 * x3 + 2 ^ 84 * x4 + 2 ^ 105 * x5 + 2 ^ 126 *
      x6 + 2 ^ 147 * x7 + 2 ^ 168 * x8 + 2 ^ 189 * x9 + 2 ^ 210 * x10 + 2 ^ 231 * x11 + 2
      ^ 252 * x12 + 2 ^ 273 * x13 + 2 ^ 294 * x14 + 2 ^ 315 * x15 + 2 ^ 336 * x16 + 2 ^
      357 * x17 + 2 ^ 378 * x18 + 2 ^ 399 * x19 + 2 ^ 420 * x20 + 2 ^ 441 * x21 + 2 ^ 462
      * x22 + 2 ^ 483 * x23"
  unfolding limb_value_def sc_weight_def by (simp add: eval_nat_numeral lessThan_Suc)

lemma sc_products_value:
  assumes "length A = 12" "length B = 12" "length C = 12"
  shows "limb_value sc_weight (sc_products A B C) =
    limb_value sc_weight A * limb_value sc_weight B + limb_value sc_weight C"
  unfolding sc_value_12 [OF assms(1)] sc_value_12 [OF assms(2)] sc_value_12 [OF assms(3)]
    sc_products_def sc_value_24
  by algebra

definition sc_max12 :: "int list" where
  "sc_max12 = replicate 11 2097151 @ [33554431]"

lemma sc_ints12_range:
  assumes "i < 12"
  shows "0 \<le> sc_ints 11 25 v ! i \<and> sc_ints 11 25 v ! i \<le> sc_max12 ! i"
proof (cases "i < 11")
  case True
  then show ?thesis
    using mod_pow_bounds [of "v div 2 ^ (21 * i)" 21]
    by (simp add: sc_ints_nth(1) sc_max12_def nth_append)
next
  case False
  with assms have "i = 11" by simp
  then show ?thesis
    using mod_pow_bounds [of "v div 2 ^ 231" 25]
    by (simp add: sc_ints_nth(2) sc_max12_def nth_append)
qed

lemma sc_product_ivls:
  "in_ivls (sc_products (sc_ints 11 25 u) (sc_ints 11 25 v) (sc_ints 11 25 w)) sc_product_ivls"
proof -
  let ?P = "sc_products (sc_ints 11 25 u) (sc_ints 11 25 v) (sc_ints 11 25 w)"
  define M where "M = sc_products sc_max12 sc_max12 sc_max12"
  have e: "sc_product_ivls = map (Pair 0) M" unfolding M_def by code_simp
  have "list_all2 (\<lambda>x y. 0 \<le> x \<and> x \<le> y) ?P M"
    unfolding M_def by (intro sc_products_mono sc_ints12_range)
  then show ?thesis unfolding e by (auto simp: in_ivls_def in_ivl_def list_all2_conv_all_nth)
qed

lemma sc_muladd_state:
  assumes "length a = 32" "length b = 32" "length c = 32"
  defines "s \<equiv> sc_products (sc_limbs12 a) (sc_limbs12 b) (sc_limbs12 c)"
  shows "map sint s = sc_products (sc_ints 11 25 (le_value a)) (sc_ints 11 25 (le_value b))
      (sc_ints 11 25 (le_value c))"
    and "in_ivls (map sint s) sc_product_ivls"
proof -
  have s: "s = map word_of_int (sc_products (sc_ints 11 25 (le_value a))
      (sc_ints 11 25 (le_value b)) (sc_ints 11 25 (le_value c)))"
    unfolding s_def sc_limbs12_words [OF assms(1)] sc_limbs12_words [OF assms(2)]
      sc_limbs12_words [OF assms(3)] by (rule sc_products_words) simp_all
  show m: "map sint s = sc_products (sc_ints 11 25 (le_value a)) (sc_ints 11 25 (le_value b))
      (sc_ints 11 25 (le_value c))"
    unfolding s by (rule ints_sint [OF sc_product_ivls]) code_simp
  show "in_ivls (map sint s) sc_product_ivls" unfolding m by (rule sc_product_ivls)
qed

lemma sc_limbs12_sint:
  assumes "length a = 32"
  shows "map sint (sc_limbs12 a) = sc_ints 11 25 (le_value a)"
proof -
  have "fits 64 (sc_ints 11 25 (le_value a) ! i)" if "i < 12" for i
  proof -
    have "\<forall>i<12. sc_max12 ! i \<le> 33554431" by code_simp
    with sc_ints12_range [OF that, of "le_value a"] that have
      "0 \<le> sc_ints 11 25 (le_value a) ! i" "sc_ints 11 25 (le_value a) ! i \<le> 33554431" by auto
    then show ?thesis by (simp add: fits_def)
  qed
  then show ?thesis
    unfolding sc_limbs12_words [OF assms]
    by (intro nth_equalityI) (simp_all add: sint_of_int_64)
qed

lemma sc_muladd_correct:
  assumes "length a = 32" "length b = 32" "length c = 32"
  shows "le_value (sc_muladd a b c) = (le_value a * le_value b + le_value c) mod sc_l"
proof -
  note st = sc_muladd_state [OF assms]
  have "le_value x mod 2 ^ (21 * 11 + 25) = le_value x" if "length x = 32" for x
    using le_value_bound [of x] that by (simp add: mod_pos_pos_trivial)
  then have "limb_value sc_weight (map sint (sc_products (sc_limbs12 a) (sc_limbs12 b)
      (sc_limbs12 c))) = le_value a * le_value b + le_value c"
    unfolding st(1) using assms by (simp add: sc_products_value sc_ints_value)
  then show ?thesis
    using sc_finish_value [OF sc_carry_run.bounded [OF st(2)]]
      sc_carry_run.keeps_value [OF st(2)]
    unfolding sc_muladd_def Let_def by (simp add: run_w_append)
qed

lemma length_sc_store [simp]: "length (sc_store s) = 32"
  by (simp add: sc_store_def)

lemma length_sc_reduce [simp, len_simps]: "length s = 64 \<Longrightarrow> length (sc_reduce s) = 64"
  by (simp add: sc_reduce_def)

lemma length_sc_muladd [simp, len_simps]: "length (sc_muladd a b c) = 32"
  by (simp add: sc_muladd_def)

lemma sc_l_pos [simp]: "0 < sc_l"
  by (simp add: sc_l_def)

section \<open>Properties\<close>

text \<open>
  C7: sc_reduce.c leaves in the first 32 bytes the canonical representative modulo l of the
  64-byte number, and does not touch the other bytes.
\<close>

theorem sc_reduce_mod_l:
  assumes "length s = 64"
  shows "le_value (take 32 (sc_reduce s)) = le_value s mod sc_l \<and> drop 32 (sc_reduce s) = drop 32 s"
  using sc_reduce_correct [OF assms] by (simp add: sc_reduce_def)

theorem sc_reduce_mod_l_witness:
  "le_value (take 32 (sc_reduce (replicate 64 255))) = (2 ^ 512 - 1) mod sc_l"
proof -
  have "length (replicate 64 (255 :: u8)) = 64" by simp
  from sc_reduce_mod_l [OF this] have
    "le_value (take 32 (sc_reduce (replicate 64 255))) = le_value (replicate 64 255) mod sc_l" by blast
  then show ?thesis by (simp add: le_value_replicate_255)
qed

text \<open>C25: sc_muladd.c writes the canonical representative of a b + c modulo l.\<close>

theorem sc_muladd_mod_l:
  assumes "length a = 32" "length b = 32" "length c = 32"
  shows "length (sc_muladd a b c) = 32 \<and>
    le_value (sc_muladd a b c) = (le_value a * le_value b + le_value c) mod sc_l"
  using sc_muladd_correct [OF assms] by simp

theorem sc_muladd_mod_l_witness:
  "le_value (sc_muladd (replicate 32 255) (replicate 32 255) (replicate 32 255)) =
    ((2 ^ 256 - 1) * (2 ^ 256 - 1) + (2 ^ 256 - 1)) mod sc_l"
proof -
  have "length (replicate 32 (255 :: u8)) = 32" by simp
  from sc_muladd_mod_l [OF this this this] show ?thesis
    by (simp add: le_value_replicate_255)
qed

text \<open>
  C26: no 64-bit signed intermediate of the two routines overflows, whatever the bytes: the
  exact integers of every product, sum and carry are those of the machine words.
\<close>

theorem sc_no_overflow:
  assumes "length s = 64" "length a = 32" "length b = 32" "length c = 32"
  shows "run_z 64 (sc_folds @ sc_finish) (map sint (sc_limbs s)) =
      Some (map sint (run_w (sc_folds @ sc_finish) (sc_limbs s))) \<and>
    run_z 64 (sc_muladd_carries @ sc_folds @ sc_finish)
        (sc_products (map sint (sc_limbs12 a)) (map sint (sc_limbs12 b))
          (map sint (sc_limbs12 c))) =
      Some (map sint (run_w (sc_muladd_carries @ sc_folds @ sc_finish)
        (sc_products (sc_limbs12 a) (sc_limbs12 b) (sc_limbs12 c))))"
proof
  note i = sc_reduce_state(2) [OF assms(1)]
  show "run_z 64 (sc_folds @ sc_finish) (map sint (sc_limbs s)) =
      Some (map sint (run_w (sc_folds @ sc_finish) (sc_limbs s)))"
    using sc_fold_run.no_overflow [OF i] sc_finish_run.no_overflow [OF sc_fold_run.bounded [OF i]]
    by (simp add: run_z_append run_w_append)
  note st = sc_muladd_state [OF assms(2,3,4)]
  have m: "sc_products (map sint (sc_limbs12 a)) (map sint (sc_limbs12 b))
      (map sint (sc_limbs12 c)) =
    map sint (sc_products (sc_limbs12 a) (sc_limbs12 b) (sc_limbs12 c))"
    by (simp only: st(1) sc_limbs12_sint assms)
  show "run_z 64 (sc_muladd_carries @ sc_folds @ sc_finish)
        (sc_products (map sint (sc_limbs12 a)) (map sint (sc_limbs12 b))
          (map sint (sc_limbs12 c))) =
      Some (map sint (run_w (sc_muladd_carries @ sc_folds @ sc_finish)
        (sc_products (sc_limbs12 a) (sc_limbs12 b) (sc_limbs12 c))))"
    using sc_carry_run.no_overflow [OF st(2)]
      sc_finish_run.no_overflow [OF sc_carry_run.bounded [OF st(2)]]
    unfolding m append.assoc [symmetric] run_z_append [of _ "sc_muladd_carries @ sc_folds"]
      run_w_append [of "sc_muladd_carries @ sc_folds"] by simp
qed

theorem sc_no_overflow_witness:
  "run_z 64 (sc_folds @ sc_finish) (map sint (sc_limbs (replicate 64 255))) =
    Some (map sint (run_w (sc_folds @ sc_finish) (sc_limbs (replicate 64 255))))"
proof -
  have "length (replicate 64 (255 :: u8)) = 64" "length (replicate 32 (255 :: u8)) = 32" by simp_all
  from sc_no_overflow [OF this(1) this(2) this(2) this(2)] show ?thesis by blast
qed

end
