(* ===== verification/Base_Order.thy ===== *)
theory Base_Order
  imports Point_Codec Sc
begin

text \<open>The group order l of sc_l annihilates the base point: the sum of table entries is evaluated.\<close>

section \<open>Sums of table entries\<close>

text \<open>A digit names the entry of its row that is added or subtracted, if any.\<close>

datatype digit = Skip | Plus nat | Minus nat

fun digit_val :: "digit \<Rightarrow> int" where
  "digit_val Skip = 0"
| "digit_val (Plus j) = int (Suc j)"
| "digit_val (Minus j) = - int (Suc j)"

fun digit_ok :: "digit \<Rightarrow> bool" where
  "digit_ok Skip \<longleftrightarrow> True"
| "digit_ok (Plus j) \<longleftrightarrow> j < 8"
| "digit_ok (Minus j) \<longleftrightarrow> j < 8"

primrec digits_val :: "digit list \<Rightarrow> int" where
  "digits_val [] = 0"
| "digits_val (d # ds) = digit_val d + 256 * digits_val ds"

text \<open>The addition formula with an entry, on octal coordinates.\<close>

definition osum4 :: "onum \<Rightarrow> onum \<Rightarrow> onum \<Rightarrow> onum \<Rightarrow> oext" where
  "osum4 e f g h = (gmul e f, gmul g h, gmul f g, gmul e h)"

definition osum3 :: "onum \<Rightarrow> onum \<Rightarrow> onum \<Rightarrow> onum \<Rightarrow> oext" where
  "osum3 a b c d = osum4 (gadd b (gneg a)) (gadd d (gneg c)) (gadd d c) (gadd b a)"

fun osum :: "oext \<Rightarrow> onum \<Rightarrow> onum \<Rightarrow> onum \<Rightarrow> oext" where
  "osum (X, Y, Z, T) p m t = osum3 (gmul (gadd Y (gneg X)) m) (gmul (gadd Y X) p) (gmul T t) (gadd Z Z)"

fun oplus :: "oext \<Rightarrow> oentry \<Rightarrow> oext" where
  "oplus v (p, m, n, t) = osum v p m t"

fun ominus :: "oext \<Rightarrow> oentry \<Rightarrow> oext" where
  "ominus v (p, m, n, t) = osum v m p (gneg t)"

lemma osum_ext_add:
  assumes "og p = y + x" "og m = y - x" "og t = 2 * ed_d * (x * y)"
  shows "oext (osum v p m t) = ext_add (oext v) (x, y, 1, x * y)"
proof -
  obtain X Y Z T where v: "v = (X, Y, Z, T)" by (metis surj_pair)
  show ?thesis
    unfolding v osum.simps osum3_def osum4_def oext.simps ext_add.simps Let_def og_ops og_gneg assms
    by (simp add: algebra_simps)
qed

lemma oplus_at:
  assumes "ext_at (oext v) Q" "entry_at e P"
  shows "ext_at (oext (oplus v e)) (Q + P)" "ext_at (oext (ominus v e)) (Q - P)"
proof -
  obtain p m n t where e: "e = (p, m, n, t)" by (metis surj_pair)
  have o: "og p = ey P + ex P" "og m = ey P - ex P" "og t = 2 * ed_d * (ex P * ey P)"
    using assms(2) by (simp_all add: e)
  show "ext_at (oext (oplus v e)) (Q + P)"
    using ext_at_add [OF assms(1) ext_at_affine] by (simp add: e osum_ext_add [OF o] affine_def)
  have n: "og m = ey (- P) + ex (- P)" "og p = ey (- P) - ex (- P)" "og (gneg t) = 2 * ed_d * (ex (- P) * ey (- P))"
    unfolding og_gneg o uminus_coords by simp_all
  have "ext_at (oext (ominus v e)) (Q + - P)"
    using ext_at_add [OF assms(1) ext_at_affine, of "- P"]
    by (simp only: e ominus.simps osum_ext_add [OF n] affine_def)
  then show "ext_at (oext (ominus v e)) (Q - P)" by simp
qed

fun entry_digit :: "oext \<Rightarrow> ge_precomp list \<Rightarrow> digit \<Rightarrow> oext" where
  "entry_digit v row Skip = v"
| "entry_digit v row (Plus j) = oplus v (entry_oct (row ! j))"
| "entry_digit v row (Minus j) = ominus v (entry_oct (row ! j))"

fun entry_digits :: "oext \<Rightarrow> ge_precomp list list \<Rightarrow> digit list \<Rightarrow> oext" where
  "entry_digits v (row # rows) (d # ds) = entry_digits (entry_digit v row d) rows ds"
| "entry_digits v rows [] = v"
| "entry_digits v [] ds = v"

lemma entry_digit_at:
  assumes "ext_at (oext v) Q" "row_at (map entry_oct row) P" "digit_ok d"
  shows "ext_at (oext (entry_digit v row d)) (Q + zmul (digit_val d) P)"
proof -
  have e: "entry_at (entry_oct (row ! j)) (nmul (Suc j) P)" if "j < 8" for j
    using assms(2) that unfolding row_at_def by (metis length_map nth_map)
  show ?thesis
    using assms(1,3) oplus_at [OF assms(1) e]
    by (cases d) (simp_all only: entry_digit.simps digit_val.simps digit_ok.simps zmul_simps add_0_right
      zmul_nat zmul_minus diff_conv_add_uminus [symmetric])
qed

lemma entry_digits_at:
  assumes "ext_at (oext v) Q" "\<forall>i<length rows. row_at (map entry_oct (rows ! i)) (nmul (256 ^ i) P)"
    "list_all digit_ok ds" "length ds \<le> length rows"
  shows "ext_at (oext (entry_digits v rows ds)) (Q + zmul (digits_val ds) P)"
  using assms
proof (induction v rows ds arbitrary: Q P rule: entry_digits.induct)
  case (1 v row rows d ds)
  have "row_at (map entry_oct row) P" using 1(3) by (auto dest!: spec [of _ 0] simp del: entry_oct.simps)
  then have a: "ext_at (oext (entry_digit v row d)) (Q + zmul (digit_val d) P)"
    using 1(2,4) by (intro entry_digit_at) simp_all
  have "row_at (map entry_oct (rows ! i)) (nmul (256 ^ i) (nmul 256 P))" if "i < length rows" for i
    using 1(3) that nmul_mult [of "256 ^ i" 256 P]
    by (auto dest!: spec [of _ "Suc i"] simp: mult.commute simp del: entry_oct.simps nmul.simps)
  then have "ext_at (oext (entry_digits (entry_digit v row d) rows ds))
      (Q + zmul (digit_val d) P + zmul (digits_val ds) (nmul 256 P))"
    using 1(4,5) by (intro 1(1) a) (simp_all del: entry_oct.simps)
  moreover have "zmul (256 * digits_val ds) P = zmul (digits_val ds) (nmul 256 P)"
    using zmul_mult [of "digits_val ds" 256 P] zmul_nat [of 256 P] by (simp add: mult.commute)
  ultimately show ?case by (simp only: entry_digits.simps digits_val.simps zmul_add add.assoc)
qed simp_all

section \<open>The order\<close>

definition order_even :: "digit list" where
  "order_even =
     [Minus 2, Plus 3, Plus 5, Minus 2, Minus 5, Plus 2, Plus 1, Plus 7, Plus 5, Minus 2, Plus 7,
     Plus 2, Minus 0, Minus 5, Minus 0, Plus 4, Skip, Skip, Skip, Skip, Skip, Skip, Skip, Skip,
     Skip, Skip, Skip, Skip, Skip, Skip, Skip, Skip]"

definition order_odd :: "digit list" where
  "order_odd =
     [Minus 0, Minus 2, Minus 0, Plus 5, Plus 1, Plus 5, Plus 0, Plus 4, Minus 2, Minus 5, Minus 0,
     Minus 5, Minus 1, Skip, Minus 1, Plus 0, Skip, Skip, Skip, Skip, Skip, Skip, Skip, Skip, Skip,
     Skip, Skip, Skip, Skip, Skip, Skip, Plus 0]"

definition order_point :: oext where
  "order_point = entry_digits (odbl (odbl (odbl (odbl (entry_digits (E, D1 E, D1 E, E) base order_odd))))) base order_even"

fun neutral_check :: "oext \<Rightarrow> bool" where
  "neutral_check (X, Y, Z, T) \<longleftrightarrow> geq X E \<and> geq Y Z"

lemma order_digits: "digits_val order_even + 16 * digits_val order_odd = sc_l"
  by (simp add: order_even_def order_odd_def sc_l_def)

lemma order_digits_ok:
  "list_all digit_ok order_even" "list_all digit_ok order_odd" "length order_even \<le> 32" "length order_odd \<le> 32"
  by (simp_all add: order_even_def order_odd_def)

lemma nth_rules: "(x # xs) ! 0 = x" "(x # xs) ! numeral n = xs ! pred_numeral n" "(x # y # xs) ! 1 = y"
  by simp_all

lemma order_check: "neutral_check order_point"
  by (simp only: order_point_def base_def order_even_def order_odd_def entry_digits.simps entry_digit.simps oplus.simps
    ominus.simps osum.simps osum3_def osum4_def neutral_check.simps nth_rules pred_numeral_simps BitM.simps
    base_row_0_def base_row_1_def base_row_2_def base_row_3_def base_row_4_def base_row_5_def base_row_6_def
    base_row_7_def base_row_8_def base_row_9_def base_row_10_def base_row_11_def base_row_12_def
    base_row_13_def base_row_14_def base_row_15_def base_row_31_def limb_eval table_eval)

lemma order_annihilates: "zmul sc_l base_point = 0"
proof -
  have "ext_at (oext (E, D1 E, D1 E, E)) 0" by (simp add: og_def zero_coords)
  then have "ext_at (oext (entry_digits (E, D1 E, D1 E, E) base order_odd)) (0 + zmul (digits_val order_odd) base_point)"
    using order_digits_ok base_rows_at base_bounded(1) by (intro entry_digits_at) auto
  note d = ext_at_dbl [OF this, folded oext_dbl]
  note d = ext_at_dbl [OF d, folded oext_dbl]
  note d = ext_at_dbl [OF d, folded oext_dbl]
  note d = ext_at_dbl [OF d, folded oext_dbl]
  let ?o = "zmul (digits_val order_odd) base_point"
  have "zmul (2 * (2 * (2 * (2 * digits_val order_odd)))) base_point =
      ?o + ?o + (?o + ?o) + (?o + ?o + (?o + ?o)) + (?o + ?o + (?o + ?o) + (?o + ?o + (?o + ?o)))"
    unfolding zmul_double by (simp only: add.assoc)
  then have "ext_at (oext order_point) (zmul (16 * digits_val order_odd) base_point +
      zmul (digits_val order_even) base_point)"
    unfolding order_point_def using d order_digits_ok base_rows_at base_bounded(1)
    by (intro entry_digits_at) (simp_all add: ac_simps)
  then have v: "ext_at (oext order_point) (zmul sc_l base_point)"
    using order_digits by (simp flip: zmul_add add: add.commute)
  obtain X Y Z T where o: "order_point = (X, Y, Z, T)" by (metis surj_pair)
  have "og X = 0" "og Y = og Z" using order_check by (auto simp: o dest!: geqD) (simp add: og_def)
  then show ?thesis using v by (intro edpoint_eqI) (auto simp: o zero_coords)
qed

end
