(* ===== verification/Prime_Order.thy ===== *)
theory Prime_Order
  imports Prime_25519 Sc
begin

text \<open>
  The group order l = 2^252 + 27742317777372353535851937790883648493 is prime, by the criterion
  and the powers of 2 of the theory Prime_25519.
\<close>

section \<open>The small primes\<close>

lemma prime_2551: "is_prime 2551"
proof (rule prime_trial)
  show "list_all (\<lambda>d. 2551 mod d \<noteq> 0) [2..51 - 1 :: int]" by code_simp
qed simp_all

lemma prime_1224481: "is_prime 1224481"
proof (rule criterion [where l = 2551 and R = 480 and t = 0 and u = 480 and x = 921659 and w = 1100631 and k = 828437 and y = 1 and j = 0])
  show "is_prime (int 2551)" using prime_2551 by simp
  have "bits_from 0 [True, True, True, True, False, False, False, False, False] = 480"
    by (simp add: bits_from_def)
  moreover have "ipow 1224481 [True, True, True, True, False, False, False, False, False] 1 = 921659"
    by code_simp
  ultimately show "pow2 1224481 (480) 921659"
    using pow2_ipow [OF pow2_0(1)] by metis
  have "bits_from 0 [True, False, False, True, False, True, False, True, False, True, True, True, True, False,
     False, True, False, False, False, False, False] = 1224480"
    by (simp add: bits_from_def)
  moreover have "ipow 1224481 [True, False, False, True, False, True, False, True, False, True, True, True, True, False,
     False, True, False, False, False, False, False] 1 = 1"
    by code_simp
  ultimately show "pow2 1224481 (2551 * 480) 1"
    using pow2_ipow [OF pow2_0(1)] by (simp only: arith_simps) metis
qed simp_all

lemma prime_1257559732178653: "is_prime 1257559732178653"
proof (rule criterion [where l = 1224481 and R = 1027014492 and t = 838 and u = 899414 and x = 1252739704402215 and w = 790900187493841 and k = 787868792026441 and y = 1 and j = 0])
  show "is_prime (int 1224481)" using prime_1224481 by simp
  have "bits_from 0 [True, True, True, True, False, True, False, False, True, True, False, True, True, False, True,
     True, True, True, True, True, True, True, False, True, False, True, True, True, False, False] = 1027014492"
    by (simp add: bits_from_def)
  moreover have "ipow 1257559732178653 [True, True, True, True, False, True, False, False, True, True, False, True, True, False, True,
     True, True, True, True, True, True, True, False, True, False, True, True, True, False, False] 1 = 1252739704402215"
    by code_simp
  ultimately show "pow2 1257559732178653 (1027014492) 1252739704402215"
    using pow2_ipow [OF pow2_0(1)] by metis
  have "bits_from 0 [True, False, False, False, True, True, True, False, True, True, True, True, False, True, True,
     True, True, True, False, False, True, True, True, False, False, False, True, False, False,
     False, True, True, True, True, False, True, True, False, False, True, True, True, False, True,
     True, False, True, True, True, False, False] = 1257559732178652"
    by (simp add: bits_from_def)
  moreover have "ipow 1257559732178653 [True, False, False, False, True, True, True, False, True, True, True, True, False, True, True,
     True, True, True, False, False, True, True, True, False, False, False, True, False, False,
     False, True, True, True, True, False, True, True, False, False, True, True, True, False, True,
     True, False, True, True, True, False, False] 1 = 1"
    by code_simp
  ultimately show "pow2 1257559732178653 (1224481 * 1027014492) 1"
    using pow2_ipow [OF pow2_0(1)] by (simp only: arith_simps) metis
qed simp_all

lemma prime_4434155615661930479: "is_prime 4434155615661930479"
proof (rule criterion [where l = 1257559732178653 and R = 3526 and t = 0 and u = 3526 and x = 415787812636281767 and w = 1010501025739283171 and k = 94754006754933215 and y = 1 and j = 0])
  show "is_prime (int 1257559732178653)" using prime_1257559732178653 by simp
  have "bits_from 0 [True, True, False, True, True, True, False, False, False, True, True, False] = 3526"
    by (simp add: bits_from_def)
  moreover have "ipow 4434155615661930479 [True, True, False, True, True, True, False, False, False, True, True, False] 1 = 415787812636281767"
    by code_simp
  ultimately show "pow2 4434155615661930479 (3526) 415787812636281767"
    using pow2_ipow [OF pow2_0(1)] by metis
  have "bits_from 0 [True, True, True, True, False, True, True, False, False, False, True, False, False, True,
     False, True, False, False, True, False, False, True, False, False, False, False, True, False,
     True, False, False, False, False, False, True, True, True, False, False, True, False, True,
     False, True, False, True, False, False, True, True, False, True, True, True, True, True, True,
     False, True, True, True, False] = 4434155615661930478"
    by (simp add: bits_from_def)
  moreover have "ipow 4434155615661930479 [True, True, True, True, False, True, True, False, False, False, True, False, False, True,
     False, True, False, False, True, False, False, True, False, False, False, False, True, False,
     True, False, False, False, False, False, True, True, True, False, False, True, False, True,
     False, True, False, True, False, False, True, True, False, True, True, True, True, True, True,
     False, True, True, True, False] 1 = 1"
    by code_simp
  ultimately show "pow2 4434155615661930479 (1257559732178653 * 3526) 1"
    using pow2_ipow [OF pow2_0(1)] by (simp only: arith_simps) metis
qed simp_all

section \<open>The large primes\<close>

definition order_a_low :: "unit list" where
  "order_a_low = [(), (), (), (), (), (), (), (), (), (), (), (), (), (), (), (), (), (), (), (), (), (), (), (),
     (), (), ()]"

definition order_a_quot :: "unit list" where
  "order_a_quot = [(), (), (), (), (), (), (), (), (), (), (), (), (), (), (), (), (), (), (), (), (), (), (), (),
     (), (), (), (), (), (), (), (), (), (), ()]"

definition order_a_mod :: "unit list" where
  "order_a_mod = [(), (), (), (), (), (), (), (), (), (), (), (), (), (), (), (), (), (), (), (), (), (), (), (),
     (), (), (), (), (), (), ()]"

definition order_a_recip :: onum where
  "order_a_recip = (D6 (D2 (D1 (D0 (D1 (D6 (D4 (D5 (D5 (D4 (D7 (D5 (D0 (D3 (D4 (D4 (D5 (D5 (D2 (D3 (D7 (D7 (D3 (D5
     (D6 (D0 (D1 (D7 (D6 (D3 (D4 (D1 (D7 E)))))))))))))))))))))))))))))))))"

definition order_a_comp :: onum where
  "order_a_comp = (D5 (D3 (D2 (D7 (D2 (D3 (D0 (D1 (D6 (D0 (D0 (D3 (D7 (D0 (D4 (D7 (D7 (D6 (D6 (D2 (D4 (D3 (D1 (D0
     (D6 (D5 (D6 (D0 (D7 (D6 (D7 E)))))))))))))))))))))))))))))))"

lemmas order_a_consts = order_a_low_def order_a_quot_def order_a_mod_def order_a_recip_def order_a_comp_def

abbreviation order_a_pow :: "bool list \<Rightarrow> onum \<Rightarrow> onum" where
  "order_a_pow \<equiv> qpow order_a_low order_a_recip order_a_quot order_a_comp order_a_mod"

lemma order_a_modulus: "ov order_a_comp + 172054593956031949258510691 = 8 ^ length order_a_mod"
  by (simp add: order_a_comp_def order_a_mod_def)

definition order_a_low_power_0 :: onum where
  "order_a_low_power_0 = (D3 (D5 (D3 (D0 (D4 (D6 (D2 (D1 (D3 (D4 (D5 (D0 (D4 (D7 (D3 (D4 (D2 (D6 (D6 (D0 (D0 (D4 (D2 (D3
     (D0 (D2 (D7 (D1 (D4 E)))))))))))))))))))))))))))))"

lemma order_a_low_power_0_step: "pow2 172054593956031949258510691 38802110 (ov order_a_low_power_0)"
proof (rule pow2_qpow [OF pow2_0(2) order_a_modulus])
  show "oeq (order_a_pow [True, False, False, True, False, True, False, False, False, False, False, False, False, True,
     False, False, True, False, True, False, True, True, True, True, True, False] (D1 E)) order_a_low_power_0"
    unfolding order_a_consts order_a_low_power_0_def by (simp only: qpow_eval)
  show "bits_from 0 [True, False, False, True, False, True, False, False, False, False, False, False, False, True,
     False, False, True, False, True, False, True, True, True, True, True, False] = 38802110"
    by (simp add: bits_from_def)
qed

definition order_a_full_power_0 :: onum where
  "order_a_full_power_0 = (D2 (D7 (D4 (D0 (D2 (D2 (D4 (D3 (D6 (D3 (D5 (D4 (D4 (D1 (D7 (D5 (D3 (D7 (D4 (D5 (D4 (D5 (D1 (D0
     (D7 (D3 (D3 (D0 (D4 E)))))))))))))))))))))))))))))"

lemma order_a_full_power_0_step: "pow2 172054593956031949258510691 640953309670209695 (ov order_a_full_power_0)"
proof (rule pow2_qpow [OF pow2_0(2) order_a_modulus])
  show "oeq (order_a_pow [True, False, False, False, True, True, True, False, False, True, False, True, False, False,
     False, True, True, True, True, True, True, False, True, False, False, False, True, True, True,
     False, True, False, False, True, False, False, True, False, False, False, False, False, False,
     False, True, True, True, True, True, False, False, False, True, False, False, True, True, True,
     True, True] (D1 E)) order_a_full_power_0"
    unfolding order_a_consts order_a_full_power_0_def by (simp only: qpow_eval)
  show "bits_from 0 [True, False, False, False, True, True, True, False, False, True, False, True, False, False,
     False, True, True, True, True, True, True, False, True, False, False, False, True, True, True,
     False, True, False, False, True, False, False, True, False, False, False, False, False, False,
     False, True, True, True, True, True, False, False, False, True, False, False, True, True, True,
     True, True] = 640953309670209695"
    by (simp add: bits_from_def)
qed

definition order_a_full_power_1 :: onum where
  "order_a_full_power_1 = (D4 (D4 (D5 (D0 (D5 (D4 (D7 (D6 (D1 (D7 (D7 (D4 (D0 (D7 (D3 (D0 (D0 (D1 (D1 (D5 (D3 (D4 (D6 (D7
     (D1 (D2 (D1 (D7 (D0 (D1 E))))))))))))))))))))))))))))))"

lemma order_a_full_power_1_step: "pow2 172054593956031949258510691 172054593956031949258510690 (ov order_a_full_power_1)"
proof (rule pow2_qpow [OF order_a_full_power_0_step order_a_modulus])
  show "oeq (order_a_pow [True, False, False, True, True, True, False, True, True, True, True, False, False, True, False,
     True, False, False, False, True, False, True, True, False, False, False, True, False] order_a_full_power_0) order_a_full_power_1"
    unfolding order_a_consts order_a_full_power_0_def order_a_full_power_1_def by (simp only: qpow_eval)
  show "bits_from 640953309670209695 [True, False, False, True, True, True, False, True, True, True, True, False, False, True, False,
     True, False, False, False, True, False, True, True, False, False, False, True, False] = 172054593956031949258510690"
    by (simp add: bits_from_def)
qed

lemma prime_order_a: "is_prime 172054593956031949258510691"
proof (rule criterion [where l = 4434155615661930479 and R = 38802110 and t = 0 and u = 38802110 and
    x = "ov order_a_low_power_0" and y = "ov order_a_full_power_1" and
    w = 154275350521713489305385904 and
    k = 73510611687487158067405653 and j = 1])
  show "is_prime (int 4434155615661930479)" using prime_4434155615661930479 by simp
  show "pow2 172054593956031949258510691 38802110 (ov order_a_low_power_0)" by (rule order_a_low_power_0_step)
  show "pow2 172054593956031949258510691 (4434155615661930479 * 38802110) (ov order_a_full_power_1)" using order_a_full_power_1_step by (simp only: arith_simps)
qed (simp_all add: order_a_low_power_0_def order_a_full_power_1_def)

definition order_b_low :: "unit list" where
  "order_b_low = [(), (), (), (), (), (), (), (), (), (), (), (), (), (), (), (), (), (), (), (), (), (), (), (),
     (), (), (), (), (), (), (), (), (), (), (), (), (), (), (), (), (), ()]"

definition order_b_quot :: "unit list" where
  "order_b_quot = [(), (), (), (), (), (), (), (), (), (), (), (), (), (), (), (), (), (), (), (), (), (), (), (),
     (), (), (), (), (), (), (), (), (), (), (), (), (), (), (), (), (), (), (), (), (), (), (), (),
     (), ()]"

definition order_b_mod :: "unit list" where
  "order_b_mod = [(), (), (), (), (), (), (), (), (), (), (), (), (), (), (), (), (), (), (), (), (), (), (), (),
     (), (), (), (), (), (), (), (), (), (), (), (), (), (), (), (), (), (), (), (), (), ()]"

definition order_b_recip :: onum where
  "order_b_recip = (D0 (D2 (D0 (D2 (D2 (D7 (D7 (D7 (D7 (D6 (D6 (D7 (D4 (D2 (D4 (D5 (D7 (D3 (D3 (D7 (D2 (D6 (D7 (D0
     (D3 (D7 (D1 (D4 (D6 (D5 (D4 (D2 (D5 (D4 (D3 (D6 (D4 (D3 (D6 (D1 (D1 (D7 (D6 (D5 (D0 (D5 (D1 (D2
     E))))))))))))))))))))))))))))))))))))))))))))))))"

definition order_b_comp :: onum where
  "order_b_comp = (D5 (D1 (D3 (D0 (D4 (D5 (D5 (D7 (D4 (D7 (D0 (D4 (D4 (D4 (D3 (D2 (D7 (D1 (D1 (D1 (D6 (D3 (D1 (D5
     (D5 (D6 (D3 (D0 (D0 (D6 (D3 (D0 (D3 (D4 (D0 (D4 (D1 (D1 (D7 (D1 (D0 (D6 (D7 (D2 (D4 (D7
     E))))))))))))))))))))))))))))))))))))))))))))))"

lemmas order_b_consts = order_b_low_def order_b_quot_def order_b_mod_def order_b_recip_def order_b_comp_def

abbreviation order_b_pow :: "bool list \<Rightarrow> onum \<Rightarrow> onum" where
  "order_b_pow \<equiv> qpow order_b_low order_b_recip order_b_quot order_b_comp order_b_mod"

lemma order_b_modulus: "ov order_b_comp + 19757330305831588566944191468367130476339 = 8 ^ length order_b_mod"
  by (simp add: order_b_comp_def order_b_mod_def)

definition order_b_low_power_0 :: onum where
  "order_b_low_power_0 = (D4 (D1 (D4 (D4 (D0 (D0 (D1 (D6 (D2 (D5 (D1 (D3 (D1 (D6 (D7 (D1 (D3 (D2 (D6 (D1 (D4 (D3 (D1 (D5
     (D2 (D1 (D3 (D3 (D7 (D4 (D1 (D3 (D3 (D5 (D1 (D5 (D4 (D5 (D0 (D6 (D2 (D4 (D3 (D5 (D1
     E)))))))))))))))))))))))))))))))))))))))))))))"

lemma order_b_low_power_0_step: "pow2 19757330305831588566944191468367130476339 114831751082918 (ov order_b_low_power_0)"
proof (rule pow2_qpow [OF pow2_0(2) order_b_modulus])
  show "oeq (order_b_pow [True, True, False, True, False, False, False, False, True, True, True, False, False, False,
     False, False, True, False, True, True, False, False, True, True, False, True, True, True, False,
     True, True, False, True, True, True, False, False, True, True, True, False, True, False, False,
     True, True, False] (D1 E)) order_b_low_power_0"
    unfolding order_b_consts order_b_low_power_0_def by (simp only: qpow_eval)
  show "bits_from 0 [True, True, False, True, False, False, False, False, True, True, True, False, False, False,
     False, False, True, False, True, True, False, False, True, True, False, True, True, True, False,
     True, True, False, True, True, True, False, False, True, True, True, False, True, False, False,
     True, True, False] = 114831751082918"
    by (simp add: bits_from_def)
qed

definition order_b_full_power_0 :: onum where
  "order_b_full_power_0 = (D0 (D5 (D4 (D4 (D2 (D4 (D1 (D5 (D6 (D0 (D5 (D5 (D1 (D5 (D6 (D0 (D5 (D1 (D0 (D0 (D3 (D7 (D1 (D3
     (D2 (D6 (D4 (D7 (D0 (D3 (D0 (D5 (D5 (D0 (D3 (D7 (D6 (D1 (D7 (D3 (D5 (D0 (D2 (D1
     E))))))))))))))))))))))))))))))))))))))))))))"

lemma order_b_full_power_0_step: "pow2 19757330305831588566944191468367130476339 1045944357426577346 (ov order_b_full_power_0)"
proof (rule pow2_qpow [OF pow2_0(2) order_b_modulus])
  show "oeq (order_b_pow [True, True, True, False, True, False, False, False, False, False, True, True, True, True, True,
     True, False, False, False, False, True, True, False, True, True, False, False, True, True, True,
     True, True, False, True, True, True, False, False, True, True, True, True, False, False, False,
     False, True, True, True, True, True, True, True, True, False, False, False, False, True, False] (D1 E)) order_b_full_power_0"
    unfolding order_b_consts order_b_full_power_0_def by (simp only: qpow_eval)
  show "bits_from 0 [True, True, True, False, True, False, False, False, False, False, True, True, True, True, True,
     True, False, False, False, False, True, True, False, True, True, False, False, True, True, True,
     True, True, False, True, True, True, False, False, True, True, True, True, False, False, False,
     False, True, True, True, True, True, True, True, True, False, False, False, False, True, False] = 1045944357426577346"
    by (simp add: bits_from_def)
qed

definition order_b_full_power_1 :: onum where
  "order_b_full_power_1 = (D0 (D4 (D0 (D2 (D5 (D3 (D5 (D1 (D5 (D1 (D5 (D6 (D5 (D4 (D3 (D7 (D2 (D7 (D1 (D5 (D5 (D6 (D5 (D6
     (D0 (D5 (D5 (D4 (D0 (D7 (D4 (D2 (D5 (D5 (D7 (D3 (D0 (D1 (D6 (D3 (D0 (D2 (D3 (D1
     E))))))))))))))))))))))))))))))))))))))))))))"

lemma order_b_full_power_1_step: "pow2 19757330305831588566944191468367130476339 1205891742299291294369152311301704740 (ov order_b_full_power_1)"
proof (rule pow2_qpow [OF order_b_full_power_0_step order_b_modulus])
  show "oeq (order_b_pow [True, False, False, True, False, True, True, False, True, False, False, False, False, True,
     True, True, False, True, True, False, True, True, False, False, False, False, True, False, True,
     True, False, False, False, True, True, False, True, True, False, True, True, True, True, True,
     False, False, False, False, True, True, False, False, False, False, True, False, False, True,
     False, False] order_b_full_power_0) order_b_full_power_1"
    unfolding order_b_consts order_b_full_power_0_def order_b_full_power_1_def by (simp only: qpow_eval)
  show "bits_from 1045944357426577346 [True, False, False, True, False, True, True, False, True, False, False, False, False, True,
     True, True, False, True, True, False, True, True, False, False, False, False, True, False, True,
     True, False, False, False, True, True, False, True, True, False, True, True, True, True, True,
     False, False, False, False, True, True, False, False, False, False, True, False, False, True,
     False, False] = 1205891742299291294369152311301704740"
    by (simp add: bits_from_def)
qed

definition order_b_full_power_2 :: onum where
  "order_b_full_power_2 = (D4 (D6 (D4 (D7 (D3 (D2 (D2 (D0 (D3 (D0 (D7 (D3 (D3 (D3 (D4 (D5 (D0 (D6 (D6 (D6 (D1 (D4 (D6 (D2
     (D2 (D1 (D4 (D7 (D7 (D1 (D4 (D7 (D4 (D3 (D7 (D3 (D6 (D6 (D0 (D6 (D7 (D1 (D0 (D5 (D3
     E)))))))))))))))))))))))))))))))))))))))))))))"

lemma order_b_full_power_2_step: "pow2 19757330305831588566944191468367130476339 19757330305831588566944191468367130476338 (ov order_b_full_power_2)"
proof (rule pow2_qpow [OF order_b_full_power_1_step order_b_modulus])
  show "oeq (order_b_pow [True, True, True, True, True, True, False, False, True, True, False, False, True, False] order_b_full_power_1) order_b_full_power_2"
    unfolding order_b_consts order_b_full_power_1_def order_b_full_power_2_def by (simp only: qpow_eval)
  show "bits_from 1205891742299291294369152311301704740 [True, True, True, True, True, True, False, False, True, True, False, False, True, False] = 19757330305831588566944191468367130476338"
    by (simp add: bits_from_def)
qed

lemma prime_order_b: "is_prime 19757330305831588566944191468367130476339"
proof (rule criterion [where l = 172054593956031949258510691 and R = 114831751082918 and t = 0 and u = 114831751082918 and
    x = "ov order_b_low_power_0" and y = "ov order_b_full_power_2" and
    w = 16371654433361644093796961727196399386194 and
    k = 7580999557119167215323054323116539631207 and j = 1])
  show "is_prime (int 172054593956031949258510691)" using prime_order_a by simp
  show "pow2 19757330305831588566944191468367130476339 114831751082918 (ov order_b_low_power_0)" by (rule order_b_low_power_0_step)
  show "pow2 19757330305831588566944191468367130476339 (172054593956031949258510691 * 114831751082918) (ov order_b_full_power_2)" using order_b_full_power_2_step by (simp only: arith_simps)
qed (simp_all add: order_b_low_power_0_def order_b_full_power_2_def)

definition order_c_low :: "unit list" where
  "order_c_low = [(), (), (), (), (), (), (), (), (), (), (), (), (), (), (), (), (), (), (), (), (), (), (), (),
     (), (), (), (), (), (), (), (), (), (), (), (), (), (), (), (), (), (), ()]"

definition order_c_quot :: "unit list" where
  "order_c_quot = [(), (), (), (), (), (), (), (), (), (), (), (), (), (), (), (), (), (), (), (), (), (), (), (),
     (), (), (), (), (), (), (), (), (), (), (), (), (), (), (), (), (), (), (), (), (), (), (), (),
     (), (), ()]"

definition order_c_mod :: "unit list" where
  "order_c_mod = [(), (), (), (), (), (), (), (), (), (), (), (), (), (), (), (), (), (), (), (), (), (), (), (),
     (), (), (), (), (), (), (), (), (), (), (), (), (), (), (), (), (), (), (), (), (), (), ()]"

definition order_c_recip :: onum where
  "order_c_recip = (D3 (D2 (D5 (D5 (D5 (D4 (D7 (D7 (D7 (D7 (D3 (D0 (D1 (D5 (D2 (D1 (D3 (D4 (D4 (D6 (D0 (D5 (D3 (D4
     (D0 (D4 (D6 (D6 (D5 (D3 (D4 (D1 (D7 (D1 (D7 (D0 (D7 (D3 (D5 (D3 (D4 (D7 (D2 (D7 (D7 (D4 (D0 (D2
     (D1 E)))))))))))))))))))))))))))))))))))))))))))))))))"

definition order_c_comp :: onum where
  "order_c_comp = (D5 (D6 (D4 (D5 (D0 (D5 (D7 (D3 (D5 (D2 (D5 (D1 (D7 (D7 (D1 (D2 (D6 (D2 (D1 (D0 (D6 (D4 (D4 (D0
     (D7 (D5 (D5 (D6 (D0 (D4 (D4 (D6 (D2 (D5 (D7 (D0 (D5 (D0 (D4 (D2 (D3 (D4 (D4 (D1 (D5 (D1 (D7
     E)))))))))))))))))))))))))))))))))))))))))))))))"

lemmas order_c_consts = order_c_low_def order_c_quot_def order_c_mod_def order_c_recip_def order_c_comp_def

abbreviation order_c_pow :: "bool list \<Rightarrow> onum \<Rightarrow> onum" where
  "order_c_pow \<equiv> qpow order_c_low order_c_recip order_c_quot order_c_comp order_c_mod"

lemma order_c_modulus: "ov order_c_comp + 276602624281642239937218680557139826668747 = 8 ^ length order_c_mod"
  by (simp add: order_c_comp_def order_c_mod_def)

definition order_c_low_power_0 :: onum where
  "order_c_low_power_0 = (D0 (D0 (D0 (D0 (D4 E)))))"

lemma order_c_low_power_0_step: "pow2 276602624281642239937218680557139826668747 14 (ov order_c_low_power_0)"
proof (rule pow2_qpow [OF pow2_0(2) order_c_modulus])
  show "oeq (order_c_pow [True, True, True, False] (D1 E)) order_c_low_power_0"
    unfolding order_c_consts order_c_low_power_0_def by (simp only: qpow_eval)
  show "bits_from 0 [True, True, True, False] = 14"
    by (simp add: bits_from_def)
qed

definition order_c_full_power_0 :: onum where
  "order_c_full_power_0 = (D2 (D6 (D5 (D7 (D5 (D2 (D1 (D2 (D0 (D1 (D2 (D6 (D6 (D7 (D5 (D6 (D3 (D1 (D7 (D2 (D1 (D2 (D3 (D1
     (D7 (D4 (D6 (D2 (D4 (D7 (D1 (D5 (D5 (D6 (D0 (D2 (D6 (D3 (D3 (D6 (D2 (D1 (D4 (D1 (D0 (D1
     E))))))))))))))))))))))))))))))))))))))))))))))"

lemma order_c_full_power_0_step: "pow2 276602624281642239937218680557139826668747 915201312748255178 (ov order_c_full_power_0)"
proof (rule pow2_qpow [OF pow2_0(2) order_c_modulus])
  show "oeq (order_c_pow [True, True, False, False, True, False, True, True, False, False, True, True, False, True, True,
     True, False, False, True, False, True, False, True, True, True, True, True, False, True, False,
     True, True, True, False, False, False, False, True, False, True, False, True, False, False,
     True, False, True, True, False, True, True, True, True, True, False, False, True, False, True,
     False] (D1 E)) order_c_full_power_0"
    unfolding order_c_consts order_c_full_power_0_def by (simp only: qpow_eval)
  show "bits_from 0 [True, True, False, False, True, False, True, True, False, False, True, True, False, True, True,
     True, False, False, True, False, True, False, True, True, True, True, True, False, True, False,
     True, True, True, False, False, False, False, True, False, True, False, True, False, False,
     True, False, True, True, False, True, True, True, True, True, False, False, True, False, True,
     False] = 915201312748255178"
    by (simp add: bits_from_def)
qed

definition order_c_full_power_1 :: onum where
  "order_c_full_power_1 = (D6 (D4 (D2 (D2 (D6 (D4 (D1 (D4 (D7 (D1 (D4 (D6 (D4 (D0 (D1 (D0 (D4 (D6 (D2 (D5 (D1 (D3 (D3 (D1
     (D0 (D5 (D4 (D6 (D5 (D0 (D1 (D7 (D7 (D5 (D7 (D6 (D3 (D3 (D6 (D1 (D5 (D7 (D5 (D2 (D3 (D3
     E))))))))))))))))))))))))))))))))))))))))))))))"

lemma order_c_full_power_1_step: "pow2 276602624281642239937218680557139826668747 1055155274511879882573008272388991648 (ov order_c_full_power_1)"
proof (rule pow2_qpow [OF order_c_full_power_0_step order_c_modulus])
  show "oeq (order_c_pow [False, True, False, False, False, False, True, True, True, False, True, True, False, True,
     True, False, False, True, True, True, True, True, True, False, True, False, True, False, False,
     True, True, False, True, True, True, False, False, False, False, False, False, False, True,
     True, False, False, True, False, True, False, True, False, True, False, True, False, False,
     False, False, False] order_c_full_power_0) order_c_full_power_1"
    unfolding order_c_consts order_c_full_power_0_def order_c_full_power_1_def by (simp only: qpow_eval)
  show "bits_from 915201312748255178 [False, True, False, False, False, False, True, True, True, False, True, True, False, True,
     True, False, False, True, True, True, True, True, True, False, True, False, True, False, False,
     True, True, False, True, True, True, False, False, False, False, False, False, False, True,
     True, False, False, True, False, True, False, True, False, True, False, True, False, False,
     False, False, False] = 1055155274511879882573008272388991648"
    by (simp add: bits_from_def)
qed

definition order_c_full_power_2 :: onum where
  "order_c_full_power_2 = (D4 (D1 (D3 (D2 (D7 (D2 (D0 (D4 (D2 (D5 (D2 (D6 (D0 (D0 (D6 (D5 (D1 (D5 (D6 (D7 (D1 (D3 (D3 (D7
     (D0 (D2 (D2 (D1 (D7 (D3 (D3 (D1 (D5 (D2 (D0 (D7 (D2 (D7 (D3 (D5 (D4 (D3 (D3 (D6 (D2 (D6
     E))))))))))))))))))))))))))))))))))))))))))))))"

lemma order_c_full_power_2_step: "pow2 276602624281642239937218680557139826668747 276602624281642239937218680557139826668746 (ov order_c_full_power_2)"
proof (rule pow2_qpow [OF order_c_full_power_1_step order_c_modulus])
  show "oeq (order_c_pow [False, True, False, True, True, True, False, True, False, False, True, True, False, False,
     True, False, True, False] order_c_full_power_1) order_c_full_power_2"
    unfolding order_c_consts order_c_full_power_1_def order_c_full_power_2_def by (simp only: qpow_eval)
  show "bits_from 1055155274511879882573008272388991648 [False, True, False, True, True, True, False, True, False, False, True, True, False, False,
     True, False, True, False] = 276602624281642239937218680557139826668746"
    by (simp add: bits_from_def)
qed

lemma prime_order_c: "is_prime 276602624281642239937218680557139826668747"
proof (rule criterion [where l = 19757330305831588566944191468367130476339 and R = 14 and t = 0 and u = 14 and
    x = "ov order_c_low_power_0" and y = "ov order_c_full_power_2" and
    w = 94074944912245044309966580483695483989395 and
    k = 5572 and j = 1])
  show "is_prime (int 19757330305831588566944191468367130476339)" using prime_order_b by simp
  show "pow2 276602624281642239937218680557139826668747 14 (ov order_c_low_power_0)" by (rule order_c_low_power_0_step)
  show "pow2 276602624281642239937218680557139826668747 (19757330305831588566944191468367130476339 * 14) (ov order_c_full_power_2)" using order_c_full_power_2_step by (simp only: arith_simps)
qed (simp_all add: order_c_low_power_0_def order_c_full_power_2_def)

definition order_l_low :: "unit list" where
  "order_l_low = [(), (), (), (), (), (), (), (), (), (), (), (), (), (), (), (), (), (), (), (), (), (), (), (),
     (), (), (), (), (), (), (), (), (), (), (), (), (), (), (), (), (), (), (), (), (), (), (), (),
     (), (), (), (), (), (), (), (), (), (), (), (), (), (), (), (), (), (), (), (), (), (), (), (),
     (), (), (), (), (), (), (), (), (), ()]"

definition order_l_quot :: "unit list" where
  "order_l_quot = [(), (), (), (), (), (), (), (), (), (), (), (), (), (), (), (), (), (), (), (), (), (), (), (),
     (), (), (), (), (), (), (), (), (), (), (), (), (), (), (), (), (), (), (), (), (), (), (), (),
     (), (), (), (), (), (), (), (), (), (), (), (), (), (), (), (), (), (), (), (), (), (), (), (),
     (), (), (), (), (), (), (), (), (), (), (), (), (), (), (), (), (), ()]"

definition order_l_mod :: "unit list" where
  "order_l_mod = [(), (), (), (), (), (), (), (), (), (), (), (), (), (), (), (), (), (), (), (), (), (), (), (),
     (), (), (), (), (), (), (), (), (), (), (), (), (), (), (), (), (), (), (), (), (), (), (), (),
     (), (), (), (), (), (), (), (), (), (), (), (), (), (), (), (), (), (), (), (), (), (), (), (),
     (), (), (), (), (), (), (), (), (), (), (), (), (), ()]"

definition order_l_recip :: onum where
  "order_l_recip = (D3 (D6 (D6 (D0 (D3 (D2 (D0 (D6 (D2 (D4 (D2 (D0 (D3 (D4 (D6 (D2 (D6 (D1 (D7 (D4 (D5 (D5 (D7 (D3
     (D2 (D3 (D2 (D1 (D3 (D4 (D1 (D4 (D0 (D2 (D7 (D2 (D1 (D4 (D0 (D3 (D0 (D2 (D0 (D1 (D3 (D5 (D7 (D7
     (D7 (D7 (D7 (D7 (D7 (D7 (D7 (D7 (D7 (D7 (D7 (D7 (D7 (D7 (D7 (D7 (D7 (D7 (D7 (D7 (D7 (D7 (D7 (D7
     (D7 (D7 (D7 (D7 (D7 (D7 (D7 (D7 (D7 (D7 (D7 (D7 (D7 (D7 (D7 (D7
     E))))))))))))))))))))))))))))))))))))))))))))))))))))))))))))))))))))))))))))))))))))))))"

definition order_l_comp :: onum where
  "order_l_comp = (D3 (D2 (D0 (D6 (D2 (D4 (D2 (D0 (D3 (D4 (D6 (D2 (D6 (D1 (D7 (D4 (D5 (D5 (D7 (D3 (D2 (D3 (D2 (D1
     (D3 (D4 (D1 (D4 (D0 (D2 (D7 (D2 (D1 (D4 (D0 (D3 (D0 (D2 (D0 (D1 (D3 (D5 (D7 (D7 (D7 (D7 (D7 (D7
     (D7 (D7 (D7 (D7 (D7 (D7 (D7 (D7 (D7 (D7 (D7 (D7 (D7 (D7 (D7 (D7 (D7 (D7 (D7 (D7 (D7 (D7 (D7 (D7
     (D7 (D7 (D7 (D7 (D7 (D7 (D7 (D7 (D7 (D7 (D7 (D7 (D6 (D7
     E))))))))))))))))))))))))))))))))))))))))))))))))))))))))))))))))))))))))))))))))))))))"

lemmas order_l_consts = order_l_low_def order_l_quot_def order_l_mod_def order_l_recip_def order_l_comp_def

abbreviation order_l_pow :: "bool list \<Rightarrow> onum \<Rightarrow> onum" where
  "order_l_pow \<equiv> qpow order_l_low order_l_recip order_l_quot order_l_comp order_l_mod"

lemma order_l_modulus: "ov order_l_comp + 7237005577332262213973186563042994240857116359379907606001950938285454250989 = 8 ^ length order_l_mod"
  by (simp add: order_l_comp_def order_l_mod_def)

definition order_l_low_power_0 :: onum where
  "order_l_low_power_0 = (D2 (D4 (D0 (D1 (D4 (D3 (D7 (D6 (D2 (D2 (D7 (D1 (D5 (D5 (D3 (D4 (D4 (D3 (D0 (D1 (D4 (D0 (D3 (D7
     (D5 (D6 (D2 (D6 (D6 (D5 (D4 (D4 (D1 (D2 (D1 (D3 (D7 (D3 (D0 (D6 (D2 (D3 (D3 (D5 (D6 (D1 (D0 (D3
     (D0 (D5 (D0 (D4 (D0 (D0 (D3 (D1 (D0 (D1 (D5 (D7 (D3 (D4 (D1 (D7 (D5 (D6 (D5 (D6 (D4 (D7 (D1 (D3
     (D0 (D6 (D1 (D4 (D4 (D7 (D3 (D1 (D7 (D2 (D2
     E)))))))))))))))))))))))))))))))))))))))))))))))))))))))))))))))))))))))))))))))))))"

lemma order_l_low_power_0_step: "pow2 7237005577332262213973186563042994240857116359379907606001950938285454250989 726194323188513166 (ov order_l_low_power_0)"
proof (rule pow2_qpow [OF pow2_0(2) order_l_modulus])
  show "oeq (order_l_pow [True, False, True, False, False, False, False, True, False, False, True, True, True, True,
     True, True, False, True, False, True, True, True, True, False, False, False, True, True, True,
     False, True, False, True, True, True, True, True, False, False, False, True, True, True, False,
     False, True, True, True, True, False, False, True, True, False, False, False, True, True, True,
     False] (D1 E)) order_l_low_power_0"
    unfolding order_l_consts order_l_low_power_0_def by (simp only: qpow_eval)
  show "bits_from 0 [True, False, True, False, False, False, False, True, False, False, True, True, True, True,
     True, True, False, True, False, True, True, True, True, False, False, False, True, True, True,
     False, True, False, True, True, True, True, True, False, False, False, True, True, True, False,
     False, True, True, True, True, False, False, True, True, False, False, False, True, True, True,
     False] = 726194323188513166"
    by (simp add: bits_from_def)
qed

definition order_l_low_power_1 :: onum where
  "order_l_low_power_1 = (D1 (D0 (D3 (D7 (D2 (D7 (D3 (D3 (D2 (D2 (D3 (D4 (D2 (D5 (D6 (D3 (D1 (D7 (D6 (D4 (D0 (D4 (D3 (D4
     (D3 (D4 (D6 (D5 (D3 (D6 (D2 (D0 (D6 (D5 (D6 (D2 (D3 (D0 (D1 (D2 (D1 (D1 (D1 (D4 (D3 (D4 (D1 (D5
     (D2 (D6 (D5 (D2 (D0 (D0 (D7 (D2 (D6 (D0 (D7 (D0 (D2 (D0 (D3 (D2 (D7 (D0 (D7 (D2 (D0 (D3 (D4 (D2
     (D2 (D0 (D6 (D3 (D4 (D6 (D5 (D0 (D4 (D2 (D2 (D3
     E))))))))))))))))))))))))))))))))))))))))))))))))))))))))))))))))))))))))))))))))))))"

lemma order_l_low_power_1_step: "pow2 7237005577332262213973186563042994240857116359379907606001950938285454250989 26163907866482859529727157400808004 (ov order_l_low_power_1)"
proof (rule pow2_qpow [OF order_l_low_power_0_step order_l_modulus])
  show "oeq (order_l_pow [True, True, True, False, True, True, False, True, False, False, False, False, False, True,
     False, False, False, True, True, True, False, True, False, False, False, True, True, False,
     True, False, False, True, False, False, False, True, True, False, False, True, False, True,
     False, True, False, True, False, False, True, False, False, False, True, False, False] order_l_low_power_0) order_l_low_power_1"
    unfolding order_l_consts order_l_low_power_0_def order_l_low_power_1_def by (simp only: qpow_eval)
  show "bits_from 726194323188513166 [True, True, True, False, True, True, False, True, False, False, False, False, False, True,
     False, False, False, True, True, True, False, True, False, False, False, True, True, False,
     True, False, False, True, False, False, False, True, True, False, False, True, False, True,
     False, True, False, True, False, False, True, False, False, False, True, False, False] = 26163907866482859529727157400808004"
    by (simp add: bits_from_def)
qed

definition order_l_full_power_0 :: onum where
  "order_l_full_power_0 = (D6 (D6 (D1 (D0 (D5 (D0 (D7 (D3 (D1 (D4 (D5 (D3 (D4 (D2 (D7 (D7 (D4 (D1 (D2 (D7 (D4 (D2 (D5 (D3
     (D2 (D2 (D1 (D3 (D1 (D7 (D1 (D0 (D1 (D6 (D5 (D5 (D5 (D7 (D3 (D1 (D4 (D1 (D3 (D7 (D3 (D5 (D5 (D0
     (D7 (D2 (D1 (D1 (D0 (D4 (D7 (D7 (D1 (D2 (D2 (D3 (D7 (D0 (D4 (D3 (D4 (D3 (D7 (D0 (D5 (D6 (D6 (D0
     (D3 (D0 (D4 (D0 (D3 (D6 (D1 (D0 (D6 (D2 (D7 (D5
     E))))))))))))))))))))))))))))))))))))))))))))))))))))))))))))))))))))))))))))))))))))"

lemma order_l_full_power_0_step: "pow2 7237005577332262213973186563042994240857116359379907606001950938285454250989 576460752303423488 (ov order_l_full_power_0)"
proof (rule pow2_qpow [OF pow2_0(2) order_l_modulus])
  show "oeq (order_l_pow [True, False, False, False, False, False, False, False, False, False, False, False, False,
     False, False, False, False, False, False, False, False, False, False, False, False, False,
     False, False, False, False, False, False, False, False, False, False, False, False, False,
     False, False, False, False, False, False, False, False, False, False, False, False, False,
     False, False, False, False, False, False, False, False] (D1 E)) order_l_full_power_0"
    unfolding order_l_consts order_l_full_power_0_def by (simp only: qpow_eval)
  show "bits_from 0 [True, False, False, False, False, False, False, False, False, False, False, False, False,
     False, False, False, False, False, False, False, False, False, False, False, False, False,
     False, False, False, False, False, False, False, False, False, False, False, False, False,
     False, False, False, False, False, False, False, False, False, False, False, False, False,
     False, False, False, False, False, False, False, False] = 576460752303423488"
    by (simp add: bits_from_def)
qed

definition order_l_full_power_1 :: onum where
  "order_l_full_power_1 = (D0 (D1 (D1 (D2 (D0 (D4 (D7 (D1 (D3 (D4 (D0 (D1 (D4 (D5 (D5 (D7 (D0 (D7 (D2 (D4 (D3 (D4 (D0 (D5
     (D4 (D2 (D0 (D5 (D0 (D6 (D4 (D3 (D6 (D0 (D1 (D1 (D2 (D7 (D2 (D5 (D1 (D1 (D1 (D3 (D6 (D5 (D1 (D5
     (D3 (D2 (D1 (D4 (D2 (D4 (D2 (D7 (D2 (D3 (D7 (D0 (D0 (D0 (D5 (D3 (D1 (D7 (D4 (D7 (D6 (D3 (D1 (D1
     (D0 (D0 (D4 (D6 (D3 (D2 (D3 (D0 (D3 (D5 (D4 (D6
     E))))))))))))))))))))))))))))))))))))))))))))))))))))))))))))))))))))))))))))))))))))"

lemma order_l_full_power_1_step: "pow2 7237005577332262213973186563042994240857116359379907606001950938285454250989 664613997892457936451903530140172288 (ov order_l_full_power_1)"
proof (rule pow2_qpow [OF order_l_full_power_0_step order_l_modulus])
  show "oeq (order_l_pow [False, False, False, False, False, False, False, False, False, False, False, False, False,
     False, False, False, False, False, False, False, False, False, False, False, False, False,
     False, False, False, False, False, False, False, False, False, False, False, False, False,
     False, False, False, False, False, False, False, False, False, False, False, False, False,
     False, False, False, False, False, False, False, False] order_l_full_power_0) order_l_full_power_1"
    unfolding order_l_consts order_l_full_power_0_def order_l_full_power_1_def by (simp only: qpow_eval)
  show "bits_from 576460752303423488 [False, False, False, False, False, False, False, False, False, False, False, False, False,
     False, False, False, False, False, False, False, False, False, False, False, False, False,
     False, False, False, False, False, False, False, False, False, False, False, False, False,
     False, False, False, False, False, False, False, False, False, False, False, False, False,
     False, False, False, False, False, False, False, False] = 664613997892457936451903530140172288"
    by (simp add: bits_from_def)
qed

definition order_l_full_power_2 :: onum where
  "order_l_full_power_2 = (D7 (D1 (D5 (D2 (D4 (D7 (D3 (D6 (D4 (D1 (D3 (D4 (D4 (D6 (D0 (D7 (D5 (D5 (D3 (D7 (D3 (D2 (D7 (D1
     (D3 (D2 (D2 (D4 (D1 (D7 (D5 (D3 (D5 (D6 (D6 (D4 (D1 (D0 (D3 (D0 (D1 (D0 (D0 (D1 (D6 (D1 (D0 (D4
     (D3 (D5 (D6 (D2 (D3 (D3 (D6 (D1 (D5 (D0 (D0 (D3 (D6 (D0 (D7 (D4 (D5 (D2 (D7 (D3 (D7 (D1 (D2 (D0
     (D4 (D3 (D3 (D2 (D6 (D3 (D3 (D0 (D2 (D6 (D5 (D6
     E))))))))))))))))))))))))))))))))))))))))))))))))))))))))))))))))))))))))))))))))))))"

lemma order_l_full_power_2_step: "pow2 7237005577332262213973186563042994240857116359379907606001950938285454250989 766247770432944429179173513575154591812306893240630222 (ov order_l_full_power_2)"
proof (rule pow2_qpow [OF order_l_full_power_1_step order_l_modulus])
  show "oeq (order_l_pow [False, False, False, False, False, False, False, False, True, False, True, False, False, True,
     True, False, True, True, True, True, False, True, True, True, True, True, False, False, True,
     True, True, False, True, True, True, True, False, True, False, True, False, False, False, True,
     False, True, True, True, True, False, True, True, True, True, False, False, True, True, True,
     False] order_l_full_power_1) order_l_full_power_2"
    unfolding order_l_consts order_l_full_power_1_def order_l_full_power_2_def by (simp only: qpow_eval)
  show "bits_from 664613997892457936451903530140172288 [False, False, False, False, False, False, False, False, True, False, True, False, False, True,
     True, False, True, True, True, True, False, True, True, True, True, True, False, False, True,
     True, True, False, True, True, True, True, False, True, False, True, False, False, False, True,
     False, True, True, True, True, False, True, True, True, True, False, False, True, True, True,
     False] = 766247770432944429179173513575154591812306893240630222"
    by (simp add: bits_from_def)
qed

definition order_l_full_power_3 :: onum where
  "order_l_full_power_3 = (D1 (D1 (D3 (D2 (D7 (D4 (D7 (D6 (D4 (D0 (D5 (D5 (D7 (D5 (D2 (D3 (D0 (D1 (D2 (D6 (D0 (D1 (D3 (D0
     (D1 (D5 (D3 (D4 (D2 (D0 (D6 (D1 (D7 (D6 (D0 (D2 (D4 (D3 (D6 (D6 (D2 (D5 (D4 (D5 (D0 (D7 (D1 (D0
     (D3 (D0 (D1 (D5 (D4 (D3 (D5 (D5 (D4 (D2 (D2 (D2 (D2 (D1 (D1 (D6 (D0 (D5 (D6 (D7 (D5 (D3 (D4 (D0
     (D6 (D0 (D5 (D5 (D5 (D3 (D7 (D0 (D5 (D1 (D6 (D3
     E))))))))))))))))))))))))))))))))))))))))))))))))))))))))))))))))))))))))))))))))))))"

lemma order_l_full_power_3_step: "pow2 7237005577332262213973186563042994240857116359379907606001950938285454250989 883423532389192164791648750371459257917128461838367627685785026646173614 (ov order_l_full_power_3)"
proof (rule pow2_qpow [OF order_l_full_power_2_step order_l_modulus])
  show "oeq (order_l_pow [False, True, True, False, True, False, True, True, False, False, True, False, True, True,
     False, False, False, False, False, False, True, False, False, True, False, False, True, True,
     False, False, False, True, True, False, False, False, True, True, False, True, False, False,
     True, False, True, True, True, False, False, True, True, True, True, False, True, False, True,
     True, True, False] order_l_full_power_2) order_l_full_power_3"
    unfolding order_l_consts order_l_full_power_2_def order_l_full_power_3_def by (simp only: qpow_eval)
  show "bits_from 766247770432944429179173513575154591812306893240630222 [False, True, True, False, True, False, True, True, False, False, True, False, True, True,
     False, False, False, False, False, False, True, False, False, True, False, False, True, True,
     False, False, False, True, True, False, False, False, True, True, False, True, False, False,
     True, False, True, True, True, False, False, True, True, True, True, False, True, False, True,
     True, True, False] = 883423532389192164791648750371459257917128461838367627685785026646173614"
    by (simp add: bits_from_def)
qed

definition order_l_full_power_4 :: onum where
  "order_l_full_power_4 = (D6 (D5 (D7 (D1 (D5 (D3 (D5 (D7 (D4 (D3 (D1 (D5 (D1 (D6 (D0 (D3 (D2 (D2 (D0 (D4 (D5 (D4 (D5 (D6
     (D4 (D3 (D6 (D3 (D7 (D5 (D0 (D5 (D6 (D3 (D7 (D4 (D7 (D5 (D7 (D6 (D4 (D2 (D0 (D0 (D0 (D0 (D0 (D0
     (D0 (D0 (D0 (D0 (D0 (D0 (D0 (D0 (D0 (D0 (D0 (D0 (D0 (D0 (D0 (D0 (D0 (D0 (D0 (D0 (D0 (D0 (D0 (D0
     (D0 (D0 (D0 (D0 (D0 (D0 (D0 (D0 (D0 (D0 (D0 (D0 (D1
     E)))))))))))))))))))))))))))))))))))))))))))))))))))))))))))))))))))))))))))))))))))))"

lemma order_l_full_power_4_step: "pow2 7237005577332262213973186563042994240857116359379907606001950938285454250989 7237005577332262213973186563042994240857116359379907606001950938285454250988 (ov order_l_full_power_4)"
proof (rule pow2_qpow [OF order_l_full_power_3_step order_l_modulus])
  show "oeq (order_l_pow [True, False, False, True, True, True, True, True, False, True, True, False, False] order_l_full_power_3) order_l_full_power_4"
    unfolding order_l_consts order_l_full_power_3_def order_l_full_power_4_def by (simp only: qpow_eval)
  show "bits_from 883423532389192164791648750371459257917128461838367627685785026646173614 [True, False, False, True, True, True, True, True, False, True, True, False, False] = 7237005577332262213973186563042994240857116359379907606001950938285454250988"
    by (simp add: bits_from_def)
qed

lemma prime_order_l: "is_prime 7237005577332262213973186563042994240857116359379907606001950938285454250989"
proof (rule criterion [where l = 276602624281642239937218680557139826668747 and R = 26163907866482859529727157400808004 and t = 0 and u = 26163907866482859529727157400808004 and
    x = "ov order_l_low_power_1" and y = "ov order_l_full_power_4" and
    w = 2233364593245673852815932892735013076939656528578070433728021143254617821614 and
    k = 918259049265850385831298250211759012539362291049224222049079815310237912731 and j = 1])
  show "is_prime (int 276602624281642239937218680557139826668747)" using prime_order_c by simp
  show "pow2 7237005577332262213973186563042994240857116359379907606001950938285454250989 26163907866482859529727157400808004 (ov order_l_low_power_1)" by (rule order_l_low_power_1_step)
  show "pow2 7237005577332262213973186563042994240857116359379907606001950938285454250989 (276602624281642239937218680557139826668747 * 26163907866482859529727157400808004) (ov order_l_full_power_4)" using order_l_full_power_4_step by (simp only: arith_simps)
qed (simp_all add: order_l_low_power_1_def order_l_full_power_4_def)

theorem prime_sc_l: "is_prime sc_l"
  using prime_order_l by (simp add: sc_l_def)

end
