(* ===== verification/Sha512.thy ===== *)
theory Sha512
  imports Crypto_Prelude
begin

text \<open>
  SHA-512 of nacl_sha512/hash.c and blocks.c, the hash of the signature code, against the
  unrolled algorithm: the 80-word schedule, the compression function, the padding. The macros
  of blocks.c and its constants are shared by both sides here; Fips_180 states the standard
  without them.
\<close>

type_synonym u64 = "64 word"

section \<open>The macros of blocks.c and the hash over a whole schedule\<close>

definition Ch :: "u64 \<Rightarrow> u64 \<Rightarrow> u64 \<Rightarrow> u64" where
  "Ch x y z = (x AND y) XOR (NOT x AND z)"

definition Maj :: "u64 \<Rightarrow> u64 \<Rightarrow> u64 \<Rightarrow> u64" where
  "Maj x y z = (x AND y) XOR (x AND z) XOR (y AND z)"

definition ROTR :: "u64 \<Rightarrow> nat \<Rightarrow> u64" where
  "ROTR x c = drop_bit c x OR push_bit (64 - c) x"

definition Sigma0 :: "u64 \<Rightarrow> u64" where
  "Sigma0 x = ROTR x 28 XOR ROTR x 34 XOR ROTR x 39"

definition Sigma1 :: "u64 \<Rightarrow> u64" where
  "Sigma1 x = ROTR x 14 XOR ROTR x 18 XOR ROTR x 41"

definition sigma0 :: "u64 \<Rightarrow> u64" where
  "sigma0 x = ROTR x 1 XOR ROTR x 8 XOR drop_bit 7 x"

definition sigma1 :: "u64 \<Rightarrow> u64" where
  "sigma1 x = ROTR x 19 XOR ROTR x 61 XOR drop_bit 6 x"

text \<open>The 80 constants in rows of four, in the order blocks.c passes them to its macro \<open>F\<close>.\<close>

definition sha512_K :: "u64 list" where
  "sha512_K =
    concat
    [[0x428a2f98d728ae22, 0x7137449123ef65cd, 0xb5c0fbcfec4d3b2f, 0xe9b5dba58189dbbc],
     [0x3956c25bf348b538, 0x59f111f1b605d019, 0x923f82a4af194f9b, 0xab1c5ed5da6d8118],
     [0xd807aa98a3030242, 0x12835b0145706fbe, 0x243185be4ee4b28c, 0x550c7dc3d5ffb4e2],
     [0x72be5d74f27b896f, 0x80deb1fe3b1696b1, 0x9bdc06a725c71235, 0xc19bf174cf692694],
     [0xe49b69c19ef14ad2, 0xefbe4786384f25e3, 0x0fc19dc68b8cd5b5, 0x240ca1cc77ac9c65],
     [0x2de92c6f592b0275, 0x4a7484aa6ea6e483, 0x5cb0a9dcbd41fbd4, 0x76f988da831153b5],
     [0x983e5152ee66dfab, 0xa831c66d2db43210, 0xb00327c898fb213f, 0xbf597fc7beef0ee4],
     [0xc6e00bf33da88fc2, 0xd5a79147930aa725, 0x06ca6351e003826f, 0x142929670a0e6e70],
     [0x27b70a8546d22ffc, 0x2e1b21385c26c926, 0x4d2c6dfc5ac42aed, 0x53380d139d95b3df],
     [0x650a73548baf63de, 0x766a0abb3c77b2a8, 0x81c2c92e47edaee6, 0x92722c851482353b],
     [0xa2bfe8a14cf10364, 0xa81a664bbc423001, 0xc24b8b70d0f89791, 0xc76c51a30654be30],
     [0xd192e819d6ef5218, 0xd69906245565a910, 0xf40e35855771202a, 0x106aa07032bbd1b8],
     [0x19a4c116b8d2d0c8, 0x1e376c085141ab53, 0x2748774cdf8eeb99, 0x34b0bcb5e19b48a8],
     [0x391c0cb3c5c95a63, 0x4ed8aa4ae3418acb, 0x5b9cca4f7763e373, 0x682e6ff3d6b2b8a3],
     [0x748f82ee5defb2fc, 0x78a5636f43172f60, 0x84c87814a1f0ab72, 0x8cc702081a6439ec],
     [0x90befffa23631e28, 0xa4506cebde82bde9, 0xbef9a3f7b2c67915, 0xc67178f2e372532b],
     [0xca273eceea26619c, 0xd186b8c721c0c207, 0xeada7dd6cde0eb1e, 0xf57d4f7fee6ed178],
     [0x06f067aa72176fba, 0x0a637dc5a2c898a6, 0x113f9804bef90dae, 0x1b710b35131c471b],
     [0x28db77f523047d84, 0x32caab7b40c72493, 0x3c9ebe0a15c9bebc, 0x431d67c49c100d4c],
     [0x4cc5d4becb3e42b6, 0x597f299cfc657e2a, 0x5fcb6fab3ad6faec, 0x6c44198c4a475817]]"

text \<open>The eight working variables a, \<open>\<dots>\<close>, h.\<close>

type_synonym vars = "u64 \<times> u64 \<times> u64 \<times> u64 \<times> u64 \<times> u64 \<times> u64 \<times> u64"

text \<open>One round, the macro \<open>F(w,k)\<close> of blocks.c.\<close>

fun sha512_round :: "vars \<Rightarrow> u64 \<Rightarrow> u64 \<Rightarrow> vars" where
  "sha512_round (a, b, c, d, e, f, g, h) w k =
     (let T1 = h + Sigma1 e + Ch e f g + k + w;
          T2 = Sigma0 a + Maj a b c
      in (T1 + T2, a, b, c, d + T1, e, f, g))"

fun vars_add :: "vars \<Rightarrow> vars \<Rightarrow> vars" where
  "vars_add (a, b, c, d, e, f, g, h) (a', b', c', d', e', f', g', h') =
     (a + a', b + b', c + c', d + d', e + e', f + f', g + g', h + h')"

text \<open>The message schedule of a block of 16 words, and the compression of a block.\<close>

fun schedule :: "u64 list \<Rightarrow> nat \<Rightarrow> u64" where
  "schedule m t =
     (if t < 16 then m ! t
      else sigma1 (schedule m (t - 2)) + schedule m (t - 7) + sigma0 (schedule m (t - 15)) +
        schedule m (t - 16))"

declare schedule.simps [simp del]

definition compress_spec :: "vars \<Rightarrow> u64 list \<Rightarrow> vars" where
  "compress_spec H m =
     vars_add (foldl (\<lambda>v t. sha512_round v (schedule m t) (sha512_K ! t)) H [0..<80]) H"

text \<open>Big-endian words and numbers.\<close>

fun be_bytes :: "nat \<Rightarrow> nat \<Rightarrow> u8 list" where
  "be_bytes 0 v = []"
| "be_bytes (Suc n) v = be_bytes n (v div 256) @ [of_nat v]"

definition be_word :: "u8 list \<Rightarrow> u64" where
  "be_word bs = foldl (\<lambda>w b. 256 * w + ucast b) 0 bs"

fun be_words :: "nat \<Rightarrow> u8 list \<Rightarrow> u64 list" where
  "be_words 0 bs = []"
| "be_words (Suc n) bs = be_word (take 8 bs) # be_words n (drop 8 bs)"

text \<open>
  The padding of FIPS 180-4, 5.1.2: a one bit, the fewest zero bits that leave 16 bytes of the
  last block, the length in bits.
\<close>

definition sha512_pad :: "u8 list \<Rightarrow> u8 list" where
  "sha512_pad m =
     m @ [0x80] @ replicate ((239 - length m mod 128) mod 128) 0 @ be_bytes 16 (8 * length m)"

function sha512_fold :: "vars \<Rightarrow> u8 list \<Rightarrow> vars" where
  "sha512_fold H bs =
     (if length bs < 128 then H
      else sha512_fold (compress_spec H (be_words 16 (take 128 bs))) (drop 128 bs))"
  by pat_completeness auto
termination by (relation "measure (\<lambda>(H, bs). length bs)") auto

declare sha512_fold.simps [simp del]

definition sha512_IV :: vars where
  "sha512_IV =
    (0x6a09e667f3bcc908, 0xbb67ae8584caa73b, 0x3c6ef372fe94f82b, 0xa54ff53a5f1d36f1,
     0x510e527fade682d1, 0x9b05688c2b3e6c1f, 0x1f83d9abfb41bd6b, 0x5be0cd19137e2179)"

fun vars_bytes :: "vars \<Rightarrow> u8 list" where
  "vars_bytes (a, b, c, d, e, f, g, h) =
     concat (map (\<lambda>w. be_bytes 8 (unat w)) [a, b, c, d, e, f, g, h])"

definition sha512_spec :: "u8 list \<Rightarrow> u8 list" where
  "sha512_spec m = vars_bytes (sha512_fold sha512_IV (sha512_pad m))"

section \<open>blocks.c\<close>

definition load_bigendian :: "u8 list \<Rightarrow> nat \<Rightarrow> u64" where
  "load_bigendian x k =
     (((((((ucast (x ! (k + 7)) OR push_bit 8 (ucast (x ! (k + 6)))) OR
      push_bit 16 (ucast (x ! (k + 5)))) OR push_bit 24 (ucast (x ! (k + 4)))) OR
      push_bit 32 (ucast (x ! (k + 3)))) OR push_bit 40 (ucast (x ! (k + 2)))) OR
      push_bit 48 (ucast (x ! (k + 1)))) OR push_bit 56 (ucast (x ! k)))"

definition store_bigendian :: "u64 \<Rightarrow> u8 list" where
  "store_bigendian u =
     (let x7 = ucast u; u = drop_bit 8 u;
          x6 = ucast u; u = drop_bit 8 u;
          x5 = ucast u; u = drop_bit 8 u;
          x4 = ucast u; u = drop_bit 8 u;
          x3 = ucast u; u = drop_bit 8 u;
          x2 = ucast u; u = drop_bit 8 u;
          x1 = ucast u; u = drop_bit 8 u;
          x0 = ucast u
      in [x0, x1, x2, x3, x4, x5, x6, x7])"

text \<open>\<open>M(w0,w14,w9,w1)\<close> updates one word of the 16-word window; \<open>EXPAND\<close> updates all 16.\<close>

definition sha512_M :: "u64 list \<Rightarrow> nat \<times> nat \<times> nat \<times> nat \<Rightarrow> u64 list" where
  "sha512_M w = (\<lambda>(i0, i14, i9, i1).
     w[i0 := sigma1 (w ! i14) + w ! i9 + sigma0 (w ! i1) + w ! i0])"

definition sha512_EXPAND :: "u64 list \<Rightarrow> u64 list" where
  "sha512_EXPAND w =
     foldl sha512_M w
    [(0, 14, 9, 1), (1, 15, 10, 2), (2, 0, 11, 3), (3, 1, 12, 4),
     (4, 2, 13, 5), (5, 3, 14, 6), (6, 4, 15, 7), (7, 5, 0, 8),
     (8, 6, 1, 9), (9, 7, 2, 10), (10, 8, 3, 11), (11, 9, 4, 12),
     (12, 10, 5, 13), (13, 11, 6, 14), (14, 12, 7, 15), (15, 13, 8, 0)]"

text \<open>Sixteen uses of \<open>F\<close> on w0, \<open>\<dots>\<close>, w15 with the constants from \<open>16 * j\<close> on.\<close>

definition sha512_F16 :: "nat \<Rightarrow> vars \<Rightarrow> u64 list \<Rightarrow> vars" where
  "sha512_F16 j v w =
     foldl (\<lambda>v i. sha512_round v (w ! i) (sha512_K ! (16 * j + i))) v [0..<16]"

definition sha512_block :: "vars \<Rightarrow> u8 list \<Rightarrow> vars" where
  "sha512_block state x =
     (let w = map (\<lambda>i. load_bigendian x (8 * i)) [0..<16];
          v = sha512_F16 0 state w;
          w = sha512_EXPAND w;
          v = sha512_F16 1 v w;
          w = sha512_EXPAND w;
          v = sha512_F16 2 v w;
          w = sha512_EXPAND w;
          v = sha512_F16 3 v w;
          w = sha512_EXPAND w;
          v = sha512_F16 4 v w
      in vars_add v state)"

function sha512_blocks_loop :: "vars \<Rightarrow> u8 list \<Rightarrow> vars" where
  "sha512_blocks_loop state x =
     (if 128 \<le> length x then sha512_blocks_loop (sha512_block state (take 128 x)) (drop 128 x)
      else state)"
  by pat_completeness auto
termination by (relation "measure (\<lambda>(s, x). length x)") auto

declare sha512_blocks_loop.simps [simp del]

fun vars_store :: "vars \<Rightarrow> u8 list" where
  "vars_store (a, b, c, d, e, f, g, h) =
     store_bigendian a @ store_bigendian b @ store_bigendian c @ store_bigendian d @
     store_bigendian e @ store_bigendian f @ store_bigendian g @ store_bigendian h"

definition crypto_hashblocks_sha512 :: "u8 list \<Rightarrow> u8 list \<Rightarrow> u8 list" where
  "crypto_hashblocks_sha512 statebytes x =
     (let state = (load_bigendian statebytes 0, load_bigendian statebytes 8,
            load_bigendian statebytes 16, load_bigendian statebytes 24,
            load_bigendian statebytes 32, load_bigendian statebytes 40,
            load_bigendian statebytes 48, load_bigendian statebytes 56)
      in vars_store (sha512_blocks_loop state x))"

section \<open>hash.c\<close>

definition sha512_iv :: "u8 list" where
  "sha512_iv =
    [0x6a, 0x09, 0xe6, 0x67, 0xf3, 0xbc, 0xc9, 0x08,
     0xbb, 0x67, 0xae, 0x85, 0x84, 0xca, 0xa7, 0x3b,
     0x3c, 0x6e, 0xf3, 0x72, 0xfe, 0x94, 0xf8, 0x2b,
     0xa5, 0x4f, 0xf5, 0x3a, 0x5f, 0x1d, 0x36, 0xf1,
     0x51, 0x0e, 0x52, 0x7f, 0xad, 0xe6, 0x82, 0xd1,
     0x9b, 0x05, 0x68, 0x8c, 0x2b, 0x3e, 0x6c, 0x1f,
     0x1f, 0x83, 0xd9, 0xab, 0xfb, 0x41, 0xbd, 0x6b,
     0x5b, 0xe0, 0xcd, 0x19, 0x13, 0x7e, 0x21, 0x79]"

text \<open>
  The nine bytes of the length in bits, from the 64-bit length in bytes. The C array
  \<open>padded\<close> has 256 bytes of which the branch with one block writes and reads 128.
\<close>

definition sha512_length_bytes :: "u64 \<Rightarrow> u8 list" where
  "sha512_length_bytes bytes =
    [ucast (drop_bit 61 bytes), ucast (drop_bit 53 bytes), ucast (drop_bit 45 bytes),
     ucast (drop_bit 37 bytes), ucast (drop_bit 29 bytes), ucast (drop_bit 21 bytes),
     ucast (drop_bit 13 bytes), ucast (drop_bit 5 bytes), ucast (push_bit 3 bytes)]"

definition crypto_hash_sha512 :: "u8 list \<Rightarrow> u8 list" where
  "crypto_hash_sha512 x =
     (let bytes = of_nat (length x) :: u64;
          h = crypto_hashblocks_sha512 sha512_iv x;
          inlen = unat (bytes AND 127);
          rest = drop (length x - inlen) x
      in if inlen < 112
         then crypto_hashblocks_sha512 h
           (rest @ [0x80] @ replicate (119 - (inlen + 1)) 0 @ sha512_length_bytes bytes)
         else crypto_hashblocks_sha512 h
           (rest @ [0x80] @ replicate (247 - (inlen + 1)) 0 @ sha512_length_bytes bytes))"

section \<open>The schedule in a window of 16 words\<close>

definition window :: "u64 list \<Rightarrow> nat \<Rightarrow> u64 list" where
  "window m j = map (\<lambda>i. schedule m (16 * j + i)) [0..<16]"

text \<open>The window when its first \<open>i\<close> words have been updated.\<close>

definition sliding :: "u64 list \<Rightarrow> nat \<Rightarrow> nat \<Rightarrow> u64 list" where
  "sliding m j i = map (\<lambda>k. schedule m (16 * j + (if k < i then k + 16 else k))) [0..<16]"

lemma schedule_step:
  "schedule m (t + 16) =
    sigma1 (schedule m (t + 14)) + schedule m (t + 9) + sigma0 (schedule m (t + 1)) + schedule m t"
  by (subst schedule.simps) (simp add: eval_nat_numeral)

lemma sliding_nth:
  assumes "i < 16" "d < 16"
  shows "sliding m j i ! ((i + d) mod 16) = schedule m (16 * j + i + d)"
proof (cases "i + d < 16")
  case True
  then show ?thesis by (simp add: sliding_def add.assoc)
next
  case False
  then have "(i + d) mod 16 = i + d - 16" "i + d - 16 < i" "i + d - 16 < 16"
    using assms by (simp_all add: mod_if)
  then show ?thesis using False by (simp add: sliding_def add.assoc)
qed

lemma sliding_M:
  assumes "i < 16"
  shows "sha512_M (sliding m j i) (i, (i + 14) mod 16, (i + 9) mod 16, (i + 1) mod 16) =
    sliding m j (Suc i)"
proof -
  have "sliding m j i ! i = schedule m (16 * j + i)"
    using sliding_nth [OF assms, of 0 m j] assms by simp
  then have "sha512_M (sliding m j i) (i, (i + 14) mod 16, (i + 9) mod 16, (i + 1) mod 16) =
      (sliding m j i)[i := schedule m (16 * j + i + 16)]"
    using sliding_nth [OF assms, of 14 m j] sliding_nth [OF assms, of 9 m j]
      sliding_nth [OF assms, of 1 m j]
    unfolding sha512_M_def schedule_step by simp
  also have "\<dots> = sliding m j (Suc i)"
    using assms by (intro nth_equalityI) (auto simp: sliding_def nth_list_update add.assoc)
  finally show ?thesis .
qed

lemma sliding_foldl:
  "n \<le> 16 \<Longrightarrow> foldl sha512_M (sliding m j 0)
    (map (\<lambda>i. (i, (i + 14) mod 16, (i + 9) mod 16, (i + 1) mod 16)) [0..<n]) = sliding m j n"
proof (induction n)
  case (Suc n)
  then show ?case using sliding_M [of n m j] by simp
qed simp

lemma EXPAND_window: "sha512_EXPAND (window m j) = window m (Suc j)"
proof -
  have "[(0, 14, 9, 1), (1, 15, 10, 2), (2, 0, 11, 3), (3, 1, 12, 4), (4, 2, 13, 5),
      (5, 3, 14, 6), (6, 4, 15, 7), (7, 5, 0, 8), (8, 6, 1, 9), (9, 7, 2, 10), (10, 8, 3, 11),
      (11, 9, 4, 12), (12, 10, 5, 13), (13, 11, 6, 14), (14, 12, 7, 15), (15, 13, 8, 0)] =
    map (\<lambda>i. (i, (i + 14) mod 16, (i + 9) mod 16, (i + 1) mod 16)) [0..<16 :: nat]"
    by code_simp
  moreover have "window m j = sliding m j 0" by (simp add: window_def sliding_def)
  moreover have "window m (Suc j) = sliding m j 16"
    by (simp add: window_def sliding_def ac_simps)
  ultimately show ?thesis using sliding_foldl [of 16 m j] by (simp add: sha512_EXPAND_def)
qed

lemma F16_window:
  "sha512_F16 j v (window m j) =
    foldl (\<lambda>v t. sha512_round v (schedule m t) (sha512_K ! t)) v [16 * j..<16 * j + 16]"
proof -
  have "[16 * j..<16 * j + 16] = map (\<lambda>i. 16 * j + i) [0..<16]"
    by (simp add: map_add_upt [symmetric] add.commute)
  then have "foldl (\<lambda>v t. sha512_round v (schedule m t) (sha512_K ! t)) v [16 * j..<16 * j + 16] =
      foldl (\<lambda>v i. sha512_round v (schedule m (16 * j + i)) (sha512_K ! (16 * j + i))) v [0..<16]"
    by (simp add: foldl_map)
  also have "\<dots> = sha512_F16 j v (window m j)"
    unfolding sha512_F16_def by (intro foldl_cong) (simp_all add: window_def)
  finally show ?thesis ..
qed

lemma window_0: "length m = 16 \<Longrightarrow> window m 0 = m"
  by (intro nth_equalityI) (simp_all add: window_def schedule.simps)

lemma sha512_block_words:
  "sha512_block state x = compress_spec state (map (\<lambda>i. load_bigendian x (8 * i)) [0..<16])"
proof -
  define m where "m = map (\<lambda>i. load_bigendian x (8 * i)) [0..<16]"
  define f where "f = (\<lambda>v t. sha512_round v (schedule m t) (sha512_K ! t))"
  have w: "m = window m 0" by (rule window_0 [symmetric]) (simp add: m_def)
  have F: "sha512_F16 j v (window m j) = foldl f v [16 * j..<16 * j + 16]" for j v
    unfolding f_def by (rule F16_window)
  have E: "sha512_EXPAND (window m 0) = window m 1" "sha512_EXPAND (window m 1) = window m 2"
    "sha512_EXPAND (window m 2) = window m 3" "sha512_EXPAND (window m 3) = window m 4"
    unfolding EXPAND_window by (simp_all add: eval_nat_numeral)
  have u: "[0..<80 :: nat] = [0..<16] @ [16..<32] @ [32..<48] @ [48..<64] @ [64..<80]"
    by code_simp
  have "sha512_block state x = vars_add (foldl f state [0..<80]) state"
    unfolding sha512_block_def Let_def m_def [symmetric]
    unfolding arg_cong [OF w, of "sha512_F16 0 state"] arg_cong [OF w, of sha512_EXPAND] E F u
    by simp
  then show ?thesis by (simp add: compress_spec_def m_def f_def)
qed

section \<open>Big-endian words\<close>

lemma length_be_bytes [simp]: "length (be_bytes n v) = n"
  by (induction n arbitrary: v) simp_all

lemma be_word_step:
  fixes b :: u8
  shows "256 * word_of_int x + ucast b = (word_of_int (256 * x + uint b) :: u64)"
  unfolding ucast_eq by simp

lemma be_word_8:
  "be_word [b0, b1, b2, b3, b4, b5, b6, b7] = word_of_int
    (uint b7 + 2 ^ 8 * uint b6 + 2 ^ 16 * uint b5 + 2 ^ 24 * uint b4 + 2 ^ 32 * uint b3 +
     2 ^ 40 * uint b2 + 2 ^ 48 * uint b1 + 2 ^ 56 * uint b0)"
proof -
  have z: "(0 :: u64) = word_of_int 0" by simp
  have e: "be_word [b0, b1, b2, b3, b4, b5, b6, b7] = word_of_int
      (256 * (256 * (256 * (256 * (256 * (256 * (256 * (256 * 0 + uint b0) + uint b1) + uint b2) +
       uint b3) + uint b4) + uint b5) + uint b6) + uint b7)"
    unfolding be_word_def foldl.simps z be_word_step by (rule refl)
  show ?thesis unfolding e by (rule arg_cong [where f = word_of_int]) simp
qed

lemma join_u64:
  assumes "0 \<le> x" "x < 2 ^ k"
  shows "(word_of_int x :: u64) OR push_bit k (word_of_int y) = word_of_int (x + 2 ^ k * y)"
  by (rule or_join [OF assms])

lemma load_bigendian_ints:
  "load_bigendian x k = word_of_int
    (uint (x ! (k + 7)) + 2 ^ 8 * uint (x ! (k + 6)) + 2 ^ 16 * uint (x ! (k + 5)) +
     2 ^ 24 * uint (x ! (k + 4)) + 2 ^ 32 * uint (x ! (k + 3)) + 2 ^ 40 * uint (x ! (k + 2)) +
     2 ^ 48 * uint (x ! (k + 1)) + 2 ^ 56 * uint (x ! k))"
proof -
  have b: "0 \<le> uint (x ! i)" "uint (x ! i) < 256" for i by (rule u8_bounds)+
  have c: "(ucast (y :: u8) :: u64) = word_of_int (uint y)" for y by (rule ucast_eq)
  note n = b [of "k + 7"] b [of "k + 6"] b [of "k + 5"] b [of "k + 4"] b [of "k + 3"]
    b [of "k + 2"] b [of "k + 1"]
  show ?thesis
    unfolding load_bigendian_def c
    by (subst join_u64, use n in simp, use n in simp)+ (rule refl)
qed

lemma take_8:
  assumes "k + 8 \<le> length x"
  shows "take 8 (drop k x) = [x ! k, x ! (k + 1), x ! (k + 2), x ! (k + 3), x ! (k + 4),
    x ! (k + 5), x ! (k + 6), x ! (k + 7)]"
  using assms by (intro nth_equalityI) (auto simp: less_Suc_eq numeral_eq_Suc)

lemma load_bigendian_word:
  "k + 8 \<le> length x \<Longrightarrow> load_bigendian x k = be_word (take 8 (drop k x))"
  unfolding take_8 be_word_8 by (rule load_bigendian_ints)

lemma be_words_loads:
  "8 * n \<le> length x \<Longrightarrow> be_words n x = map (\<lambda>i. load_bigendian x (8 * i)) [0..<n]"
proof (induction n arbitrary: x)
  case (Suc n)
  have "map (\<lambda>i. load_bigendian x (8 * i)) [0..<Suc n] =
      load_bigendian x 0 # map (\<lambda>i. load_bigendian x (8 * Suc i)) [0..<n]"
    by (simp add: upt_conv_Cons map_Suc_upt [symmetric] comp_def del: upt_Suc)
  also have "map (\<lambda>i. load_bigendian x (8 * Suc i)) [0..<n] =
      map (\<lambda>i. load_bigendian (drop 8 x) (8 * i)) [0..<n]"
    using Suc.prems by (intro map_cong refl) (simp add: load_bigendian_word add.commute)
  finally show ?case using Suc by (simp add: load_bigendian_word)
qed simp

lemma sha512_block_spec:
  "128 \<le> length x \<Longrightarrow> sha512_block state x = compress_spec state (be_words 16 x)"
  by (simp add: sha512_block_words be_words_loads)

lemma sha512_blocks_loop_spec: "sha512_blocks_loop state x = sha512_fold state x"
proof (induction state x rule: sha512_blocks_loop.induct)
  case (1 state x)
  then show ?case
    by (subst sha512_blocks_loop.simps, subst sha512_fold.simps) (simp add: sha512_block_spec)
qed

lemma unat_drop_bit_u64: "unat (drop_bit k (u :: u64)) = unat u div 2 ^ k"
proof -
  have "unat u < 2 ^ 64" using unsigned_less [of u] by simp
  then have "take_bit 64 (unat u) = unat u" by (rule take_bit_nat_eq_self)
  then show ?thesis by (subst unsigned_drop_bit_eq) (simp add: drop_bit_eq_div)
qed

lemma ucast_of_nat: "(ucast (u :: u64) :: u8) = of_nat (unat u)"
  by simp

lemma store_bigendian_bytes: "store_bigendian u = be_bytes 8 (unat u)"
proof -
  have n: "(8 :: nat) = Suc (Suc (Suc (Suc (Suc (Suc (Suc (Suc 0)))))))" by simp
  have p: "(2 :: nat) ^ 8 = 256" by simp
  show ?thesis
    unfolding store_bigendian_def Let_def ucast_of_nat unat_drop_bit_u64 p
    unfolding n be_bytes.simps by (simp only: div_mult2_eq [symmetric] append.simps)
qed

lemma vars_store_bytes: "vars_store v = vars_bytes v"
  by (cases v rule: vars_store.cases) (simp add: store_bigendian_bytes)

lemma length_vars_bytes [simp]: "length (vars_bytes v) = 64"
  by (cases v rule: vars_bytes.cases) simp

lemma be_word_be_bytes: "be_word (be_bytes n v) = of_nat (v mod 256 ^ n)"
proof (induction n arbitrary: v)
  case (Suc n)
  have "(ucast (of_nat v :: u8) :: u64) = of_nat (v mod 256)"
    by (simp add: unsigned_of_nat take_bit_eq_mod)
  then have "be_word (be_bytes (Suc n) v) =
      of_nat (256 * (v div 256 mod 256 ^ n) + v mod 256)"
    using Suc [of "v div 256"] by (simp add: be_word_def)
  also have "256 * (v div 256 mod 256 ^ n) + v mod 256 = v mod 256 ^ Suc n"
    by (simp add: mod_mult2_eq)
  finally show ?case .
qed (simp add: be_word_def)

lemma be_word_unat: "be_word (be_bytes 8 (unat w)) = w"
proof -
  have "unat w < 256 ^ 8" using unsigned_less [of w] by simp
  then show ?thesis by (simp only: be_word_be_bytes mod_less) simp
qed

lemma load_vars_bytes:
  "load_bigendian (vars_bytes (a, b, c, d, e, f, g, h)) 0 = a"
  "load_bigendian (vars_bytes (a, b, c, d, e, f, g, h)) 8 = b"
  "load_bigendian (vars_bytes (a, b, c, d, e, f, g, h)) 16 = c"
  "load_bigendian (vars_bytes (a, b, c, d, e, f, g, h)) 24 = d"
  "load_bigendian (vars_bytes (a, b, c, d, e, f, g, h)) 32 = e"
  "load_bigendian (vars_bytes (a, b, c, d, e, f, g, h)) 40 = f"
  "load_bigendian (vars_bytes (a, b, c, d, e, f, g, h)) 48 = g"
  "load_bigendian (vars_bytes (a, b, c, d, e, f, g, h)) 56 = h"
  by (simp_all add: load_bigendian_word be_word_unat)

lemma hashblocks_spec:
  "crypto_hashblocks_sha512 (vars_bytes H) x = vars_bytes (sha512_fold H x)"
  by (cases H rule: vars_bytes.cases)
    (simp add: crypto_hashblocks_sha512_def load_vars_bytes vars_store_bytes
      sha512_blocks_loop_spec del: vars_bytes.simps)

lemma sha512_iv_bytes: "sha512_iv = vars_bytes sha512_IV"
  unfolding vars_store_bytes [symmetric]
  by (simp add: sha512_iv_def sha512_IV_def store_bigendian_def)

section \<open>The padding\<close>

lemma sha512_fold_append:
  "128 dvd length x \<Longrightarrow> sha512_fold H (x @ y) = sha512_fold (sha512_fold H x) y"
proof (induction H x rule: sha512_fold.induct)
  case (1 H x)
  show ?case
  proof (cases "length x < 128")
    case True
    with "1.prems" have "x = []" by (auto simp: dvd_def)
    then show ?thesis by (simp add: sha512_fold.simps [of H "[]"])
  next
    case False
    with "1.prems" have "128 dvd length (drop 128 x)" by (simp add: dvd_diff_nat)
    from "1.IH" [OF False this] False show ?thesis
      by (subst sha512_fold.simps) (simp add: sha512_fold.simps [of H x])
  qed
qed

lemma sha512_fold_whole:
  assumes "r = length x mod 128"
  shows "sha512_fold H x = sha512_fold H (take (length x - r) x)"
proof -
  let ?n = "length x - r"
  have n: "128 dvd length (take ?n x)" using assms by (simp add: min_absorb2 dvd_minus_mod)
  have "length (drop ?n x) < 128" using assms by simp
  then have "sha512_fold (sha512_fold H (take ?n x)) (drop ?n x) = sha512_fold H (take ?n x)"
    by (simp add: sha512_fold.simps)
  then show ?thesis using sha512_fold_append [OF n, of H "drop ?n x"] by simp
qed

lemma be_bytes_small: "v < 256 ^ n \<Longrightarrow> be_bytes (k + n) v = replicate k 0 @ be_bytes n v"
proof (induction n arbitrary: v)
  case 0
  then show ?case by (induction k) (simp_all add: replicate_append_same)
next
  case (Suc n)
  then have "v div 256 < 256 ^ n" by (simp add: less_mult_imp_div_less mult.commute)
  with Suc.IH [of "v div 256"] show ?case by simp
qed

lemma sha512_length_bytes_spec:
  assumes "n < 2 ^ 64"
  shows "sha512_length_bytes (of_nat n) = be_bytes 9 (8 * n)"
proof -
  have u: "unat (of_nat n :: u64) = n" using assms by (simp add: unsigned_of_nat take_bit_nat_eq_self)
  have d: "(ucast (drop_bit k (of_nat n :: u64)) :: u8) = of_nat (n div 2 ^ k)" for k
    by (simp add: ucast_of_nat unat_drop_bit_u64 u del: of_nat_unat)
  have "(ucast (word_of_int (int (8 * n)) :: u64) :: u8) = word_of_int (int (8 * n))"
    by (rule ucast_down_wi) (simp add: is_down)
  then have p: "(ucast (push_bit 3 (of_nat n :: u64)) :: u8) = of_nat (8 * n)"
    by (simp add: push_bit_eq_mult mult.commute)
  have q: "8 * n div 256 = n div 2 ^ 5" by simp
  have n: "(9 :: nat) = Suc (Suc (Suc (Suc (Suc (Suc (Suc (Suc (Suc 0))))))))" by simp
  show ?thesis
    unfolding sha512_length_bytes_def d p unfolding n be_bytes.simps q
    by (simp add: div_mult2_eq [symmetric])
qed

lemma sha512_tail:
  assumes "length m < 2 ^ 64" "r = length m mod 128" "k = (if r < 112 then 119 else 247) - (r + 1)"
  shows "sha512_pad m =
    m @ [0x80] @ replicate k 0 @ sha512_length_bytes (of_nat (length m))"
proof -
  have r: "r < 128" using assms by simp
  have "(239 - length m mod 128) mod 128 + 7 = k"
    using r unfolding assms(2) [symmetric] assms(3) by (auto simp: mod_if)
  then have "replicate k 0 = replicate ((239 - length m mod 128) mod 128) 0 @ replicate 7 (0 :: u8)"
    by (simp only: replicate_add [symmetric])
  moreover have "be_bytes (7 + 9) (8 * length m) = replicate 7 0 @ be_bytes 9 (8 * length m)"
    using assms(1) by (intro be_bytes_small) simp
  ultimately show ?thesis
    using assms(1) by (simp add: sha512_pad_def sha512_length_bytes_spec)
qed

lemma and_127: "unat ((of_nat n :: u64) AND 127) = n mod 128"
proof -
  have "(of_nat n :: u64) AND 127 = take_bit 7 (of_nat n)"
    by (simp add: take_bit_eq_mask mask_eq_exp_minus_1)
  then have "unat ((of_nat n :: u64) AND 127) = take_bit 7 (unat (of_nat n :: u64))"
    by (simp only: unsigned_take_bit_eq)
  then show ?thesis by (simp add: unsigned_of_nat take_bit_eq_mod mod_mod_cancel)
qed

lemma crypto_hash_sha512_correct:
  assumes "length m < 2 ^ 64"
  shows "crypto_hash_sha512 m = sha512_spec m"
proof -
  define r where "r = length m mod 128"
  define k where "k = (if r < 112 then 119 else 247) - (r + 1)"
  let ?t = "[0x80] @ replicate k 0 @ sha512_length_bytes (of_nat (length m))"
  let ?w = "take (length m - r) m" and ?rest = "drop (length m - r) m"
  have "crypto_hash_sha512 m = crypto_hashblocks_sha512 (crypto_hashblocks_sha512 sha512_iv m) (?rest @ ?t)"
    unfolding crypto_hash_sha512_def Let_def and_127 r_def [symmetric] k_def by simp
  also have "\<dots> = vars_bytes (sha512_fold (sha512_fold sha512_IV ?w) (?rest @ ?t))"
    unfolding sha512_iv_bytes hashblocks_spec using sha512_fold_whole [OF r_def] by simp
  also have "\<dots> = vars_bytes (sha512_fold sha512_IV (?w @ ?rest @ ?t))"
    by (subst sha512_fold_append) (simp_all add: r_def min_absorb2 dvd_minus_mod)
  also have "?w @ ?rest @ ?t = sha512_pad m"
    using sha512_tail [OF assms r_def k_def] by (simp flip: append_assoc)
  finally show ?thesis by (simp add: sha512_spec_def)
qed

end
