(* ===== verification/Clamp.thy ===== *)
theory Clamp
  imports Crypto_Prelude
begin

text \<open>
  Clamped scalars: both the signature code and the key agreement set bit 254 of a 32-byte
  secret and clear the bits above it and the three lowest ones, with byte masks.
\<close>

section \<open>Clamped scalars\<close>

text \<open>Bit 254 set, the bits above and the three lowest ones cleared.\<close>

definition clamp :: "int \<Rightarrow> int" where
  "clamp v = 2 ^ 254 + 8 * (v mod 2 ^ 254 div 8)"

lemma byte_bits: "(n :: nat) < LENGTH(8) \<Longrightarrow> n \<in> {0, 1, 2, 3, 4, 5, 6, 7}"
  by auto

lemma byte_masks:
  fixes b :: u8
  shows "b AND 248 = push_bit 3 (drop_bit 3 b)" "b AND 128 = push_bit 7 (drop_bit 7 b)"
    "b AND 224 = push_bit 5 (drop_bit 5 b)" "(b AND 127) OR 64 = (b AND 63) OR 64"
  by (rule bit_word_eqI, drule byte_bits, auto simp: bit_simps)+

lemma uint_low_bits:
  fixes b :: u8
  shows "uint (b AND 63) = uint b mod 64" "uint (b AND 127) = uint b mod 128"
proof -
  have "b AND 63 = take_bit 6 b" "b AND 127 = take_bit 7 b"
    by (simp_all add: take_bit_eq_mask mask_eq_exp_minus_1)
  then have "uint (b AND 63) = take_bit 6 (uint b)" "uint (b AND 127) = take_bit 7 (uint b)"
    by (simp_all only: unsigned_take_bit_eq)
  then show "uint (b AND 63) = uint b mod 64" "uint (b AND 127) = uint b mod 128"
    by (simp_all add: take_bit_eq_mod)
qed

lemma uint_high_bits: "uint (drop_bit k (b :: u8)) = uint b div 2 ^ k"
proof -
  have "take_bit 8 (uint b) = uint b" using uint_lt2p [of b] by (simp add: take_bit_int_eq_self)
  then show ?thesis by (subst unsigned_drop_bit_eq) (simp add: drop_bit_eq_div)
qed

lemma uint_push_byte: "uint b * 2 ^ k < 256 \<Longrightarrow> uint (push_bit k (b :: u8)) = uint b * 2 ^ k"
  using unsigned_push_bit_eq [of k b, where 'a = int]
  by (simp add: push_bit_eq_mult take_bit_int_eq_self)

lemma uint_join_byte:
  assumes "uint (a :: u8) < 2 ^ k" "uint a + uint b * 2 ^ k < 256"
  shows "uint (a OR push_bit k b) = uint a + uint b * 2 ^ k"
proof -
  have "uint b * 2 ^ k < 256" using assms(2) uint_ge_0 [of a] by linarith
  then have "uint (push_bit k b) = uint b * 2 ^ k" by (rule uint_push_byte)
  moreover have "a OR push_bit k b = a + push_bit k b" using assms(1) by (rule or_shift_add)
  ultimately show ?thesis using assms(2) by (simp add: uint_plus_if')
qed

lemma clamp_byte:
  fixes b :: u8
  shows "uint (b AND 248) = uint b div 8 * 8" "uint ((b AND 63) OR 64) = uint b mod 64 + 64"
    "uint ((b AND 127) OR 64) = uint b mod 64 + 64"
proof -
  note b = u8_bounds [of b]
  show "uint (b AND 248) = uint b div 8 * 8"
    unfolding byte_masks using b by (subst uint_push_byte) (simp_all add: uint_high_bits)
  have e: "(64 :: u8) = push_bit 6 1" by simp
  have "uint ((b AND 63) OR push_bit 6 1) = uint (b AND 63) + uint (1 :: u8) * 2 ^ 6"
    using uint_low_bits(1) [of b] pos_mod_bound [of 64 "uint b"] by (intro uint_join_byte) simp_all
  then show "uint ((b AND 63) OR 64) = uint b mod 64 + 64"
    unfolding e [symmetric] uint_low_bits by simp
  then show "uint ((b AND 127) OR 64) = uint b mod 64 + 64" unfolding byte_masks .
qed

lemma bytes_32:
  assumes "length s = 32"
  obtains b bs t where "s = b # bs @ [t]" "length bs = 30"
    "le_value s = uint b + 256 * le_value bs + 2 ^ 248 * uint t"
proof -
  obtain b r where s: "s = b # r" "length r = 31"
    using assms by (cases s) auto
  obtain bs t where r: "r = bs @ [t]" "length bs = 30"
    using s(2) by (cases r rule: rev_cases) auto
  have "le_value s = uint b + 256 * le_value bs + 2 ^ 248 * uint t"
    unfolding s r by (simp add: le_value_append r(2))
  with that s(1) r show ?thesis by simp
qed

lemma clamp_value:
  assumes s: "length s = 32"
    and lo: "\<And>b. uint (f b) = uint b div 8 * 8" and hi: "\<And>b. uint (g b) = uint b mod 64 + 64"
  shows "le_value (s[0 := f (s ! 0), 31 := g (s ! 31)]) = clamp (le_value s)"
proof -
  obtain b bs t where e: "s = b # bs @ [t]" "length bs = 30"
    and v: "le_value s = uint b + 256 * le_value bs + 2 ^ 248 * uint t"
    using bytes_32 [OF s] .
  have m: "le_value bs < 2 ^ 240" using le_value_bound [of bs] e(2) by simp
  have n: "0 \<le> le_value bs" by simp
  note b = u8_bounds [of b]
  have top: "x = q * 64 + r \<Longrightarrow> B + 2 ^ 248 * x = B + 2 ^ 248 * r + q * 2 ^ 254" for x q r B :: int
    by simp
  have "le_value s mod 2 ^ 254 = uint b + 256 * le_value bs + 2 ^ 248 * (uint t mod 64)"
  proof -
    have "le_value s = uint b + 256 * le_value bs + 2 ^ 248 * (uint t mod 64) + uint t div 64 * 2 ^ 254"
      unfolding v using top [OF div_mult_mod_eq [of "uint t" 64, symmetric]] .
    moreover have "0 \<le> uint t mod 64" "uint t mod 64 < 64" by simp_all
    ultimately show ?thesis using b m n by (simp add: mod_pos_pos_trivial)
  qed
  also have "\<dots> div 8 = uint b div 8 + 32 * le_value bs + 2 ^ 245 * (uint t mod 64)"
  proof -
    have "uint b + 256 * le_value bs + 2 ^ 248 * (uint t mod 64) =
        uint b + (32 * le_value bs + 2 ^ 245 * (uint t mod 64)) * 8" by simp
    then show ?thesis by (simp only: div_mult_self1 [of 8 "uint b"])
  qed
  finally have c: "clamp (le_value s) =
      2 ^ 254 + 8 * (uint b div 8 + 32 * le_value bs + 2 ^ 245 * (uint t mod 64))"
    by (simp add: clamp_def)
  have "s[0 := f (s ! 0), 31 := g (s ! 31)] = f b # bs @ [g t]"
    using e by (simp add: nth_append list_update_append)
  then have "le_value (s[0 := f (s ! 0), 31 := g (s ! 31)]) =
      uint (f b) + 256 * le_value bs + 2 ^ 248 * uint (g t)"
    by (simp add: le_value_append e(2))
  then show ?thesis unfolding c lo hi by simp
qed

end
