(* ===== verification/Ed25519_Sign.thy ===== *)
theory Ed25519_Sign
  imports Ge_Base Sc Sha512 Clamp
begin

text \<open>
  The signature functions: sign.c, open.c, additions/sign_modified.c, additions/curve_sigs.c and
  additions/zeroize.c. A C buffer is a byte list; a function that writes through a pointer takes
  the old contents of the buffer and returns the new ones, statement by statement.
\<close>

section \<open>Buffers\<close>

text \<open>\<open>memmove(buf + off, src, n)\<close> with \<open>n = length src\<close>.\<close>

definition memmove_at :: "u8 list \<Rightarrow> nat \<Rightarrow> u8 list \<Rightarrow> u8 list" where
  "memmove_at buf off src = take off buf @ src @ drop (off + length src) buf"

definition subbuf :: "u8 list \<Rightarrow> nat \<Rightarrow> nat \<Rightarrow> u8 list" where
  "subbuf buf off n = take n (drop off buf)"

text \<open>zeroize.c: the loop writes every byte of the buffer.\<close>

definition zeroize :: "u8 list \<Rightarrow> nat \<Rightarrow> u8 list" where
  "zeroize b n = foldl (\<lambda>p count. p[count := 0]) b [0..<n]"

section \<open>sign.c\<close>

text \<open>
  \<open>crypto_sign\<close> takes the old contents of \<open>sm\<close> (at least \<open>mlen + 64\<close> bytes) and returns its
  new contents, \<open>*smlen\<close> and 0.
\<close>

definition crypto_sign :: "u8 list \<Rightarrow> u8 list \<Rightarrow> u8 list \<Rightarrow> i32 \<times> u8 list \<times> nat" where
  "crypto_sign sm m sk =
     (let mlen = length m;
          pk = subbuf sk 32 32;
          az = crypto_hash_sha512 (take 32 sk);
          az = az[0 := az ! 0 AND 248];
          az = az[31 := az ! 31 AND 63];
          az = az[31 := az ! 31 OR 64];
          smlen = mlen + 64;
          sm = memmove_at sm 64 m;
          sm = memmove_at sm 32 (subbuf az 32 32);
          nonce = crypto_hash_sha512 (subbuf sm 32 (mlen + 32));
          sm = memmove_at sm 32 pk;
          nonce = sc_reduce nonce;
          R = ge_scalarmult_base (take 32 nonce);
          sm = memmove_at sm 0 (ge_p3_tobytes R);
          hram = crypto_hash_sha512 (take (mlen + 64) sm);
          hram = sc_reduce hram;
          sm = memmove_at sm 32 (sc_muladd (take 32 hram) (take 32 az) (take 32 nonce))
      in (0, sm, smlen))"

section \<open>open.c\<close>

text \<open>
  \<open>crypto_sign_open\<close> returns the result, the new contents of \<open>m\<close> and \<open>*mlen\<close>, which is -1
  as an unsigned 64-bit number after \<open>badsig\<close>. \<open>A\<close> is uninitialised in C and only read after
  the decoding has written it.
\<close>

definition badsig :: "u8 list \<Rightarrow> nat \<Rightarrow> i32 \<times> u8 list \<times> u64" where
  "badsig m smlen = (- 1, memmove_at m 0 (replicate smlen 0), - 1)"

definition crypto_sign_open :: "u8 list \<Rightarrow> u8 list \<Rightarrow> u8 list \<Rightarrow> i32 \<times> u8 list \<times> u64" where
  "crypto_sign_open m sm pk =
     (let smlen = length sm in
      if smlen < 64 then badsig m smlen
      else if sm ! 63 AND 224 \<noteq> 0 then badsig m smlen
      else
        (case ge_frombytes_negate_vartime ge_p3_0 pk of (r, A) \<Rightarrow>
         if r \<noteq> 0 then badsig m smlen
         else
           (let pkcopy = pk;
                rcopy = take 32 sm;
                scopy = subbuf sm 32 32;
                m = memmove_at m 0 sm;
                m = memmove_at m 32 pkcopy;
                h = crypto_hash_sha512 (take smlen m);
                h = sc_reduce h;
                R = ge_double_scalarmult_vartime (take 32 h) A scopy;
                rcheck = ge_tobytes R
            in if crypto_verify_32 rcheck rcopy = 0
               then (let m = memmove_at m 0 (subbuf m 64 (smlen - 64));
                         m = memmove_at m (smlen - 64) (replicate 64 0)
                     in (0, m, of_nat (smlen - 64)))
               else badsig m smlen)))"

section \<open>sign_modified.c\<close>

text \<open>The buffer \<open>sm\<close> has at least \<open>mlen + 128\<close> bytes.\<close>

definition crypto_sign_modified ::
  "u8 list \<Rightarrow> u8 list \<Rightarrow> u8 list \<Rightarrow> u8 list \<Rightarrow> u8 list \<Rightarrow> i32 \<times> u8 list" where
  "crypto_sign_modified sm m sk pk random =
     (let mlen = length m;
          sm = memmove_at sm 64 m;
          sm = memmove_at sm 32 (take 32 sk);
          sm = sm[0 := 0xFE];
          sm = foldl (\<lambda>sm count. sm[count := 0xFF]) sm [1..<32];
          sm = memmove_at sm (mlen + 64) (take 64 random);
          nonce = crypto_hash_sha512 (take (mlen + 128) sm);
          sm = memmove_at sm 32 (take 32 pk);
          nonce = sc_reduce nonce;
          R = ge_scalarmult_base (take 32 nonce);
          sm = memmove_at sm 0 (ge_p3_tobytes R);
          hram = crypto_hash_sha512 (take (mlen + 64) sm);
          hram = sc_reduce hram;
          sm = memmove_at sm 32 (sc_muladd (take 32 hram) (take 32 sk) (take 32 nonce))
      in (0, sm))"

section \<open>curve_sigs.c\<close>

definition curve25519_keygen :: "u8 list \<Rightarrow> u8 list" where
  "curve25519_keygen privkey =
     (let ed = ge_scalarmult_base privkey;
          ed_y_plus_one = fe_add (p3_Y ed) (p3_Z ed);
          one_minus_ed_y = fe_sub (p3_Z ed) (p3_Y ed);
          inv_one_minus_ed_y = fe_invert one_minus_ed_y;
          mont_x = fe_mul ed_y_plus_one inv_one_minus_ed_y
      in fe_tobytes mont_x)"

text \<open>
  \<open>sigbuf\<close> is the contents of the allocated buffer, \<open>None\<close> when \<open>malloc\<close> fails; the result
  is the return value and the 64 bytes of \<open>signature_out\<close>.
\<close>

definition curve25519_sign ::
  "u8 list option \<Rightarrow> u8 list \<Rightarrow> u8 list \<Rightarrow> u8 list \<Rightarrow> i32 \<times> u8 list" where
  "curve25519_sign sigbuf privkey msg random =
     (case sigbuf of
        None \<Rightarrow> (- 1, replicate 64 0)
      | Some sigbuf \<Rightarrow>
          (let ed_pubkey_point = ge_scalarmult_base privkey;
               ed_pubkey = ge_p3_tobytes ed_pubkey_point;
               sign_bit = ed_pubkey ! 31 AND 0x80;
               sigbuf = snd (crypto_sign_modified sigbuf msg privkey ed_pubkey random);
               signature = take 64 sigbuf;
               signature = signature[63 := signature ! 63 AND 0x7F];
               signature = signature[63 := signature ! 63 OR sign_bit]
           in (0, signature)))"

text \<open>The Edwards public key that a Montgomery public key and a sign bit stand for.\<close>

definition mont_to_ed :: "u8 list \<Rightarrow> u8 \<Rightarrow> u8 list" where
  "mont_to_ed pubkey sign_byte =
     (let mont_x = fe_frombytes pubkey;
          mont_x_minus_one = fe_sub mont_x fe_1;
          mont_x_plus_one = fe_add mont_x fe_1;
          inv_mont_x_plus_one = fe_invert mont_x_plus_one;
          ed_y = fe_mul mont_x_minus_one inv_mont_x_plus_one;
          ed_pubkey = fe_tobytes ed_y;
          ed_pubkey = ed_pubkey[31 := ed_pubkey ! 31 AND 0x7F];
          ed_pubkey = ed_pubkey[31 := ed_pubkey ! 31 OR (sign_byte AND 0x80)]
      in ed_pubkey)"

definition curve25519_verify ::
  "u8 list option \<Rightarrow> u8 list option \<Rightarrow> u8 list \<Rightarrow> u8 list \<Rightarrow> u8 list \<Rightarrow> i32" where
  "curve25519_verify verifybuf verifybuf2 signature pubkey msg =
     (case verifybuf of
        None \<Rightarrow> - 1
      | Some verifybuf \<Rightarrow>
         (case verifybuf2 of
            None \<Rightarrow> - 1
          | Some verifybuf2 \<Rightarrow>
             (let ed_pubkey = mont_to_ed pubkey (signature ! 63);
                  verifybuf = memmove_at verifybuf 0 (take 64 signature);
                  verifybuf = verifybuf[63 := verifybuf ! 63 AND 0x7F];
                  verifybuf = memmove_at verifybuf 64 msg
              in fst (crypto_sign_open verifybuf2 (take (64 + length msg) verifybuf) ed_pubkey))))"

section \<open>The algorithm\<close>

text \<open>The scalar a hash stands for.\<close>

definition hash_scalar :: "u8 list \<Rightarrow> int" where
  "hash_scalar m = le_value (sha512_spec m) mod sc_l"

text \<open>
  The signature of \<open>m\<close> by the scalar \<open>a\<close> with the nonce \<open>r\<close> under the encoded key \<open>pk\<close>:
  R = r B and S = r + H(R, pk, m) a modulo l, 32 bytes each.
\<close>

definition ed_signature :: "int \<Rightarrow> int \<Rightarrow> u8 list \<Rightarrow> u8 list \<Rightarrow> u8 list" where
  "ed_signature a r pk m =
     (let R = ge_p3_tobytes (ge_scalarmult_base (le_bytes 32 r));
          S = (hash_scalar (R @ pk @ m) * a + r) mod sc_l
      in R @ le_bytes 32 S)"

text \<open>What the verifier recomputes: h A' + s B for the negated key A'.\<close>

definition ed_check :: "ge_p3 \<Rightarrow> u8 list \<Rightarrow> u8 list \<Rightarrow> u8 list \<Rightarrow> u8 list \<Rightarrow> bool" where
  "ed_check A' R S pk m \<longleftrightarrow>
     ge_tobytes (ge_double_scalarmult_vartime (le_bytes 32 (hash_scalar (R @ pk @ m))) A' S) = R"

section \<open>Buffers as concatenations\<close>

lemma sc_l_bound: "0 \<le> x mod sc_l" "x mod sc_l < 256 ^ 32" "x mod sc_l < 2 ^ 255"
  using pos_mod_sign [OF sc_l_pos, of x] pos_mod_bound [OF sc_l_pos, of x]
  by (simp_all add: sc_l_def)

lemma le_value_scalar: "le_value (le_bytes 32 (x mod sc_l)) = x mod sc_l"
  using sc_l_bound [of x] by (simp add: le_value_le_bytes mod_pos_pos_trivial)

lemma sc_reduce_bytes: "length h = 64 \<Longrightarrow> take 32 (sc_reduce h) = le_bytes 32 (le_value h mod sc_l)"
  by (intro le_value_inj) (simp_all add: sc_reduce_correct le_value_scalar)

lemma sc_muladd_bytes:
  assumes "length a = 32" "length b = 32" "length c = 32"
  shows "sc_muladd a b c = le_bytes 32 ((le_value a * le_value b + le_value c) mod sc_l)"
  using assms by (intro le_value_inj) (simp_all add: sc_muladd_correct le_value_scalar)

lemma sha512_scalar:
  "length m < 2 ^ 64 \<Longrightarrow>
    take 32 (sc_reduce (crypto_hash_sha512 m)) = le_bytes 32 (hash_scalar m)"
  by (simp add: crypto_hash_sha512_correct hash_scalar_def sc_reduce_bytes sha512_spec_def)

lemma length_crypto_hash [simp, len_simps]:
  "length m < 2 ^ 64 \<Longrightarrow> length (crypto_hash_sha512 m) = 64"
  by (simp add: crypto_hash_sha512_correct sha512_spec_def)

lemma memmove_segment:
  "length a = off \<Longrightarrow> length b = length src \<Longrightarrow> memmove_at (a @ b @ c) off src = a @ src @ c"
  by (simp add: memmove_at_def)

lemma memmove_first: "length b = length src \<Longrightarrow> memmove_at (b @ c) 0 src = src @ c"
  by (simp add: memmove_at_def)

lemma length_memmove_at [simp]:
  "off + length src \<le> length buf \<Longrightarrow> length (memmove_at buf off src) = length buf"
  by (simp add: memmove_at_def)

lemma foldl_set_range:
  "a \<le> b \<Longrightarrow> b \<le> length s \<Longrightarrow>
    foldl (\<lambda>s i. s[i := c]) s [a..<b] = take a s @ replicate (b - a) c @ drop b s"
proof (induction b)
  case (Suc b)
  show ?case
  proof (cases "a \<le> b")
    case True
    have "(take a s @ replicate (b - a) c @ drop b s)[b := c] =
        take a s @ replicate (b - a) c @ (drop b s)[0 := c]"
      using True Suc.prems by (simp add: list_update_append min_absorb2)
    also have "(drop b s)[0 := c] = c # drop (Suc b) s"
      using Suc.prems by (simp flip: Cons_nth_drop_Suc)
    finally show ?thesis
      using Suc True by (simp add: Suc_diff_le replicate_app_Cons_same)
  next
    case False
    with Suc.prems show ?thesis by (simp add: le_Suc_eq)
  qed
qed simp

lemma zeroize_replicate: "n \<le> length b \<Longrightarrow> zeroize b n = replicate n 0 @ drop n b"
  unfolding zeroize_def using foldl_set_range [of 0 n b 0] by simp

lemma split_segments:
  assumes "k + l + m + n \<le> length s"
  obtains a b c d z where "s = a @ b @ c @ d @ z"
    "length a = k" "length b = l" "length c = m" "length d = n"
proof
  let ?b = "drop k s" and ?c = "drop (k + l) s" and ?d = "drop (k + l + m) s"
  show "s = take k s @ take l ?b @ take m ?c @ take n ?d @ drop (k + l + m + n) s"
    by (metis append_take_drop_id drop_drop add.commute)
qed (use assms in simp_all)

lemma length_ge_tobytes [simp, len_simps]:
  "length (ge_p3_tobytes R) = 32" "length (ge_tobytes R') = 32"
  by (simp_all add: ge_p3_tobytes_def ge_tobytes_def Let_def fe_tobytes_def fe_store_bytes_def)

section \<open>The signing functions\<close>

lemma crypto_sign_modified_layout:
  assumes sm: "length m + 128 \<le> length sm" and m: "length m + 128 < 2 ^ 64"
    and sk: "length sk = 32" and pk: "length pk = 32" and rnd: "length random = 64"
  shows "take (length m + 64) (snd (crypto_sign_modified sm m sk pk random)) =
    ed_signature (le_value sk)
      (hash_scalar ((0xFE # replicate 31 0xFF) @ sk @ m @ random)) pk m @ m"
proof -
  define pre where "pre = (0xFE # replicate 31 0xFF :: u8 list)"
  have lp: "length pre = 32" by (simp add: pre_def)
  obtain x0 x1 x2 x3 z where s: "sm = x0 @ x1 @ x2 @ x3 @ z" and l: "length x0 = 32"
    "length x1 = 32" "length x2 = length m" "length x3 = 64"
    using sm by (rule_tac split_segments [of 32 32 "length m" 64 sm]) simp_all
  have s1: "memmove_at sm 64 m = x0 @ x1 @ m @ x3 @ z"
    using memmove_segment [of "x0 @ x1" 64 x2 m "x3 @ z"] l by (simp add: s)
  have s2: "memmove_at (x0 @ x1 @ m @ x3 @ z) 32 (take 32 sk) = x0 @ sk @ m @ x3 @ z"
    using memmove_segment [of x0 32 x1 sk "m @ x3 @ z"] l sk by simp
  have s3: "foldl (\<lambda>sm count. sm[count := 0xFF]) ((x0 @ sk @ m @ x3 @ z)[0 := 0xFE]) [1..<32] =
      pre @ sk @ m @ x3 @ z"
  proof -
    obtain b bs where x0: "x0 = b # bs" "length bs = 31"
      using l(1) length_Suc_obtain [of x0 31] by (metis eval_nat_numeral(2) numeral_eq_Suc
        pred_numeral_simps(2) semiring_norm(26,27,28))
    then show ?thesis by (simp add: foldl_set_range pre_def)
  qed
  have s4: "memmove_at (pre @ sk @ m @ x3 @ z) (length m + 64) (take 64 random) =
      pre @ sk @ m @ random @ z"
    using memmove_segment [of "pre @ sk @ m" "length m + 64" x3 random z] l sk rnd lp
    by simp
  let ?r = "hash_scalar (pre @ sk @ m @ random)"
  let ?R = "ge_p3_tobytes (ge_scalarmult_base (le_bytes 32 ?r))"
  have n: "take 32 (sc_reduce (crypto_hash_sha512 (take (length m + 128)
      (pre @ sk @ m @ random @ z)))) = le_bytes 32 ?r"
    using m sk rnd lp by (simp add: sha512_scalar)
  have s5: "memmove_at (pre @ sk @ m @ random @ z) 32 (take 32 pk) = pre @ pk @ m @ random @ z"
    using memmove_segment [of pre 32 sk pk "m @ random @ z"] sk pk lp by simp
  have s6: "memmove_at (pre @ pk @ m @ random @ z) 0 ?R = ?R @ pk @ m @ random @ z"
    by (rule memmove_first) (simp add: lp)
  have h: "take 32 (sc_reduce (crypto_hash_sha512 (take (length m + 64)
      (?R @ pk @ m @ random @ z)))) = le_bytes 32 (hash_scalar (?R @ pk @ m))"
    using m pk by (simp add: sha512_scalar)
  let ?S = "sc_muladd (le_bytes 32 (hash_scalar (?R @ pk @ m))) sk (le_bytes 32 ?r)"
  have S: "?S = le_bytes 32 ((hash_scalar (?R @ pk @ m) * le_value sk + ?r) mod sc_l)"
    using sk unfolding hash_scalar_def by (subst sc_muladd_bytes) (simp_all add: le_value_scalar)
  have s7: "memmove_at (?R @ pk @ m @ random @ z) 32 ?S = ?R @ ?S @ m @ random @ z"
    using memmove_segment [of ?R 32 pk ?S "m @ random @ z"] pk by simp
  have "snd (crypto_sign_modified sm m sk pk random) = ?R @ ?S @ m @ random @ z"
    unfolding crypto_sign_modified_def Let_def s1 s2 s3 s4 n s5 s6 h
    using sk s7 by simp
  then show ?thesis unfolding S by (simp add: ed_signature_def Let_def pre_def)
qed

section \<open>The layout of the signed message\<close>

lemma crypto_sign_layout:
  assumes sm: "length m + 64 \<le> length sm" and m: "length m + 64 < 2 ^ 64" and sk: "length sk = 64"
  defines "az \<equiv> sha512_spec (take 32 sk)"
  shows "take (length m + 64) (fst (snd (crypto_sign sm m sk))) =
    ed_signature (clamp (le_value (take 32 az))) (hash_scalar (drop 32 az @ m)) (drop 32 sk) m @ m"
proof -
  obtain x0 x1 x2 x3 z where s': "sm = x0 @ x1 @ x2 @ x3 @ z" and l: "length x0 = 32"
    "length x1 = 32" "length x2 = length m" and x3: "length x3 = 0"
    using sm by (rule_tac split_segments [of 32 32 "length m" 0 sm]) simp_all
  have s: "sm = x0 @ x1 @ x2 @ z" using s' x3 by simp
  let ?pk = "drop 32 sk"
  have az: "crypto_hash_sha512 (take 32 sk) = az" "length az = 64"
    using sk by (simp_all add: az_def crypto_hash_sha512_correct sha512_spec_def)
  define a where "a = az[0 := az ! 0 AND 248, 31 := (az ! 31 AND 63) OR 64]"
  have a: "az[0 := az ! 0 AND 248, 31 := az[0 := az ! 0 AND 248] ! 31 AND 63,
      31 := az[0 := az ! 0 AND 248, 31 := az[0 := az ! 0 AND 248] ! 31 AND 63] ! 31 OR 64] = a"
    using az(2) by (simp add: a_def)
  have la: "length a = 64" "drop 32 a = drop 32 az" using az(2) by (simp_all add: a_def)
  have lv: "le_value (take 32 a) = clamp (le_value (take 32 az))"
    using clamp_value [of "take 32 az" "\<lambda>b. b AND 248" "\<lambda>b. (b AND 63) OR 64"] clamp_byte az(2)
    by (simp add: a_def take_update_swap)
  have p: "subbuf sk 32 32 = ?pk" using sk by (simp add: subbuf_def)
  have aa: "subbuf a 32 32 = drop 32 az" using la az(2) by (simp add: subbuf_def)
  have s1: "memmove_at sm 64 m = x0 @ x1 @ m @ z"
    using memmove_segment [of "x0 @ x1" 64 x2 m z] l by (simp add: s)
  have s2: "memmove_at (x0 @ x1 @ m @ z) 32 (drop 32 az) = x0 @ drop 32 az @ m @ z"
    using memmove_segment [of x0 32 x1 "drop 32 az" "m @ z"] l az(2) by simp
  let ?r = "hash_scalar (drop 32 az @ m)"
  let ?R = "ge_p3_tobytes (ge_scalarmult_base (le_bytes 32 ?r))"
  have n: "take 32 (sc_reduce (crypto_hash_sha512 (subbuf (x0 @ drop 32 az @ m @ z) 32
      (length m + 32)))) = le_bytes 32 ?r"
    using m l az(2) by (simp add: sha512_scalar subbuf_def)
  have s3: "memmove_at (x0 @ drop 32 az @ m @ z) 32 ?pk = x0 @ ?pk @ m @ z"
    using memmove_segment [of x0 32 "drop 32 az" ?pk "m @ z"] l az(2) sk by simp
  have s4: "memmove_at (x0 @ ?pk @ m @ z) 0 ?R = ?R @ ?pk @ m @ z"
    by (rule memmove_first) (simp add: l)
  have h: "take 32 (sc_reduce (crypto_hash_sha512 (take (length m + 64) (?R @ ?pk @ m @ z)))) =
      le_bytes 32 (hash_scalar (?R @ ?pk @ m))"
    using m sk by (simp add: sha512_scalar)
  let ?S = "sc_muladd (le_bytes 32 (hash_scalar (?R @ ?pk @ m))) (take 32 a) (le_bytes 32 ?r)"
  have S: "?S = le_bytes 32 ((hash_scalar (?R @ ?pk @ m) * clamp (le_value (take 32 az)) + ?r) mod sc_l)"
    using la lv unfolding hash_scalar_def by (subst sc_muladd_bytes) (simp_all add: le_value_scalar)
  have s5: "memmove_at (?R @ ?pk @ m @ z) 32 ?S = ?R @ ?S @ m @ z"
    using memmove_segment [of ?R 32 ?pk ?S "m @ z"] sk by simp
  have "fst (snd (crypto_sign sm m sk)) = ?R @ ?S @ m @ z"
    unfolding crypto_sign_def Let_def az(1) a p aa s1 s2 n s3 s4 h using s5 by simp
  then show ?thesis unfolding S by (simp add: ed_signature_def Let_def)
qed

lemma crypto_sign_returns:
  "fst (crypto_sign sm m sk) = 0" "snd (snd (crypto_sign sm m sk)) = length m + 64"
  by (simp_all add: crypto_sign_def Let_def)

section \<open>crypto_sign_open\<close>

definition open_accepts :: "u8 list \<Rightarrow> u8 list \<Rightarrow> bool" where
  "open_accepts sm pk \<longleftrightarrow>
     64 \<le> length sm \<and> sm ! 63 AND 224 = 0 \<and>
     fst (ge_frombytes_negate_vartime ge_p3_0 pk) = 0 \<and>
     ed_check (snd (ge_frombytes_negate_vartime ge_p3_0 pk)) (take 32 sm) (subbuf sm 32 32) pk
       (drop 64 sm)"

lemma badsig_buffer:
  "badsig m n = (- 1, replicate n 0 @ drop n m, - 1)"
  by (simp add: badsig_def memmove_at_def)

lemma crypto_sign_open_result:
  assumes m: "length sm \<le> length m" "length sm < 2 ^ 64" and pk: "length pk = 32"
  shows "crypto_sign_open m sm pk =
    (if open_accepts sm pk
     then (0, drop 64 sm @ replicate 64 0 @ drop (length sm) m, of_nat (length sm - 64))
     else (- 1, replicate (length sm) 0 @ drop (length sm) m, - 1))"
proof (cases "64 \<le> length sm \<and> sm ! 63 AND 224 = 0 \<and>
    fst (ge_frombytes_negate_vartime ge_p3_0 pk) = 0")
  case False
  then show ?thesis
    by (cases "ge_frombytes_negate_vartime ge_p3_0 pk")
      (auto simp: crypto_sign_open_def open_accepts_def badsig_buffer Let_def)
next
  case True
  obtain A where A: "ge_frombytes_negate_vartime ge_p3_0 pk = (0, A)"
    using True by (cases "ge_frombytes_negate_vartime ge_p3_0 pk") simp
  have T: "64 \<le> length sm" "32 \<le> length sm - 32" using True by auto
  let ?R = "take 32 sm" and ?S = "subbuf sm 32 32" and ?m = "drop 64 sm" and ?z = "drop (length sm) m"
  have "drop 32 sm = ?S @ ?m"
    using append_take_drop_id [of 32 "drop 32 sm"] by (simp add: subbuf_def)
  then have sm: "sm = ?R @ ?S @ ?m" using append_take_drop_id [of 32 sm] by simp
  have l: "length ?R = 32" "length ?S = 32" "length ?m = length sm - 64"
    using True by (auto simp: subbuf_def min_def)
  have s1: "memmove_at m 0 sm = ?R @ ?S @ ?m @ ?z"
    using m sm by (simp add: memmove_at_def)
  have s2: "memmove_at (?R @ ?S @ ?m @ ?z) 32 pk = ?R @ pk @ ?m @ ?z"
    using memmove_segment [of ?R 32 ?S pk "?m @ ?z"] l pk by simp
  have h: "take 32 (sc_reduce (crypto_hash_sha512 (take (length sm) (?R @ pk @ ?m @ ?z)))) =
      le_bytes 32 (hash_scalar (?R @ pk @ ?m))"
  proof -
    have "take (length sm) (?R @ pk @ ?m @ ?z) = ?R @ pk @ ?m" using T pk by simp
    then show ?thesis using m(2) T pk by (simp add: sha512_scalar)
  qed
  have s3: "memmove_at (memmove_at (?R @ pk @ ?m @ ?z) 0 (subbuf (?R @ pk @ ?m @ ?z) 64
      (length sm - 64))) (length sm - 64) (replicate 64 0) = ?m @ replicate 64 0 @ ?z"
  proof -
    have "subbuf (?R @ pk @ ?m @ ?z) 64 (length sm - 64) = ?m"
      using T pk by (simp add: subbuf_def)
    moreover have "memmove_at (?R @ pk @ ?m @ ?z) 0 ?m = ?m @ drop (length sm - 64) (?R @ pk @ ?m) @ ?z"
      using T pk by (simp add: memmove_at_def)
    moreover have "memmove_at (?m @ drop (length sm - 64) (?R @ pk @ ?m) @ ?z) (length sm - 64)
        (replicate 64 0) = ?m @ replicate 64 0 @ ?z"
      using T pk by (intro memmove_segment) simp_all
    ultimately show ?thesis by simp
  qed
  have b: "badsig (?R @ pk @ ?m @ ?z) (length sm) = (- 1, replicate (length sm) 0 @ ?z, - 1)"
    using T pk by (simp add: badsig_buffer)
  show ?thesis
    using True
    unfolding crypto_sign_open_def Let_def A prod.case s1 s2 h s3 b open_accepts_def
    by (simp add: crypto_verify_32_correct ed_check_def A length_ge_tobytes)
qed

section \<open>The Curve25519 signatures\<close>

text \<open>A signature with the sign bit of the Edwards key in the free top bit of S.\<close>

definition with_sign_bit :: "u8 list \<Rightarrow> u8 \<Rightarrow> u8 list" where
  "with_sign_bit sig b = sig[63 := sig ! 63 OR (b AND 0x80)]"

definition without_sign_bit :: "u8 list \<Rightarrow> u8 list" where
  "without_sign_bit sig = sig[63 := sig ! 63 AND 0x7F]"

definition curve_nonce :: "u8 list \<Rightarrow> u8 list \<Rightarrow> u8 list \<Rightarrow> int" where
  "curve_nonce sk m random = hash_scalar ((0xFE # replicate 31 0xFF) @ sk @ m @ random)"

definition curve_signature :: "u8 list \<Rightarrow> u8 list \<Rightarrow> u8 list \<Rightarrow> u8 list" where
  "curve_signature sk m random =
     (let pk = ge_p3_tobytes (ge_scalarmult_base sk)
      in with_sign_bit (ed_signature (le_value sk) (curve_nonce sk m random) pk m) (pk ! 31))"

lemma length_ed_signature [simp, len_simps]: "length (ed_signature a r pk m) = 64"
  by (simp add: ed_signature_def Let_def)

lemma le_value_last:
  assumes "length s = Suc n" "le_value s < 2 ^ (8 * n + k)" "k \<le> 8"
  shows "uint (s ! n) < 2 ^ k"
proof -
  obtain r t where s: "s = r @ [t]" "length r = n"
    using assms(1) by (cases s rule: rev_cases) auto
  have "2 ^ (8 * n) * uint t \<le> le_value s"
    using s by (simp add: le_value_append power_mult)
  then have "2 ^ (8 * n) * uint t < 2 ^ (8 * n) * 2 ^ k"
    using assms(2) unfolding power_add by (rule order_le_less_trans)
  then have "uint t < 2 ^ k" by (rule mult_left_less_imp_less) simp
  then show ?thesis using s by (simp add: nth_append)
qed

lemma low_byte_unchanged: "uint b < 128 \<Longrightarrow> (b :: u8) AND 0x7F = b"
  by (simp add: word_uint_eq_iff uint_low_bits mod_pos_pos_trivial)

lemma ed_signature_top:
  "uint (ed_signature a r pk m ! 63) < 32"
proof -
  let ?S = "le_bytes 32 ((hash_scalar (ge_p3_tobytes (ge_scalarmult_base (le_bytes 32 r)) @ pk @ m) * a + r) mod sc_l)"
  have "le_value ?S < 2 ^ (8 * 31 + 5)"
    unfolding le_value_scalar using pos_mod_bound [OF sc_l_pos] by (rule order_less_le_trans) (simp add: sc_l_def)
  then have "uint (?S ! 31) < 2 ^ 5" by (intro le_value_last) simp_all
  then show ?thesis by (simp add: ed_signature_def Let_def nth_append)
qed

lemma curve25519_sign_result:
  assumes buf: "length m + 128 \<le> length buf" and m: "length m + 128 < 2 ^ 64"
    and sk: "length sk = 32" and rnd: "length random = 64"
  shows "curve25519_sign (Some buf) sk m random = (0, curve_signature sk m random)"
proof -
  let ?pk = "ge_p3_tobytes (ge_scalarmult_base sk)"
  let ?sig = "ed_signature (le_value sk) (curve_nonce sk m random) ?pk m"
  have "take (length m + 64) (snd (crypto_sign_modified buf m sk ?pk random)) = ?sig @ m"
    unfolding curve_nonce_def
    by (rule crypto_sign_modified_layout [OF buf m sk _ rnd]) (rule length_ge_tobytes)
  then have t: "take 64 (snd (crypto_sign_modified buf m sk ?pk random)) = ?sig"
    using take_take [of 64 "length m + 64"] by (metis append_eq_conv_conj length_ed_signature
        le_add2 min.absorb1)
  have "uint (?sig ! 63) < 128" using ed_signature_top [of "le_value sk"] by (rule order_less_le_trans) simp
  then have "?sig[63 := ?sig ! 63 AND 0x7F] = ?sig" by (simp add: low_byte_unchanged)
  then show ?thesis
    unfolding curve25519_sign_def option.case Let_def t
    by (simp add: curve_signature_def with_sign_bit_def Let_def)
qed

lemma curve25519_verify_result:
  assumes "64 + length m \<le> length buf" "64 + length m \<le> length buf2" "64 + length m < 2 ^ 64"
    and sig: "length sig = 64"
  shows "curve25519_verify (Some buf) (Some buf2) sig pk m =
    (if open_accepts (without_sign_bit sig @ m) (mont_to_ed pk (sig ! 63)) then 0 else - 1)"
proof -
  have l: "length (mont_to_ed pk b) = 32" for b
    by (simp add: mont_to_ed_def Let_def fe_tobytes_def fe_store_bytes_def)
  have "memmove_at buf 0 sig = sig @ drop 64 buf" using sig by (simp add: memmove_at_def)
  then have "(memmove_at buf 0 sig)[63 := memmove_at buf 0 sig ! 63 AND 0x7F] =
      without_sign_bit sig @ drop 64 buf"
    using sig by (simp add: without_sign_bit_def nth_append list_update_append)
  moreover have "memmove_at (without_sign_bit sig @ drop 64 buf) 64 m =
      without_sign_bit sig @ m @ drop (length m) (drop 64 buf)"
    using sig by (simp add: memmove_at_def without_sign_bit_def)
  moreover have "take (64 + length m) (without_sign_bit sig @ m @ drop (length m) (drop 64 buf)) =
      without_sign_bit sig @ m"
    using sig by (simp add: without_sign_bit_def)
  moreover have "length (without_sign_bit sig @ m) = 64 + length m"
    using sig by (simp add: without_sign_bit_def)
  ultimately show ?thesis
    using assms l by (simp add: curve25519_verify_def Let_def crypto_sign_open_result)
qed

lemma mont_to_ed_bytes:
  assumes pk: "length pk = 32"
  defines "u \<equiv> of_int (le_value pk mod 2 ^ 255)"
  shows "le_value (mont_to_ed pk b) =
      Rep_gf ((u - 1) * (u + 1) ^ (2 ^ 255 - 21)) + 2 ^ 255 * (uint b div 128)"
    and "length (mont_to_ed pk b) = 32"
proof -
  let ?u = "fe_frombytes pk"
  have u: "fe.rep 1 ?u u" unfolding u_def by (rule fe_frombytes_rep [OF pk])
  have i: "fe.rep 1 (fe_invert (fe_add ?u fe_1)) ((u + 1) ^ (2 ^ 255 - 21))"
    using fe.pw_rep [OF fe_invert_pw [OF fe_rep_sums(1) [OF u fe_rep_consts(2)]]] by simp
  let ?y = "fe_mul (fe_sub ?u fe_1) (fe_invert (fe_add ?u fe_1))"
  have y: "fe.rep 1 ?y ((u - 1) * (u + 1) ^ (2 ^ 255 - 21))"
    using fe_rep_mul [OF fe_rep_sums(2) [OF u fe_rep_consts(2)] i] by simp
  let ?s = "fe_tobytes ?y" and ?v = "(u - 1) * (u + 1) ^ (2 ^ 255 - 21)"
  have s: "le_value ?s = Rep_gf ?v" "length ?s = 32"
    using fe_tobytes_correct [OF fe_rep_bytes(1) [OF y]] fe_rep_bytes(2) [OF y] by simp_all
  have "Rep_gf ?v < fe_p" using Rep_gf [of ?v] by simp
  then have top: "uint (?s ! 31) < 128"
    using s by (intro le_value_top_byte) (simp_all add: fe_p_def)
  have b: "uint b div 128 < 2" using u8_bounds [of b] by simp
  have h: "b AND 128 = push_bit 7 (drop_bit 7 b)" by (rule byte_masks)
  have low: "?s ! 31 AND 127 = ?s ! 31" using top by (rule low_byte_unchanged)
  have j: "uint (?s ! 31 OR push_bit 7 (drop_bit 7 b)) = uint (?s ! 31) + uint b div 128 * 128"
    using top b by (subst uint_join_byte) (simp_all add: uint_high_bits)
  have "mont_to_ed pk b = ?s[31 := ?s ! 31 OR push_bit 7 (drop_bit 7 b)]"
    unfolding mont_to_ed_def Let_def h [symmetric] using s(2) low by simp
  then show "le_value (mont_to_ed pk b) = Rep_gf ?v + 2 ^ 255 * (uint b div 128)"
    using s by (simp add: le_value_update j)
  show "length (mont_to_ed pk b) = 32"
    using s(2) by (simp add: mont_to_ed_def Let_def)
qed

section \<open>Properties\<close>

text \<open>
  C15: crypto_sign of sign.c returns 0, sets the length to that of the message plus 64, and
  leaves in its buffer the signature of the message by the clamped first half of SHA-512 of
  the seed, with the nonce hashed from the second half, followed by the message.
\<close>

theorem crypto_sign_signs:
  assumes "length m + 64 \<le> length sm" "length m + 64 < 2 ^ 64" "length sk = 64"
  defines "az \<equiv> sha512_spec (take 32 sk)"
  shows "fst (crypto_sign sm m sk) = 0 \<and> snd (snd (crypto_sign sm m sk)) = length m + 64 \<and>
    take (length m + 64) (fst (snd (crypto_sign sm m sk))) =
      ed_signature (clamp (le_value (take 32 az))) (hash_scalar (drop 32 az @ m)) (drop 32 sk) m @ m"
  unfolding az_def by (intro conjI crypto_sign_returns crypto_sign_layout [OF assms(1-3)])

theorem crypto_sign_signs_witness:
  "take 67 (fst (snd (crypto_sign (replicate 80 0) [1, 2, 3] (replicate 64 7)))) =
    ed_signature (clamp (le_value (take 32 (sha512_spec (replicate 32 7)))))
      (hash_scalar (drop 32 (sha512_spec (replicate 32 7)) @ [1, 2, 3])) (replicate 32 7) [1, 2, 3] @
    [1, 2, 3]"
  using crypto_sign_signs [of "[1, 2, 3]" "replicate 80 0" "replicate 64 7"] by simp

text \<open>
  C8: crypto_sign_open of open.c accepts exactly when the string has 64 bytes or more, the
  three top bits of S are clear, the key decodes to a point and R is the encoding of
  h A' + s B; it then returns the message followed by 64 zero bytes. In every other case the
  result is -1, the length is -1 and every byte of the output is zero.
\<close>

theorem crypto_sign_open_decides:
  assumes "length sm \<le> length m" "length sm < 2 ^ 64" "length pk = 32"
  shows "crypto_sign_open m sm pk =
    (if open_accepts sm pk
     then (0, drop 64 sm @ replicate 64 0 @ drop (length sm) m, of_nat (length sm - 64))
     else (- 1, replicate (length sm) 0 @ drop (length sm) m, - 1))"
  by (rule crypto_sign_open_result [OF assms])

theorem crypto_sign_open_decides_witness:
  "crypto_sign_open (replicate 64 9) (replicate 63 1 @ [32]) (replicate 32 0) =
    (- 1, replicate 64 0, - 1)"
  using crypto_sign_open_decides [of "replicate 63 1 @ [32]" "replicate 64 9" "replicate 32 0"]
  by (simp add: open_accepts_def nth_append)

text \<open>
  C14: curve25519_sign of curve_sigs.c returns 0 and the Ed25519 signature R, S under the Edwards
  key of the secret scalar, with the sign bit of that key in the top bit of S, the nonce being
  the hash of a prefix of 0xFE and 31 bytes 0xFF, the secret, the message and the random bytes;
  or -1 and 64 zero bytes when its buffer cannot be allocated.
\<close>

theorem curve25519_sign_signs:
  assumes "length m + 128 < 2 ^ 64" "length sk = 32" "length random = 64"
    and "\<And>b. buf = Some b \<Longrightarrow> length m + 128 \<le> length b"
  shows "curve25519_sign buf sk m random =
    (case buf of None \<Rightarrow> (- 1, replicate 64 0) | Some b \<Rightarrow> (0, curve_signature sk m random))"
  using curve25519_sign_result [OF _ assms(1-3)] assms(4)
  by (cases buf) (simp_all add: curve25519_sign_def)

theorem curve25519_sign_signs_witness:
  "curve25519_sign (Some (replicate 131 0)) (replicate 32 64) [1, 2, 3] (replicate 64 5) =
    (0, curve_signature (replicate 32 64) [1, 2, 3] (replicate 64 5))"
  using curve25519_sign_signs [of "[1, 2, 3]" "replicate 32 64" "replicate 64 5"
      "Some (replicate 131 0)"] by simp

text \<open>
  C13: curve25519_verify of curve_sigs.c returns 0 exactly when crypto_sign_open accepts the
  signature, its top bit cleared, under the Edwards key made of the Montgomery key and that
  bit, and -1 in every other case, a failed allocation included.
\<close>

theorem curve25519_verify_decides:
  assumes "64 + length m < 2 ^ 64" "length sig = 64"
    and "\<And>b. buf = Some b \<Longrightarrow> 64 + length m \<le> length b"
    and "\<And>b. buf2 = Some b \<Longrightarrow> 64 + length m \<le> length b"
  shows "curve25519_verify buf buf2 sig pk m =
    (if buf \<noteq> None \<and> buf2 \<noteq> None \<and>
        open_accepts (without_sign_bit sig @ m) (mont_to_ed pk (sig ! 63)) then 0 else - 1)"
  using curve25519_verify_result [OF _ _ assms(1,2)] assms(3,4)
  by (cases buf; cases buf2) (simp_all add: curve25519_verify_def)

theorem curve25519_verify_decides_witness:
  "curve25519_verify (Some (replicate 67 0)) (Some (replicate 67 0)) (replicate 64 96)
    (replicate 32 9) [1, 2, 3] = - 1"
proof -
  have "without_sign_bit (replicate 64 96) ! 63 AND 224 \<noteq> 0"
    by (simp add: without_sign_bit_def)
  then have "\<not> open_accepts (without_sign_bit (replicate 64 96) @ [1, 2, 3]) k" for k
    unfolding open_accepts_def by (simp add: nth_append without_sign_bit_def)
  then show ?thesis
    using curve25519_verify_decides [of "[1, 2, 3]" "replicate 64 96" "Some (replicate 67 0)"
        "Some (replicate 67 0)" "replicate 32 9"] by simp
qed

text \<open>
  C40: the Edwards key that curve25519_verify makes of a Montgomery u is the encoding of
  y = (u - 1) / (u + 1), the division by the power p - 2 (so u = -1 gives y = 0), with the
  given bit as the sign of x.
\<close>

theorem mont_to_ed_birational:
  assumes "length pk = 32"
  defines "u \<equiv> of_int (le_value pk mod 2 ^ 255)"
  shows "le_value (mont_to_ed pk b) =
    Rep_gf ((u - 1) * (u + 1) ^ (2 ^ 255 - 21)) + 2 ^ 255 * (uint b div 128)"
  unfolding u_def by (rule mont_to_ed_bytes(1) [OF assms(1)])

theorem mont_to_ed_birational_witness:
  "le_value (mont_to_ed (1 # replicate 31 0) 128) = 2 ^ 255"
proof -
  have v: "le_value (1 # replicate 31 0) mod 2 ^ 255 = 1" "uint (128 :: u8) div 128 = 1" by simp_all
  have "length (1 # replicate 31 (0 :: u8)) = 32" by simp
  from mont_to_ed_birational [OF this, of 128] show ?thesis
    by (simp only: v of_int_1 diff_self mult_zero_left zero_gf.rep_eq add_0_left mult_1_right)
qed

end
