(* ===== verification/Donna_Field.thy ===== *)
theory Donna_Field
  imports Fe_Pow
begin

text \<open>
  The field arithmetic of Curve25519/curve25519-donna.c: ten signed 64-bit limbs of alternately
  26 and 25 bits, arrays of 19 limbs for products. Sums and differences do not carry; products
  accept sums of two terms. The functions write through their first argument; the model takes
  its old contents where they matter and returns the new ones.
\<close>

section \<open>Sums and differences\<close>

definition fsum :: "i64 list \<Rightarrow> i64 list \<Rightarrow> i64 list" where
  "fsum output inp =
     foldl (\<lambda>output i.
       let output = output[0 + i := output ! (0 + i) + inp ! (0 + i)]
       in output[1 + i := output ! (1 + i) + inp ! (1 + i)]) output [0, 2, 4, 6, 8]"

definition fdifference :: "i64 list \<Rightarrow> i64 list \<Rightarrow> i64 list" where
  "fdifference output inp = foldl (\<lambda>output i. output[i := inp ! i - output ! i]) output [0..<10]"

definition fscalar_product :: "i64 list \<Rightarrow> i64 list \<Rightarrow> i64 \<Rightarrow> i64 list" where
  "fscalar_product output inp scalar =
     foldl (\<lambda>output i. output[i := inp ! i * scalar]) output [0..<10]"

section \<open>Products\<close>

text \<open>
  The sums of products. The code forms them on 64-bit words, after a conversion of every limb
  to 32 bits; the text is generic in the ring so that it also gives the exact integers.
\<close>

definition fproduct_terms :: "'a::comm_ring_1 list \<Rightarrow> 'a list \<Rightarrow> 'a list" where
  "fproduct_terms a b =
    [a ! 0 * b ! 0,
     a ! 0 * b ! 1 + a ! 1 * b ! 0,
     2 * a ! 1 * b ! 1 + a ! 0 * b ! 2 + a ! 2 * b ! 0,
     a ! 1 * b ! 2 + a ! 2 * b ! 1 + a ! 0 * b ! 3 + a ! 3 * b ! 0,
     a ! 2 * b ! 2 + 2 * (a ! 1 * b ! 3 + a ! 3 * b ! 1) + a ! 0 * b ! 4 + a ! 4 * b ! 0,
     a ! 2 * b ! 3 + a ! 3 * b ! 2 + a ! 1 * b ! 4 + a ! 4 * b ! 1 + a ! 0 * b ! 5 +
       a ! 5 * b ! 0,
     2 * (a ! 3 * b ! 3 + a ! 1 * b ! 5 + a ! 5 * b ! 1) + a ! 2 * b ! 4 + a ! 4 * b ! 2 +
       a ! 0 * b ! 6 + a ! 6 * b ! 0,
     a ! 3 * b ! 4 + a ! 4 * b ! 3 + a ! 2 * b ! 5 + a ! 5 * b ! 2 + a ! 1 * b ! 6 +
       a ! 6 * b ! 1 + a ! 0 * b ! 7 + a ! 7 * b ! 0,
     a ! 4 * b ! 4 + 2 * (a ! 3 * b ! 5 + a ! 5 * b ! 3 + a ! 1 * b ! 7 + a ! 7 * b ! 1) +
       a ! 2 * b ! 6 + a ! 6 * b ! 2 + a ! 0 * b ! 8 + a ! 8 * b ! 0,
     a ! 4 * b ! 5 + a ! 5 * b ! 4 + a ! 3 * b ! 6 + a ! 6 * b ! 3 + a ! 2 * b ! 7 +
       a ! 7 * b ! 2 + a ! 1 * b ! 8 + a ! 8 * b ! 1 + a ! 0 * b ! 9 + a ! 9 * b ! 0,
     2 * (a ! 5 * b ! 5 + a ! 3 * b ! 7 + a ! 7 * b ! 3 + a ! 1 * b ! 9 + a ! 9 * b ! 1) +
       a ! 4 * b ! 6 + a ! 6 * b ! 4 + a ! 2 * b ! 8 + a ! 8 * b ! 2,
     a ! 5 * b ! 6 + a ! 6 * b ! 5 + a ! 4 * b ! 7 + a ! 7 * b ! 4 + a ! 3 * b ! 8 +
       a ! 8 * b ! 3 + a ! 2 * b ! 9 + a ! 9 * b ! 2,
     a ! 6 * b ! 6 + 2 * (a ! 5 * b ! 7 + a ! 7 * b ! 5 + a ! 3 * b ! 9 + a ! 9 * b ! 3) +
       a ! 4 * b ! 8 + a ! 8 * b ! 4,
     a ! 6 * b ! 7 + a ! 7 * b ! 6 + a ! 5 * b ! 8 + a ! 8 * b ! 5 + a ! 4 * b ! 9 +
       a ! 9 * b ! 4,
     2 * (a ! 7 * b ! 7 + a ! 5 * b ! 9 + a ! 9 * b ! 5) + a ! 6 * b ! 8 + a ! 8 * b ! 6,
     a ! 7 * b ! 8 + a ! 8 * b ! 7 + a ! 6 * b ! 9 + a ! 9 * b ! 6,
     a ! 8 * b ! 8 + 2 * (a ! 7 * b ! 9 + a ! 9 * b ! 7),
     a ! 8 * b ! 9 + a ! 9 * b ! 8,
     2 * a ! 9 * b ! 9]"

definition fsquare_terms :: "'a::comm_ring_1 list \<Rightarrow> 'a list" where
  "fsquare_terms a =
    [a ! 0 * a ! 0,
     2 * a ! 0 * a ! 1,
     2 * (a ! 1 * a ! 1 + a ! 0 * a ! 2),
     2 * (a ! 1 * a ! 2 + a ! 0 * a ! 3),
     a ! 2 * a ! 2 + 4 * a ! 1 * a ! 3 + 2 * a ! 0 * a ! 4,
     2 * (a ! 2 * a ! 3 + a ! 1 * a ! 4 + a ! 0 * a ! 5),
     2 * (a ! 3 * a ! 3 + a ! 2 * a ! 4 + a ! 0 * a ! 6 + 2 * a ! 1 * a ! 5),
     2 * (a ! 3 * a ! 4 + a ! 2 * a ! 5 + a ! 1 * a ! 6 + a ! 0 * a ! 7),
     a ! 4 * a ! 4 + 2 * (a ! 2 * a ! 6 + a ! 0 * a ! 8 + 2 * (a ! 1 * a ! 7 + a ! 3 * a ! 5)),
     2 * (a ! 4 * a ! 5 + a ! 3 * a ! 6 + a ! 2 * a ! 7 + a ! 1 * a ! 8 + a ! 0 * a ! 9),
     2 * (a ! 5 * a ! 5 + a ! 4 * a ! 6 + a ! 2 * a ! 8 + 2 * (a ! 3 * a ! 7 + a ! 1 * a ! 9)),
     2 * (a ! 5 * a ! 6 + a ! 4 * a ! 7 + a ! 3 * a ! 8 + a ! 2 * a ! 9),
     a ! 6 * a ! 6 + 2 * (a ! 4 * a ! 8 + 2 * (a ! 5 * a ! 7 + a ! 3 * a ! 9)),
     2 * (a ! 6 * a ! 7 + a ! 5 * a ! 8 + a ! 4 * a ! 9),
     2 * (a ! 7 * a ! 7 + a ! 6 * a ! 8 + 2 * a ! 5 * a ! 9),
     2 * (a ! 7 * a ! 8 + a ! 6 * a ! 9),
     a ! 8 * a ! 8 + 4 * a ! 7 * a ! 9,
     2 * a ! 8 * a ! 9,
     2 * a ! 9 * a ! 9]"

text \<open>The conversion \<open>(limb) (s32) x\<close>.\<close>

definition to_s32 :: "i64 \<Rightarrow> i64" where
  "to_s32 x = scast (ucast x :: i32)"

definition fproduct :: "i64 list \<Rightarrow> i64 list \<Rightarrow> i64 list" where
  "fproduct inp2 inp = fproduct_terms (map to_s32 inp2) (map to_s32 inp)"

definition fsquare_inner :: "i64 list \<Rightarrow> i64 list" where
  "fsquare_inner inp = fsquare_terms (map to_s32 inp)"

section \<open>Reduction\<close>

text \<open>Each of the nine groups adds 19 times a high limb, as 16 + 2 + 1.\<close>

definition freduce_degree :: "i64 list \<Rightarrow> i64 list" where
  "freduce_degree output =
     foldl (\<lambda>output i.
       let output = output[i := output ! i + push_bit 4 (output ! (10 + i))];
           output = output[i := output ! i + push_bit 1 (output ! (10 + i))]
       in output[i := output ! i + output ! (10 + i)]) output [8, 7, 6, 5, 4, 3, 2, 1, 0]"

definition div_by_2_26 :: "i64 \<Rightarrow> i64" where
  "div_by_2_26 v =
     (let highword = (ucast (drop_bit 32 v) :: i32);
          sign = signed_drop_bit 31 highword;
          roundoff = drop_bit 6 sign
      in signed_drop_bit 26 (v + scast roundoff))"

definition div_by_2_25 :: "i64 \<Rightarrow> i64" where
  "div_by_2_25 v =
     (let highword = (ucast (drop_bit 32 v) :: i32);
          sign = signed_drop_bit 31 highword;
          roundoff = drop_bit 7 sign
      in signed_drop_bit 25 (v + scast roundoff))"

definition freduce_coefficients :: "i64 list \<Rightarrow> i64 list" where
  "freduce_coefficients output =
     (let output = output[10 := 0];
          output = foldl (\<lambda>output i.
            let over = div_by_2_26 (output ! i);
                output = output[i := output ! i - push_bit 26 over];
                output = output[i + 1 := output ! (i + 1) + over];
                over = div_by_2_25 (output ! (i + 1));
                output = output[i + 1 := output ! (i + 1) - push_bit 25 over]
            in output[i + 2 := output ! (i + 2) + over]) output [0, 2, 4, 6, 8];
          output = output[0 := output ! 0 + push_bit 4 (output ! 10)];
          output = output[0 := output ! 0 + push_bit 1 (output ! 10)];
          output = output[0 := output ! 0 + output ! 10];
          output = output[10 := 0];
          over = div_by_2_26 (output ! 0);
          output = output[0 := output ! 0 - push_bit 26 over]
      in output[1 := output ! 1 + over])"

definition fmul :: "i64 list \<Rightarrow> i64 list \<Rightarrow> i64 list" where
  "fmul inp inp2 = take 10 (freduce_coefficients (freduce_degree (fproduct inp inp2)))"

definition fsquare :: "i64 list \<Rightarrow> i64 list" where
  "fsquare inp = take 10 (freduce_coefficients (freduce_degree (fsquare_inner inp)))"

section \<open>Rounding towards zero\<close>

lemma high_bit_sign:
  fixes v :: i64
  shows "signed_drop_bit 31 (ucast (drop_bit 32 v) :: i32) = (if sint v < 0 then - 1 else 0)"
proof (rule bit_word_eqI)
  fix n
  assume n: "n < LENGTH(32)"
  have "bit v 63 \<longleftrightarrow> sint v < 0" using bit_last_iff [of v] by simp
  then show "bit (signed_drop_bit 31 (ucast (drop_bit 32 v) :: i32)) n =
      bit (if sint v < 0 then - 1 else (0 :: i32)) n"
    using n by (cases "n = 0") (auto simp: bit_simps)
qed

lemma div_by_trunc:
  fixes v :: i64
  shows "div_by_2_26 v = signed_drop_bit 26 (v + word_of_int (roundoff 26 (sint v)))"
    and "div_by_2_25 v = signed_drop_bit 25 (v + word_of_int (roundoff 25 (sint v)))"
proof -
  have "drop_bit 6 (- 1 :: i32) = 0x3ffffff" "drop_bit 7 (- 1 :: i32) = 0x1ffffff"
    by (simp_all add: word_uint_eq_iff unsigned_drop_bit_eq drop_bit_eq_div unsigned_minus_1_eq_mask
        mask_eq_exp_minus_1)
  then have m: "scast (drop_bit 6 (- 1 :: i32)) = (0x3ffffff :: i64)"
    "scast (drop_bit 7 (- 1 :: i32)) = (0x1ffffff :: i64)" by (simp_all only:) simp_all
  show "div_by_2_26 v = signed_drop_bit 26 (v + word_of_int (roundoff 26 (sint v)))"
    "div_by_2_25 v = signed_drop_bit 25 (v + word_of_int (roundoff 25 (sint v)))"
    unfolding div_by_2_26_def div_by_2_25_def Let_def high_bit_sign roundoff_def
    by (cases "sint v < 0"; simp only: m if_True if_False; simp)+
qed

section \<open>Sums and differences are exact\<close>

text \<open>An array of at least ten limbs: the sum of \<open>n\<close> products, and the residue it stands for.\<close>

definition dn_terms :: "nat \<Rightarrow> i64 list \<Rightarrow> bool" where
  "dn_terms n f \<longleftrightarrow> 10 \<le> length f \<and> (\<forall>i<10. \<bar>sint (f ! i)\<bar> \<le> (2 ^ 26 - 1) * int n)"

definition dn_int :: "i64 list \<Rightarrow> int" where
  "dn_int f = (\<Sum>i<10. fe_weight i * sint (f ! i))"

definition dn_val :: "i64 list \<Rightarrow> gf" where
  "dn_val f = of_int (dn_int f)"

lemma dn_terms_mono: "dn_terms i f \<Longrightarrow> i \<le> j \<Longrightarrow> dn_terms j f"
  unfolding dn_terms_def by (auto elim!: order_trans)

lemma foldl_update_range:
  fixes g :: "nat \<Rightarrow> 'a \<Rightarrow> 'a"
  assumes "n \<le> length s"
  shows "length (foldl (\<lambda>s i. s[i := g i (s ! i)]) s [0..<n]) = length s \<and>
    (\<forall>i. foldl (\<lambda>s i. s[i := g i (s ! i)]) s [0..<n] ! i = (if i < n then g i (s ! i) else s ! i))"
  using assms
proof (induction n)
  case (Suc n)
  then show ?case by (auto simp: nth_list_update less_Suc_eq)
qed simp

lemma fdifference_nth:
  assumes "10 \<le> length f"
  shows "length (fdifference f g) = length f" "i < 10 \<Longrightarrow> fdifference f g ! i = g ! i - f ! i"
  using foldl_update_range [OF assms, of "\<lambda>i x. g ! i - x"] by (simp_all add: fdifference_def)

lemma fscalar_product_nth:
  assumes "10 \<le> length z"
  shows "length (fscalar_product z f c) = length z" "i < 10 \<Longrightarrow> fscalar_product z f c ! i = f ! i * c"
  using foldl_update_range [OF assms, of "\<lambda>i x. f ! i * c"] by (simp_all add: fscalar_product_def)

lemma nat_less_10: "(i :: nat) < 10 \<longleftrightarrow> i \<in> {0, 1, 2, 3, 4, 5, 6, 7, 8, 9}"
  by auto

lemma fsum_nth:
  assumes "10 \<le> length f"
  shows "length (fsum f g) = length f" "i < 10 \<Longrightarrow> fsum f g ! i = f ! i + g ! i"
proof -
  have "f \<noteq> []" using assms by auto
  then show "length (fsum f g) = length f" "i < 10 \<Longrightarrow> fsum f g ! i = f ! i + g ! i"
    using assms by (simp_all add: fsum_def Let_def) (auto simp: nat_less_10)
qed

lemma dn_sum:
  assumes "dn_terms i f" "dn_terms j g" "i + j \<le> 2"
  shows "dn_terms (i + j) (fsum f g)" "dn_terms (i + j) (fdifference g f)"
    "dn_val (fsum f g) = dn_val f + dn_val g" "dn_val (fdifference g f) = dn_val f - dn_val g"
proof -
  have l: "10 \<le> length f" "10 \<le> length g" using assms by (simp_all add: dn_terms_def)
  have b: "\<bar>sint (f ! k)\<bar> + \<bar>sint (g ! k)\<bar> \<le> (2 ^ 26 - 1) * int (i + j)" if "k < 10" for k
    using assms(1,2) that unfolding dn_terms_def by (force simp: distrib_left)
  have c: "(2 ^ 26 - 1) * int (i + j) \<le> 2 ^ 28" using assms(3) by simp
  have s: "sint (fsum f g ! k) = sint (f ! k) + sint (g ! k)"
    "sint (fdifference g f ! k) = sint (f ! k) - sint (g ! k)" if "k < 10" for k
  proof -
    have "\<bar>sint (f ! k)\<bar> + \<bar>sint (g ! k)\<bar> \<le> 2 ^ 28" using b [OF that] c by linarith
    then have "fits 64 (sint (f ! k) + sint (g ! k))" "fits 64 (sint (f ! k) - sint (g ! k))"
      by (auto simp: fits_def)
    then show "sint (fsum f g ! k) = sint (f ! k) + sint (g ! k)"
      "sint (fdifference g f ! k) = sint (f ! k) - sint (g ! k)"
      using l that by (simp_all add: fsum_nth fdifference_nth sint_add sint_sub)
  qed
  show "dn_terms (i + j) (fsum f g)" "dn_terms (i + j) (fdifference g f)"
    using l b s unfolding dn_terms_def fsum_nth(1) [OF l(1)] fdifference_nth(1) [OF l(2)]
    by (force intro: order_trans [rotated])+
  have "dn_int (fsum f g) = dn_int f + dn_int g" "dn_int (fdifference g f) = dn_int f - dn_int g"
    unfolding dn_int_def by (simp_all add: s sum.distrib [symmetric] sum_subtractf [symmetric] algebra_simps)
  then show "dn_val (fsum f g) = dn_val f + dn_val g" "dn_val (fdifference g f) = dn_val f - dn_val g"
    by (simp_all add: dn_val_def)
qed

section \<open>Products\<close>

lemma fsquare_terms_product: "fsquare_terms a = fproduct_terms a a"
  unfolding fsquare_terms_def fproduct_terms_def list.inject
  by (intro conjI; simp add: algebra_simps)

lemma fsquare_fmul: "fsquare f = fmul f f"
  by (simp add: fsquare_def fmul_def fsquare_inner_def fproduct_def fsquare_terms_product)

lemma length_fproduct [simp]: "length (fproduct f g) = 19"
  by (simp add: fproduct_def fproduct_terms_def)

lemma sint_to_s32: "fits 32 (sint x) \<Longrightarrow> to_s32 x = x"
  unfolding to_s32_def scast_eq using sint_ucast_down [of x] word_as_sint [of x] by simp

lemma fproduct_terms_words:
  assumes "length A = 10" "length B = 10"
  shows "fproduct_terms (map word_of_int A) (map word_of_int B) =
    (map word_of_int (fproduct_terms A B) :: i64 list)"
  using assms by (simp add: fproduct_terms_def)

text \<open>Only the first ten limbs of the factors are read.\<close>

lemma fproduct_terms_take:
  "10 \<le> length a \<Longrightarrow> 10 \<le> length b \<Longrightarrow> fproduct_terms a b = fproduct_terms (take 10 a) (take 10 b)"
  by (simp add: fproduct_terms_def)

text \<open>The reduction of the degree: limb \<open>10 + i\<close> weighs 19 times limb \<open>i\<close>.\<close>

lemma degree_step:
  assumes "length t = 19" "i < 9"
  shows "(let t = t[i := t ! i + push_bit 4 (t ! (10 + i))];
          t = t[i := t ! i + push_bit 1 (t ! (10 + i))]
      in t[i := t ! i + t ! (10 + i)]) = (t[i := t ! i + 19 * t ! (10 + i)] :: i64 list)"
  using assms by (simp add: Let_def push_bit_eq_mult add.commute)

lemma freduce_degree_eq:
  assumes "length t = 19"
  shows "freduce_degree t =
    foldl (\<lambda>t i. t[i := t ! i + 19 * t ! (10 + i)]) t [8, 7, 6, 5, 4, 3, 2, 1, 0]"
  unfolding freduce_degree_def using assms by (simp only: foldl.simps degree_step length_list_update)

lemma length_freduce_degree [simp]: "length t = 19 \<Longrightarrow> length (freduce_degree t) = 19"
  by (simp add: freduce_degree_eq)

lemma freduce_degree_nth:
  assumes "length t = 19"
  shows "i < 9 \<Longrightarrow> freduce_degree t ! i = t ! i + 19 * t ! (10 + i)"
    "freduce_degree t ! 9 = t ! 9" "9 < i \<Longrightarrow> freduce_degree t ! i = t ! i"
proof -
  have n: "t \<noteq> []" using assms by auto
  show "freduce_degree t ! 9 = t ! 9" "9 < i \<Longrightarrow> freduce_degree t ! i = t ! i"
    using assms by (simp_all add: freduce_degree_eq)
  assume "i < 9"
  then have "i \<in> {0, 1, 2, 3, 4, 5, 6, 7, 8}" by auto
  then show "freduce_degree t ! i = t ! i + 19 * t ! (10 + i)"
    using assms n by (auto simp: freduce_degree_eq)
qed

lemma fproduct_fold:
  assumes "length A = 10" "length B = 10" "i < 9"
  shows "fproduct_terms A B ! i + 19 * fproduct_terms A B ! (10 + i) = fe_conv A B ! i"
    and "fproduct_terms A B ! 9 = fe_conv A B ! 9"
proof -
  have "i \<in> {0, 1, 2, 3, 4, 5, 6, 7, 8}" using assms(3) by auto
  then show "fproduct_terms A B ! i + 19 * fproduct_terms A B ! (10 + i) = fe_conv A B ! i"
    unfolding fproduct_terms_def fe_conv_def by (auto simp: algebra_simps)
  show "fproduct_terms A B ! 9 = fe_conv A B ! 9"
    unfolding fproduct_terms_def fe_conv_def by (simp add: algebra_simps)
qed

text \<open>Sums of at most \<open>n\<close> terms of absolute value \<open>M\<close>.\<close>

definition terms :: "int \<Rightarrow> int \<Rightarrow> int \<Rightarrow> bool" where
  "terms M n x \<longleftrightarrow> \<bar>x\<bar> \<le> n * M"

lemma terms_intros:
  "terms M m x \<Longrightarrow> terms M n y \<Longrightarrow> terms M (m + n) (x + y)"
  "terms M n x \<Longrightarrow> terms M (2 * n) (2 * x)"
  "terms M n (x * y) \<Longrightarrow> terms M (2 * n) (2 * x * y)"
  by (auto simp: terms_def abs_mult distrib_right mult.assoc)

lemma terms_mono: "terms M m x \<Longrightarrow> m \<le> n \<Longrightarrow> 0 \<le> M \<Longrightarrow> terms M n x"
  unfolding terms_def by (erule order_trans) (rule mult_right_mono)

text \<open>The bound of the comment of \<open>fproduct\<close>: fourteen times the largest product.\<close>

lemma fproduct_terms_bound:
  assumes "\<And>i. i < 10 \<Longrightarrow> \<bar>A ! i\<bar> \<le> a" "\<And>i. i < 10 \<Longrightarrow> \<bar>B ! i\<bar> \<le> a"
  shows "list_all (terms (a * a) 14) (fproduct_terms A B)"
proof -
  have m: "terms (a * a) 1 (A ! j * B ! k)" if "j < 10" "k < 10" for j k
    unfolding terms_def abs_mult using assms(1) [OF that(1)] assms(2) [OF that(2)]
    by (simp add: mult_mono)
  show ?thesis
    unfolding fproduct_terms_def list.pred_inject(2)
    by (intro conjI list.pred_inject(1); rule terms_mono, (rule terms_intros m | simp; fail)+)
qed

section \<open>The coefficients\<close>

text \<open>
  \<open>freduce_coefficients\<close> as a run of the limb machine. It reads the limbs 0 to 10; the limbs
  above carry no weight.
\<close>

definition dn_coeffs :: "limb_step list" where
  "dn_coeffs =
     concat (map (\<lambda>i. [Trunc i 26 [(i + 1, 1)], Trunc (i + 1) 25 [(i + 2, 1)]]) [0, 2, 4, 6, 8]) @
     [Fold 10 [(0, 16), (0, 2), (0, 1)], Trunc 0 26 [(1, 1)]]"

definition dn_weight :: "nat \<Rightarrow> int" where
  "dn_weight i = (if i \<le> 10 then fe_weight i else 0)"

definition dn_wide :: "ivl list" where
  "dn_wide = replicate 10 (- (280 * 2 ^ 54), 280 * 2 ^ 54) @
     (0, 0) # replicate 8 (- (14 * 2 ^ 54), 14 * 2 ^ 54)"

definition dn_narrow :: "ivl list" where
  "dn_narrow =
    [(- 67108863, 67108863), (- 33596992, 33596992), (- 67108863, 67108863),
     (- 33554431, 33554431), (- 67108863, 67108863), (- 33554431, 33554431),
     (- 67108863, 67108863), (- 33554431, 33554431), (- 67108863, 67108863),
     (- 33554431, 33554431), (0, 0)] @ replicate 8 (- 252201579132747776, 252201579132747776)"

interpretation dn_reduce: limb_program "TYPE(64)" dn_weight fe_p dn_coeffs dn_wide dn_narrow
proof unfold_locales
  show "list_all (step_ok dn_weight fe_p (length dn_wide)) dn_coeffs"
    by (simp add: dn_coeffs_def dn_wide_def dn_weight_def fe_weight_def fe_exp_def fe_p_def)
  have "run_i 64 dn_coeffs dn_wide = Some dn_narrow" by code_simp
  then show "run_i LENGTH(64) dn_coeffs dn_wide = Some dn_narrow" by simp
qed

lemma foldl_cong_length:
  assumes "length s = n" "\<And>s i. length s = n \<Longrightarrow> i \<in> set is \<Longrightarrow> f s i = g s i"
    and "\<And>s i. length s = n \<Longrightarrow> i \<in> set is \<Longrightarrow> length (g s i) = n"
  shows "foldl f s is = foldl g s is"
  using assms by (induction "is" arbitrary: s) auto

lemma trunc_step:
  assumes "i \<noteq> d" "i < length s" "d < length s"
  shows "(s[i := s ! i - push_bit 26 (div_by_2_26 (s ! i))])[d := s ! d + div_by_2_26 (s ! i)] =
      step_w (Trunc i 26 [(d, 1)]) s"
    and "(s[i := s ! i - push_bit 25 (div_by_2_25 (s ! i))])[d := s ! d + div_by_2_25 (s ! i)] =
      step_w (Trunc i 25 [(d, 1)]) s"
  using assms by (simp_all add: div_by_trunc move_w_def Let_def list_update_swap)

lemma coefficients_pair:
  assumes "i + 2 < length s"
  shows "(let over = div_by_2_26 (s ! i);
          s = s[i := s ! i - push_bit 26 over];
          s = s[i + 1 := s ! (i + 1) + over];
          over = div_by_2_25 (s ! (i + 1));
          s = s[i + 1 := s ! (i + 1) - push_bit 25 over]
      in s[i + 2 := s ! (i + 2) + over]) =
    run_w [Trunc i 26 [(i + 1, 1)], Trunc (i + 1) 25 [(i + 2, 1)]] s"
proof -
  define u where "u = step_w (Trunc i 26 [(i + 1, 1)]) s"
  have u: "(s[i := s ! i - push_bit 26 (div_by_2_26 (s ! i))])
      [i + 1 := s ! (i + 1) + div_by_2_26 (s ! i)] = u"
    unfolding u_def using assms by (intro trunc_step) simp_all
  have n: "(s[i := x]) ! (i + 1) = s ! (i + 1)" for x by simp
  have "(u[i + 1 := u ! (i + 1) - push_bit 25 (div_by_2_25 (u ! (i + 1)))])
      [i + 2 := u ! (i + 2) + div_by_2_25 (u ! (i + 1))] = step_w (Trunc (i + 1) 25 [(i + 2, 1)]) u"
    using assms by (intro trunc_step) (simp_all add: u_def)
  moreover have "(u[i + 1 := x]) ! (i + 2) = u ! (i + 2)" for x by simp
  ultimately show ?thesis
    unfolding Let_def n u run_w.simps u_def [symmetric] by simp
qed

lemma freduce_coefficients_run:
  assumes "length t = 19"
  shows "freduce_coefficients t = run_w dn_coeffs (t[10 := 0])"
proof -
  let ?f = "\<lambda>s i. run_w [Trunc i 26 [(i + 1, 1)], Trunc (i + 1) 25 [(i + 2, 1)]] (s :: i64 list)"
  let ?is = "[0, 2, 4, 6, 8] :: nat list"
  have l: "length (foldl ?f (t[10 := 0]) ?is) = 19"
    by (simp only: foldl.simps length_run_w length_list_update assms)
  have r: "foldl ?f s ?is = run_w (concat (map (\<lambda>i. [Trunc i 26 [(i + 1, 1)],
      Trunc (i + 1) 25 [(i + 2, 1)]]) ?is)) s" for s :: "i64 list"
    by (simp only: foldl.simps list.map concat.simps run_w_append append_Nil2)
  have last: "(let s = s[0 := s ! 0 + push_bit 4 (s ! 10)];
      s = s[0 := s ! 0 + push_bit 1 (s ! 10)]; s = s[0 := s ! 0 + s ! 10]; s = s[10 := 0];
      over = div_by_2_26 (s ! 0); s = s[0 := s ! 0 - push_bit 26 over]
      in s[1 := s ! 1 + over]) =
    run_w [Fold 10 [(0, 16), (0, 2), (0, 1)], Trunc 0 26 [(1, 1)]] s"
    if "length s = 19" for s :: "i64 list"
  proof -
    have n: "s \<noteq> []" using that by auto
    define s1 where "s1 = s[0 := s ! 0 + push_bit 4 (s ! 10)]"
    define s2 where "s2 = s1[0 := s1 ! 0 + push_bit 1 (s1 ! 10)]"
    define s3 where "s3 = s2[0 := s2 ! 0 + s2 ! 10]"
    define u where "u = s3[10 := 0]"
    have "s3 = s[0 := s ! 0 + 16 * s ! 10 + 2 * s ! 10 + s ! 10]"
      using n by (simp add: s3_def s2_def s1_def push_bit_eq_mult mult.commute)
    then have f: "step_w (Fold 10 [(0, 16), (0, 2), (0, 1)]) s = u"
      using that n by (simp add: u_def mult.commute)
    have "length u = 19" using that by (simp add: u_def s3_def s2_def s1_def)
    then have t: "(u[0 := u ! 0 - push_bit 26 (div_by_2_26 (u ! 0))])[1 := u ! 1 + div_by_2_26 (u ! 0)] =
        step_w (Trunc 0 26 [(1, 1)]) u" by (intro trunc_step) simp_all
    show ?thesis
      unfolding Let_def s1_def [symmetric] s2_def [symmetric] s3_def [symmetric] u_def [symmetric]
        run_w.simps f t [symmetric] by simp
  qed
  have "freduce_coefficients t =
      run_w [Fold 10 [(0, 16), (0, 2), (0, 1)], Trunc 0 26 [(1, 1)]] (foldl ?f (t[10 := 0]) ?is)"
  proof -
    have "foldl (\<lambda>output i.
            let over = div_by_2_26 (output ! i);
                output = output[i := output ! i - push_bit 26 over];
                output = output[i + 1 := output ! (i + 1) + over];
                over = div_by_2_25 (output ! (i + 1));
                output = output[i + 1 := output ! (i + 1) - push_bit 25 over]
            in output[i + 2 := output ! (i + 2) + over]) (t[10 := 0]) ?is =
        foldl ?f (t[10 := 0]) ?is"
      by (intro foldl_cong_length [where n = 19] coefficients_pair) (auto simp: assms)
    then show ?thesis
      unfolding freduce_coefficients_def last [OF l, symmetric] by (simp only: Let_def)
  qed
  then show ?thesis unfolding r by (simp only: dn_coeffs_def run_w_append)
qed

section \<open>The field interface\<close>

lemma foldl_weight_split:
  assumes "length s = 19"
  shows "limb_value dn_weight (map sint s) = dn_int s + fe_weight 10 * sint (s ! 10)"
proof -
  let ?f = "\<lambda>j. dn_weight j * map sint s ! j"
  have "{..<19} = {..<10} \<union> insert 10 {11..<19 :: nat}" by auto
  then have "(\<Sum>j<19. ?f j) = sum ?f ({..<10} \<union> insert 10 {11..<19})" by (rule arg_cong)
  also have "\<dots> = (\<Sum>j<10. ?f j) + sum ?f (insert 10 {11..<19})"
    by (rule sum.union_disjoint) auto
  also have "sum ?f (insert 10 {11..<19}) = ?f 10 + sum ?f {11..<19}" by (rule sum.insert) auto
  also have "(\<Sum>j\<in>{11..<19}. dn_weight j * map sint s ! j) = 0"
    by (rule sum.neutral) (simp add: dn_weight_def)
  finally show ?thesis using assms by (simp add: limb_value_def dn_int_def dn_weight_def)
qed

lemma freduce_coefficients_correct:
  assumes l: "length t = 19" and lo: "\<And>i. i < 10 \<Longrightarrow> \<bar>sint (t ! i)\<bar> \<le> 280 * 2 ^ 54"
    and hi: "\<And>i. i < 8 \<Longrightarrow> \<bar>sint (t ! (11 + i))\<bar> \<le> 14 * 2 ^ 54"
  shows "dn_terms 1 (freduce_coefficients t)" "dn_val (freduce_coefficients t) = dn_val t"
    "length (freduce_coefficients t) = 19"
    "run_z 64 dn_coeffs ((map sint t)[10 := 0]) = Some (map sint (freduce_coefficients t))"
proof -
  let ?t = "t[10 := 0]" and ?r = "freduce_coefficients t"
  have i: "in_ivls (map sint ?t) dn_wide"
    unfolding in_ivls_def
  proof (intro conjI allI impI)
    show "length (map sint ?t) = length dn_wide" using l by (simp add: dn_wide_def)
    fix i
    assume i: "i < length (map sint ?t)"
    consider "i < 10" | "i = 10" | j where "i = 11 + j" "j < 8"
    proof (cases "i < 11")
      case False
      then have "i = 11 + (i - 11)" "i - 11 < 8" using i l by simp_all
      then show ?thesis using that(3) by blast
    qed (use that in linarith)
    then show "in_ivl (map sint ?t ! i) (dn_wide ! i)"
    proof cases
      case 3
      then show ?thesis using l hi [of j] by (simp add: in_ivl_def dn_wide_def nth_append abs_le_iff)
    qed (use l lo [of i] in \<open>auto simp: in_ivl_def dn_wide_def nth_append abs_le_iff\<close>)
  qed
  have r: "?r = run_w dn_coeffs ?t" by (rule freduce_coefficients_run [OF l])
  show lr: "length ?r = 19" using l by (simp add: r)
  show "run_z 64 dn_coeffs ((map sint t)[10 := 0]) = Some (map sint ?r)"
    using dn_reduce.no_overflow [OF i] by (simp add: r map_update)
  have o: "in_ivls (map sint ?r) dn_narrow" unfolding r by (rule dn_reduce.bounded [OF i])
  then have n: "in_ivl (sint (?r ! k)) (dn_narrow ! k)" if "k < 19" for k
    using that lr by (simp add: in_ivls_def)
  have "\<bar>sint (?r ! k)\<bar> \<le> 2 ^ 26 - 1" if "k < 10" for k
    using n [of k] that unfolding nat_less_10 by (auto simp: dn_narrow_def in_ivl_def abs_le_iff)
  then show "dn_terms 1 ?r" using lr by (simp add: dn_terms_def)
  have z: "sint (?r ! 10) = 0" using n [of 10] by (simp add: dn_narrow_def in_ivl_def)
  have "dn_int ?t = dn_int t" by (simp add: dn_int_def)
  then have "dn_int ?r mod fe_p = dn_int t mod fe_p"
    using dn_reduce.keeps_value [OF i] l z
    by (simp add: r [symmetric] foldl_weight_split lr)
  then show "dn_val ?r = dn_val t" by (simp add: dn_val_def gf_of_int_eq)
qed

text \<open>The conversions to 32 bits lose nothing and the nineteen sums are exact.\<close>

lemma fproduct_exact:
  assumes f: "dn_terms 2 f" and g: "dn_terms 2 g"
  defines "P \<equiv> fproduct_terms (map sint (take 10 f)) (map sint (take 10 g))"
  shows "fproduct f g = map word_of_int P" "k < 19 \<Longrightarrow> \<bar>P ! k\<bar> \<le> 14 * 2 ^ 54" "length P = 19"
    "map sint (fproduct f g) = P"
proof -
  define A B where "A = map sint (take 10 f)" and "B = map sint (take 10 g)"
  have P: "P = fproduct_terms A B" by (simp add: P_def A_def B_def)
  have l: "length A = 10" "length B = 10" and L: "10 \<le> length f" "10 \<le> length g"
    using f g by (simp_all add: dn_terms_def A_def B_def)
  have b: "\<bar>A ! i\<bar> \<le> 2 ^ 27" "\<bar>B ! i\<bar> \<le> 2 ^ 27" if "i < 10" for i
    using f g that L by (fastforce simp: dn_terms_def A_def B_def)+
  show lP: "length P = 19" by (simp add: P fproduct_terms_def)
  have bP: "\<bar>P ! k\<bar> \<le> 14 * 2 ^ 54" if "k < 19" for k
    using fproduct_terms_bound [OF b] that
    by (simp add: list_all_length terms_def P fproduct_terms_def)
  then show "k < 19 \<Longrightarrow> \<bar>P ! k\<bar> \<le> 14 * 2 ^ 54" by blast
  have w: "map to_s32 (take 10 h) = map word_of_int (map sint (take 10 h))"
    if h: "dn_terms 2 h" for h
  proof (rule nth_equalityI)
    fix i
    assume i: "i < length (map to_s32 (take 10 h))"
    then have "\<bar>sint (h ! i)\<bar> \<le> 2 ^ 27" using h by (fastforce simp: dn_terms_def)
    then have "fits 32 (sint (h ! i))" by (simp add: fits_def abs_le_iff)
    then show "map to_s32 (take 10 h) ! i = map word_of_int (map sint (take 10 h)) ! i"
      using i by (simp add: sint_to_s32 flip: word_as_sint)
  qed (use h in \<open>simp add: dn_terms_def\<close>)
  show p: "fproduct f g = map word_of_int P"
    unfolding fproduct_def P using L
    by (subst fproduct_terms_take)
      (simp_all add: take_map w [OF f] w [OF g] fproduct_terms_words l flip: A_def B_def)
  show "map sint (fproduct f g) = P"
  proof (rule nth_equalityI)
    fix i
    assume "i < length (map sint (fproduct f g))"
    then have i: "i < 19" by simp
    then have "fits 64 (P ! i)" using bP [of i] by (simp add: fits_def abs_le_iff)
    then show "map sint (fproduct f g) ! i = P ! i" using i lP by (simp add: p sint_of_int_64)
  qed (simp add: lP)
qed

lemma fproduct_reduced:
  assumes f: "dn_terms 2 f" and g: "dn_terms 2 g"
  defines "t \<equiv> freduce_degree (fproduct f g)"
  shows "length t = 19" "i < 10 \<Longrightarrow> \<bar>sint (t ! i)\<bar> \<le> 280 * 2 ^ 54"
    "i < 8 \<Longrightarrow> \<bar>sint (t ! (11 + i))\<bar> \<le> 14 * 2 ^ 54" "dn_val t = dn_val f * dn_val g"
    "i < 9 \<Longrightarrow> sint (t ! i) = sint (fproduct f g ! i) + 19 * sint (fproduct f g ! (10 + i))"
proof -
  define A B where "A = map sint (take 10 f)" and "B = map sint (take 10 g)"
  have l: "length A = 10" "length B = 10" and L: "10 \<le> length f" "10 \<le> length g"
    using f g by (simp_all add: dn_terms_def A_def B_def)
  have AB: "A ! i = sint (f ! i)" "B ! i = sint (g ! i)" if "i < 10" for i
    using that L by (simp_all add: A_def B_def)
  define P where "P = fproduct_terms A B"
  note x = fproduct_exact [OF f g, folded A_def B_def, folded P_def]
  note p = x(1) and bP = x(2) and lP = x(3)
  have lp: "length (fproduct f g) = 19" by simp
  show lt: "length t = 19" by (simp add: t_def)
  note d = freduce_degree_nth [OF lp, folded t_def]
  have t: "t ! i = word_of_int (fe_conv A B ! i)" and c: "\<bar>fe_conv A B ! i\<bar> \<le> 280 * 2 ^ 54"
    if "i < 10" for i
  proof -
    have "t ! i = word_of_int (fe_conv A B ! i) \<and> \<bar>fe_conv A B ! i\<bar> \<le> 280 * 2 ^ 54"
    proof (cases "i < 9")
      case True
      note e = fproduct_fold(1) [OF l True, folded P_def]
      have "t ! i = word_of_int (P ! i + 19 * P ! (10 + i))" using d(1) [OF True] True lP by (simp add: p)
      then show ?thesis unfolding e using bP [of i] bP [of "10 + i"] True e by (simp add: abs_le_iff)
    next
      case False
      then have i: "i = 9" using that by simp
      note e = fproduct_fold(2) [OF l, of 0, folded P_def]
      show ?thesis unfolding i using d(2) e bP [of 9] lP by (simp add: p)
    qed
    then show "t ! i = word_of_int (fe_conv A B ! i)" "\<bar>fe_conv A B ! i\<bar> \<le> 280 * 2 ^ 54" by auto
  qed
  have s: "sint (t ! i) = fe_conv A B ! i" if "i < 10" for i
  proof -
    have "fits 64 (fe_conv A B ! i)" using c [OF that] by (simp add: fits_def abs_le_iff)
    then show ?thesis using t [OF that] by (simp add: sint_of_int_64)
  qed
  show "i < 10 \<Longrightarrow> \<bar>sint (t ! i)\<bar> \<le> 280 * 2 ^ 54" using s c by simp
  have sP: "sint (fproduct f g ! j) = P ! j" if "j < 19" for j
    using arg_cong [OF x(4), of "\<lambda>xs. xs ! j"] that by simp
  show "sint (t ! i) = sint (fproduct f g ! i) + 19 * sint (fproduct f g ! (10 + i))" if "i < 9"
    using s [of i] sP [of i] sP [of "10 + i"] fproduct_fold(1) [OF l that, folded P_def] that by simp
  show "\<bar>sint (t ! (11 + i))\<bar> \<le> 14 * 2 ^ 54" if "i < 8"
  proof -
    have "t ! (11 + i) = word_of_int (P ! (11 + i))" using d(3) [of "11 + i"] that lP by (simp add: p)
    moreover have "fits 64 (P ! (11 + i))" using bP [of "11 + i"] that by (simp add: fits_def abs_le_iff)
    ultimately show ?thesis using bP [of "11 + i"] that by (simp add: sint_of_int_64)
  qed
  have v: "limb_value fe_weight H = (\<Sum>i<10. fe_weight i * H ! i)" if "length H = 10" for H
    using that by (simp add: limb_value_def)
  have "length (fe_conv A B) = 10" by (simp add: fe_conv_def)
  then have "dn_int t = limb_value fe_weight (fe_conv A B)" by (simp add: v dn_int_def s)
  moreover have "dn_int f = limb_value fe_weight A" "dn_int g = limb_value fe_weight B"
    by (simp_all add: v l dn_int_def AB)
  ultimately have "dn_int f * dn_int g mod fe_p = dn_int t mod fe_p"
    by (simp add: fe_conv_value [OF l])
  then show "dn_val t = dn_val f * dn_val g"
    by (simp add: dn_val_def gf_of_int_eq flip: of_int_mult)
qed

lemma dn_take:
  "10 \<le> length f \<Longrightarrow> dn_terms n (take 10 f) \<longleftrightarrow> dn_terms n f" "dn_val (take 10 f) = dn_val f"
  by (simp_all add: dn_terms_def dn_val_def dn_int_def)

lemma dn_product:
  assumes "dn_terms 2 f" "dn_terms 2 g"
  defines "h \<equiv> freduce_coefficients (freduce_degree (fproduct f g))"
  shows "length h = 19" "dn_terms 1 h" "dn_val h = dn_val f * dn_val g"
    "dn_terms 1 (fmul f g)" "dn_val (fmul f g) = dn_val f * dn_val g"
proof -
  note t = fproduct_reduced [OF assms(1,2)]
  note r = freduce_coefficients_correct [OF t(1-3), folded h_def]
  show "length h = 19" "dn_terms 1 h" "dn_val h = dn_val f * dn_val g" using r t(4) by simp_all
  then show "dn_terms 1 (fmul f g)" "dn_val (fmul f g) = dn_val f * dn_val g"
    unfolding fmul_def h_def [symmetric] by (simp_all add: dn_take)
qed

interpretation dn: field_ops dn_val dn_terms 2 fsum "\<lambda>f g. fdifference g f" fmul fsquare
  by unfold_locales
    (simp, (erule (1) dn_terms_mono | simp only: dn_sum dn_product fsquare_fmul)+)

section \<open>Property\<close>

text \<open>
  C21: fmul of curve25519-donna.c multiplies modulo 2^255-19 and its result is reduced, for
  arguments that may be sums of two reduced elements. No intermediate overflows: the nineteen
  sums of products are exact and at most 14 * 2^54, as the comment of fproduct says; the folding
  of freduce_degree is exact, its limbs staying at or below 280 * 2^54; and every step of
  freduce_coefficients succeeds on 64-bit checked integers.
\<close>

theorem donna_fmul_field:
  assumes "length f = 10" "length g = 10"
    and "\<forall>i<10. \<bar>sint (f ! i)\<bar> \<le> 2 * (2 ^ 26 - 1) \<and> \<bar>sint (g ! i)\<bar> \<le> 2 * (2 ^ 26 - 1)"
  shows "map sint (fproduct f g) = fproduct_terms (map sint f) (map sint g) \<and>
    (\<forall>i<19. \<bar>sint (fproduct f g ! i)\<bar> \<le> 14 * 2 ^ 54) \<and>
    (\<forall>i<9. sint (freduce_degree (fproduct f g) ! i) =
        sint (fproduct f g ! i) + 19 * sint (fproduct f g ! (10 + i)) \<and>
      \<bar>sint (freduce_degree (fproduct f g) ! i)\<bar> \<le> 280 * 2 ^ 54) \<and>
    run_z 64 dn_coeffs ((map sint (freduce_degree (fproduct f g)))[10 := 0]) =
      Some (map sint (freduce_coefficients (freduce_degree (fproduct f g)))) \<and>
    dn_int (fmul f g) mod fe_p = dn_int f * dn_int g mod fe_p \<and> length (fmul f g) = 10 \<and>
    (\<forall>i<10. \<bar>sint (fmul f g ! i)\<bar> < 2 ^ 26)"
proof -
  have d: "dn_terms 2 f" "dn_terms 2 g" using assms by (simp_all add: dn_terms_def)
  note p = dn_product [OF d] and x = fproduct_exact [OF d] and t = fproduct_reduced [OF d]
  have e: "map sint (fproduct f g) = fproduct_terms (map sint f) (map sint g)"
    using x(4) assms(1,2) by simp
  have "sint (fproduct f g ! i) = fproduct_terms (map sint f) (map sint g) ! i" if "i < 19" for i
    using arg_cong [OF e, of "\<lambda>xs. xs ! i"] that by simp
  then have "\<forall>i<19. \<bar>sint (fproduct f g ! i)\<bar> \<le> 14 * 2 ^ 54" using x(2) assms(1,2) by simp
  moreover have "\<forall>i<9. sint (freduce_degree (fproduct f g) ! i) =
        sint (fproduct f g ! i) + 19 * sint (fproduct f g ! (10 + i)) \<and>
      \<bar>sint (freduce_degree (fproduct f g) ! i)\<bar> \<le> 280 * 2 ^ 54"
  proof (intro allI impI conjI)
    fix i :: nat
    assume "i < 9"
    then show "sint (freduce_degree (fproduct f g) ! i) =
        sint (fproduct f g ! i) + 19 * sint (fproduct f g ! (10 + i))" by (rule t(5))
    from \<open>i < 9\<close> have "i < 10" by simp
    then show "\<bar>sint (freduce_degree (fproduct f g) ! i)\<bar> \<le> 280 * 2 ^ 54" by (rule t(2))
  qed
  moreover note freduce_coefficients_correct(4) [OF t(1-3)]
  moreover have "dn_int (fmul f g) mod fe_p = dn_int f * dn_int g mod fe_p"
    using p(5) by (simp only: dn_val_def gf_of_int_eq flip: of_int_mult)
  moreover have "length (fmul f g) = 10" using p(1) by (simp add: fmul_def)
  moreover have "\<bar>sint (fmul f g ! i)\<bar> < 2 ^ 26" if "i < 10" for i
    using p(4) that by (auto simp: dn_terms_def)
  ultimately show ?thesis using e by blast
qed

theorem donna_fmul_field_witness:
  "dn_int (fmul (replicate 10 134217726) (replicate 10 (- 134217726))) mod fe_p =
    dn_int (replicate 10 134217726) * dn_int (replicate 10 (- 134217726)) mod fe_p"
  using donna_fmul_field [of "replicate 10 134217726" "replicate 10 (- 134217726)"] by simp

end
