(* ===== verification/Donna_Bytes.thy ===== *)
theory Donna_Bytes
  imports Donna_Field
begin

text \<open>
  The conversions of curve25519-donna.c between 32-byte strings and limbs: \<open>fexpand\<close>, and
  \<open>fcontract\<close>, which reduces a number modulo 2^255-19 without a branch.
\<close>

section \<open>fexpand\<close>

text \<open>The macro \<open>F(n, start, shift, mask)\<close>.\<close>

definition fexpand_limb :: "u8 list \<Rightarrow> nat \<Rightarrow> nat \<Rightarrow> i64 \<Rightarrow> i64" where
  "fexpand_limb input start shift msk =
     signed_drop_bit shift (ucast (input ! (start + 0)) OR push_bit 8 (ucast (input ! (start + 1))) OR
       push_bit 16 (ucast (input ! (start + 2))) OR push_bit 24 (ucast (input ! (start + 3)))) AND msk"

definition fexpand :: "u8 list \<Rightarrow> i64 list" where
  "fexpand input =
    [fexpand_limb input 0 0 0x3ffffff,
     fexpand_limb input 3 2 0x1ffffff,
     fexpand_limb input 6 3 0x3ffffff,
     fexpand_limb input 9 5 0x1ffffff,
     fexpand_limb input 12 6 0x3ffffff,
     fexpand_limb input 16 0 0x1ffffff,
     fexpand_limb input 19 1 0x3ffffff,
     fexpand_limb input 22 3 0x1ffffff,
     fexpand_limb input 25 4 0x3ffffff,
     fexpand_limb input 28 6 0x1ffffff]"

section \<open>fcontract\<close>

definition s32_eq :: "i32 \<Rightarrow> i32 \<Rightarrow> i32" where
  "s32_eq a b =
     (let a = NOT (a XOR b);
          a = a AND push_bit 16 a;
          a = a AND push_bit 8 a;
          a = a AND push_bit 4 a;
          a = a AND push_bit 2 a;
          a = a AND push_bit 1 a
      in signed_drop_bit 31 a)"

definition s32_gte :: "i32 \<Rightarrow> i32 \<Rightarrow> i32" where
  "s32_gte a b = (let a = a - b in NOT (signed_drop_bit 31 a))"

text \<open>One borrow, from limb \<open>i\<close> of \<open>w\<close> bits to limb \<open>d\<close>, which receives \<open>k\<close> times the carry.\<close>

definition fcontract_borrow :: "nat \<Rightarrow> nat \<Rightarrow> nat \<Rightarrow> i32 \<Rightarrow> i32 list \<Rightarrow> i32 list" where
  "fcontract_borrow w i d k input =
     (let msk = signed_drop_bit 31 (input ! i);
          carry = - signed_drop_bit w (input ! i AND msk);
          input = input[i := input ! i + push_bit w carry]
      in input[d := input ! d - carry * k])"

definition fcontract_carry :: "nat \<Rightarrow> i32 \<Rightarrow> nat \<Rightarrow> nat \<Rightarrow> i32 \<Rightarrow> i32 list \<Rightarrow> i32 list" where
  "fcontract_carry w msk i d k input =
     (let carry = signed_drop_bit w (input ! i);
          input = input[i := input ! i AND msk]
      in input[d := input ! d + k * carry])"

text \<open>The body of the two loops over \<open>j\<close>.\<close>

definition fcontract_borrows :: "i32 list \<Rightarrow> i32 list" where
  "fcontract_borrows input =
     (let input = foldl (\<lambda>input i.
            if odd i then fcontract_borrow 25 i (i + 1) 1 input
            else fcontract_borrow 26 i (i + 1) 1 input) input [0..<9]
      in fcontract_borrow 25 9 0 19 input)"

definition fcontract_carries :: "i32 list \<Rightarrow> i32 list" where
  "fcontract_carries input =
     (let input = foldl (\<lambda>input i.
            if odd i then fcontract_carry 25 0x1ffffff i (i + 1) 1 input
            else fcontract_carry 26 0x3ffffff i (i + 1) 1 input) input [0..<9]
      in fcontract_carry 25 0x1ffffff 9 0 19 input)"

text \<open>All bits set when the limbs are at least those of 2^255-19.\<close>

definition fcontract_mask :: "i32 list \<Rightarrow> i32" where
  "fcontract_mask input =
     foldl (\<lambda>msk i.
       if odd i then msk AND s32_eq (input ! i) 0x1ffffff
       else msk AND s32_eq (input ! i) 0x3ffffff) (s32_gte (input ! 0) 0x3ffffed) [1..<10]"

definition fcontract_subtract :: "i32 \<Rightarrow> i32 list \<Rightarrow> i32 list" where
  "fcontract_subtract msk input =
     foldl (\<lambda>input i.
       if odd i then input[i := input ! i - (msk AND 0x1ffffff)]
       else input[i := input ! i - (msk AND 0x3ffffff)])
       (input[0 := input ! 0 - (msk AND 0x3ffffed)]) [1..<10]"

definition fcontract_shift :: "i32 list \<Rightarrow> i32 list" where
  "fcontract_shift input =
     foldl (\<lambda>input (i, s). input[i := push_bit s (input ! i)]) input
       [(1, 2), (2, 3), (3, 5), (4, 6), (6, 1), (7, 3), (8, 4), (9, 6)]"

text \<open>The macro \<open>F(i, s)\<close>, and the stores; \<open>output\<close> has 32 bytes.\<close>

definition fcontract_put :: "i32 list \<Rightarrow> u8 list \<Rightarrow> nat \<times> nat \<Rightarrow> u8 list" where
  "fcontract_put input output = (\<lambda>(i, s).
     let output = output[s + 0 := output ! (s + 0) OR ucast (input ! i AND 0xff)];
         output = output[s + 1 := ucast (signed_drop_bit 8 (input ! i) AND 0xff)];
         output = output[s + 2 := ucast (signed_drop_bit 16 (input ! i) AND 0xff)]
     in output[s + 3 := ucast (signed_drop_bit 24 (input ! i) AND 0xff)])"

definition fcontract_store :: "u8 list \<Rightarrow> i32 list \<Rightarrow> u8 list" where
  "fcontract_store output input =
     (let output = output[0 := 0];
          output = output[16 := 0]
      in foldl (fcontract_put input) output
           [(0, 0), (1, 3), (2, 6), (3, 9), (4, 12), (5, 16), (6, 19), (7, 22), (8, 25), (9, 28)])"

definition fcontract :: "u8 list \<Rightarrow> i64 list \<Rightarrow> u8 list" where
  "fcontract output input_limbs =
     (let input = map ucast (take 10 input_limbs);
          input = fcontract_borrows input;
          input = fcontract_borrows input;
          input = fcontract_borrow 26 0 1 1 input;
          input = fcontract_carries input;
          input = fcontract_carries input;
          input = fcontract_subtract (fcontract_mask input) input
      in fcontract_store output (fcontract_shift input))"

section \<open>Expansion\<close>

lemma fexpand_limb_value:
  assumes "start + 3 < length s"
  shows "sint (fexpand_limb s start shift (word_of_int (2 ^ w - 1))) =
    le_value s div 2 ^ (8 * start) mod 2 ^ 32 div 2 ^ shift mod 2 ^ w"
proof -
  define x where "x = le_value s div 256 ^ start mod 2 ^ 32"
  have l: "fexpand_limb s start shift m = signed_drop_bit shift (load_4 s start) AND m" for m
    by (simp add: fexpand_limb_def load_4_def Let_def or.assoc)
  have x: "0 \<le> x" "x < 2 ^ 32" by (simp_all add: x_def)
  have "load_4 s start = word_of_int x" using load_4_value [OF assms] by (simp add: x_def)
  moreover have "fits 64 x" using x by (simp add: fits_def)
  ultimately have "sint (signed_drop_bit shift (load_4 s start)) = x div 2 ^ shift"
    by (simp add: sint_shift_right sint_of_int_64)
  then have "signed_drop_bit shift (load_4 s start) = word_of_int (x div 2 ^ shift)"
    by (metis word_as_sint)
  then have "fexpand_limb s start shift (word_of_int (2 ^ w - 1)) = word_of_int (x div 2 ^ shift mod 2 ^ w)"
    by (simp only: l and_mask_int)
  moreover have "fits 64 (x div 2 ^ shift mod 2 ^ w)"
  proof -
    define y where "y = x div 2 ^ shift"
    define z where "z = y mod 2 ^ w"
    have "0 \<le> y" using x by (simp add: y_def pos_imp_zdiv_nonneg_iff)
    then have "z \<le> y" unfolding z_def by (rule zmod_le_nonneg_dividend)
    moreover have "y \<le> x" using zdiv_mono2 [of x 1 "2 ^ shift"] x by (simp add: y_def)
    moreover have "0 \<le> z" by (simp add: z_def)
    ultimately have "fits 64 z" using x by (simp add: fits_def)
    then show ?thesis by (simp add: z_def y_def)
  qed
  ultimately show ?thesis by (simp add: sint_of_int_64 x_def power_mult)
qed

text \<open>The digits of a number at the bit positions of the limbs.\<close>

lemma fe_digits_sum:
  "(\<Sum>i<n. fe_weight i * (v div 2 ^ fe_exp i mod 2 ^ (fe_exp (Suc i) - fe_exp i))) = v mod 2 ^ fe_exp n"
proof (induction n)
  case (Suc n)
  have "fe_exp (Suc n) = fe_exp n + (fe_exp (Suc n) - fe_exp n)" by (simp add: fe_exp_def)
  from mod_split_at [OF this, of v] show ?case using Suc by (simp add: fe_weight_def)
qed (simp add: fe_exp_def)

lemma div_mod_window: "j + w \<le> k \<Longrightarrow> (v :: int) mod 2 ^ k div 2 ^ j mod 2 ^ w = v div 2 ^ j mod 2 ^ w"
proof -
  assume "j + w \<le> k"
  then obtain d where k: "k = j + (w + d)" by (metis add.assoc le_Suc_ex)
  have "v mod 2 ^ k div 2 ^ j = v div 2 ^ j mod 2 ^ (w + d)"
    unfolding k by (subst mod_split_pow) simp
  then show ?thesis by (simp add: mod_mod_cancel le_imp_power_dvd)
qed

lemma fexpand_correct:
  assumes "length s = 32"
  shows "length (fexpand s) = 10" "dn_terms 1 (fexpand s)"
    "dn_int (fexpand s) = le_value s mod 2 ^ 255"
proof -
  show l: "length (fexpand s) = 10" by (simp add: fexpand_def)
  define w where "w i = fe_exp (Suc i) - fe_exp i" for i
  have w: "w i = (if even i then 26 else 25)" for i by (auto simp: w_def fe_exp_def elim!: evenE oddE)
  have d: "sint (fexpand s ! i) = le_value s div 2 ^ fe_exp i mod 2 ^ w i" if "i < 10" for i
  proof -
    have e: "sint (fexpand_limb s start shift m) = le_value s div 2 ^ fe_exp i mod 2 ^ w i"
      if "8 * start + shift = fe_exp i" "m = word_of_int (2 ^ w i - 1)" "start + 3 < 32" "shift + w i \<le> 32"
      for start shift m
    proof -
      have "le_value s div 2 ^ (8 * start) mod 2 ^ 32 div 2 ^ shift mod 2 ^ w i =
          le_value s div 2 ^ (8 * start) div 2 ^ shift mod 2 ^ w i"
        by (rule div_mod_window) (use that in simp)
      also have "le_value s div 2 ^ (8 * start) div 2 ^ shift = le_value s div 2 ^ fe_exp i"
        unfolding that(1) [symmetric] power_add by (simp add: zdiv_zmult2_eq)
      finally show ?thesis
        using fexpand_limb_value [of start s shift "w i"] assms that by simp
    qed
    have "i \<in> {0, 1, 2, 3, 4, 5, 6, 7, 8, 9}" using that by auto
    then show ?thesis
      by (elim insertE emptyE; simp only: fexpand_def nth_Cons_numeral nth_Cons_0)
        (simp_all add: e w fe_exp_def)
  qed
  show "dn_int (fexpand s) = le_value s mod 2 ^ 255"
    using fe_digits_sum [where n = 10] by (simp add: dn_int_def d w_def fe_exp_def)
  have "\<bar>sint (fexpand s ! i)\<bar> \<le> 2 ^ 26 - 1" if "i < 10" for i
  proof -
    define z where "z = le_value s div 2 ^ fe_exp i mod 2 ^ w i"
    have "0 \<le> z" "z < 2 ^ w i" by (simp_all add: z_def)
    moreover have "(2 :: int) ^ w i \<le> 2 ^ 26" by (simp add: w)
    moreover have "sint (fexpand s ! i) = z" using d [OF that] by (simp only: z_def)
    ultimately show ?thesis by simp
  qed
  then show "dn_terms 1 (fexpand s)" using l by (simp add: dn_terms_def)
qed

section \<open>Comparison\<close>

lemma sign_word: "signed_drop_bit 31 (x :: i32) = (if sint x < 0 then - 1 else 0)"
proof (rule bit_word_eqI)
  fix n
  assume n: "n < LENGTH(32)"
  have "bit x 31 \<longleftrightarrow> sint x < 0" using bit_last_iff [of x] by simp
  then show "bit (signed_drop_bit 31 x) n = bit (if sint x < 0 then - 1 else (0 :: i32)) n"
    using n by (cases "n = 0") (auto simp: bit_simps)
qed

lemma s32_gte_eq:
  assumes "0 \<le> sint a" "0 \<le> sint b"
  shows "s32_gte a b = (if sint b \<le> sint a then - 1 else 0)"
proof -
  have "sint a < 2 ^ 31" "sint b < 2 ^ 31" using sint_less [of a] sint_less [of b] by simp_all
  then have "sint (a - b) = sint a - sint b" using assms by (intro sint_sub) (simp add: fits_def)
  then show ?thesis by (simp add: s32_gte_def Let_def sign_word)
qed

lemma s32_eq_eq: "s32_eq a b = (if a = b then - 1 else 0)"
proof -
  define t :: "nat \<Rightarrow> i32 \<Rightarrow> i32" where "t k x = x AND push_bit k x" for k x
  define c where "c = NOT (a XOR b)"
  define h where "h = t 1 (t 2 (t 4 (t 8 (t 16 c))))"
  have s: "s32_eq a b = signed_drop_bit 31 h"
    by (simp only: s32_eq_def Let_def h_def t_def c_def)
  have t: "bit (t k x) n \<longleftrightarrow> bit x n \<and> bit x (n - k)" if "k \<le> n" "n < 32" for k n x
    using that by (simp add: t_def bit_simps)
  have b: "bit h 31 \<longleftrightarrow> (\<forall>n\<in>{0..31}. bit c n)"
  proof
    assume "bit h 31"
    then have *: "list_all (bit c) [31, 15, 23, 7, 27, 11, 19, 3, 29, 13, 21, 5, 25, 9, 17, 1,
        30, 14, 22, 6, 26, 10, 18, 2, 28, 12, 20, 4, 24, 8, 16, 0]"
      unfolding h_def by (simp add: t)
    show "\<forall>n\<in>{0..31}. bit c n"
    proof
      fix n :: nat
      assume "n \<in> {0..31}"
      then have "n \<in> set [31, 15, 23, 7, 27, 11, 19, 3, 29, 13, 21, 5, 25, 9, 17, 1,
        30, 14, 22, 6, 26, 10, 18, 2, 28, 12, 20, 4, 24, 8, 16, 0]" by (simp; presburger)
      then show "bit c n" using * by (simp only: list_all_iff)
    qed
  next
    assume *: "\<forall>n\<in>{0..31}. bit c n"
    show "bit h 31" unfolding h_def by (simp add: t *)
  qed
  have "(\<forall>n\<in>{0..31}. bit c n) \<longleftrightarrow> a = b"
  proof
    assume c: "\<forall>n\<in>{0..31}. bit c n"
    show "a = b"
    proof (rule bit_word_eqI)
      fix n
      assume "n < LENGTH(32)"
      then have "bit c n" using c by simp
      then show "bit a n = bit b n" by (auto simp: c_def bit_simps)
    qed
  qed (simp add: c_def)
  with b have "sint h < 0 \<longleftrightarrow> a = b" using bit_last_iff [of h] by simp
  then show ?thesis unfolding s sign_word by simp
qed

section \<open>Borrows and carries as limb programs\<close>

lemma fcontract_borrow_step:
  assumes "i \<noteq> d" "i < length s" "d < length s"
  shows "fcontract_borrow w i d (word_of_int k) s = step_w (Borrow i w [(d, k)]) s"
proof -
  have "push_bit w (- c) = - push_bit w (c :: i32)" for c by (simp add: push_bit_eq_mult)
  moreover have "s ! i AND (if sint (s ! i) < 0 then - 1 else 0) = (if sint (s ! i) < 0 then s ! i else 0)"
    by simp
  ultimately show ?thesis using assms
    by (cases "sint (s ! i) < 0"; simp add: fcontract_borrow_def Let_def sign_word move_w_def list_update_swap)
qed

lemma low_bits: "x AND mask w = x - push_bit w (signed_drop_bit w (x :: i32))"
proof -
  have "(x AND mask w) OR push_bit w (signed_drop_bit w x) = x"
  proof (rule bit_word_eqI)
    fix n
    assume "n < LENGTH(32)"
    moreover from this have "\<not> n < w \<Longrightarrow> min (n - w + w) 31 = n" by simp
    ultimately show "bit ((x AND mask w) OR push_bit w (signed_drop_bit w x)) n = bit x n"
      by (cases "n < w") (auto simp: bit_simps min_def)
  qed
  moreover have "(x AND mask w) AND push_bit w (signed_drop_bit w x) = 0"
    by (rule bit_word_eqI) (auto simp: bit_simps)
  ultimately have "(x AND mask w) + push_bit w (signed_drop_bit w x) = x"
    by (simp add: disjunctive_add_eq_or)
  then show ?thesis by (simp add: algebra_simps)
qed

lemma fcontract_carry_step:
  assumes "i \<noteq> d" "i < length s" "d < length s" "msk = mask w"
  shows "fcontract_carry w msk i d (word_of_int k) s = step_w (Carry i w 0 [(d, k)]) s"
  using assms by (simp add: fcontract_carry_def Let_def low_bits move_w_def list_update_swap mult.commute)

definition fcontract_borrow_steps :: "limb_step list" where
  "fcontract_borrow_steps =
     map (\<lambda>i. Borrow i (if odd i then 25 else 26) [(i + 1, 1)]) [0, 1, 2, 3, 4, 5, 6, 7, 8] @ [Borrow 9 25 [(0, 19)]]"

definition fcontract_carry_steps :: "limb_step list" where
  "fcontract_carry_steps =
     map (\<lambda>i. Carry i (if odd i then 25 else 26) 0 [(i + 1, 1)]) [0, 1, 2, 3, 4, 5, 6, 7, 8] @ [Carry 9 25 0 [(0, 19)]]"

lemma foldl_run: "foldl (\<lambda>s i. step_w (f i) s) s is = run_w (map f is) s"
  by (induction "is" arbitrary: s) auto

lemma fcontract_loops:
  assumes "length s = 10"
  shows "fcontract_borrows s = run_w fcontract_borrow_steps s"
    and "fcontract_carries s = run_w fcontract_carry_steps s"
proof -
  let ?b = "\<lambda>i. Borrow i (if odd i then 25 else 26) [(i + 1, 1)]"
  let ?c = "\<lambda>i. Carry i (if odd i then 25 else 26) 0 [(i + 1, 1)]"
  have m: "0x1ffffff = (mask 25 :: i32)" "0x3ffffff = (mask 26 :: i32)"
    by (simp_all add: mask_eq_exp_minus_1)
  have u: "[0..<9] = [0, 1, 2, 3, 4, 5, 6, 7, 8 :: nat]" by (simp add: upt_conv_Cons)
  define t where "t = run_w (map ?b [0..<9]) s"
  have "foldl (\<lambda>s i. if odd i then fcontract_borrow 25 i (i + 1) 1 s
      else fcontract_borrow 26 i (i + 1) 1 s) s [0..<9] = foldl (\<lambda>s i. step_w (?b i) s) s [0..<9]"
    using assms fcontract_borrow_step [where k = 1] by (intro foldl_cong_length) auto
  then have "fcontract_borrows s = fcontract_borrow 25 9 0 19 t"
    by (simp only: fcontract_borrows_def Let_def foldl_run t_def)
  also have "\<dots> = run_w [Borrow 9 25 [(0, 19)]] t"
    using fcontract_borrow_step [of 9 0 t 25 19] assms by (simp only: run_w.simps) (simp add: t_def)
  finally show "fcontract_borrows s = run_w fcontract_borrow_steps s"
    by (simp only: fcontract_borrow_steps_def run_w_append t_def u)
  define v where "v = run_w (map ?c [0..<9]) s"
  have "foldl (\<lambda>s i. if odd i then fcontract_carry 25 0x1ffffff i (i + 1) 1 s
      else fcontract_carry 26 0x3ffffff i (i + 1) 1 s) s [0..<9] = foldl (\<lambda>s i. step_w (?c i) s) s [0..<9]"
    using assms fcontract_carry_step [where k = 1] by (intro foldl_cong_length) (auto simp: m)
  then have "fcontract_carries s = fcontract_carry 25 0x1ffffff 9 0 19 v"
    by (simp only: fcontract_carries_def Let_def foldl_run v_def)
  also have "\<dots> = run_w [Carry 9 25 0 [(0, 19)]] v"
    using fcontract_carry_step [of 9 0 v "0x1ffffff" 25 19] assms
    by (simp only: run_w.simps) (simp add: v_def m(1))
  finally show "fcontract_carries s = run_w fcontract_carry_steps s"
    by (simp only: fcontract_carry_steps_def run_w_append v_def u)
qed

section \<open>Normalisation\<close>

text \<open>
  The intervals of the limbs between the loops of \<open>fcontract\<close>. After the first pass of
  borrows only limb 0 may be negative; the second pass is analysed for the two signs of that
  limb, and the second pass of carries for the two cases of an overflow of limb 0.
\<close>

definition fc_start :: "ivl list" where
  "fc_start = replicate 10 (-67108863, 67108863)"

definition fc_positive :: "ivl list" where
  "fc_positive = replicate 10 (0, 67108863)"

definition fc_rest :: "ivl list" where
  "fc_rest = [(0, 33554431), (0, 67108863), (0, 33554431), (0, 67108863), (0, 33554431),
     (0, 67108863), (0, 33554431), (0, 67108863), (0, 33554431)]"

definition fc_normal :: "limb_step list" where
  "fc_normal = fcontract_borrow_steps @ [Borrow 0 26 [(1, 1)]]"

lemma fc_steps_ok:
  "list_all (step_ok fe_weight fe_p 10) fcontract_borrow_steps"
  "list_all (step_ok fe_weight fe_p 10) fcontract_carry_steps"
  "list_all (step_ok fe_weight fe_p 10) fc_normal"
  by (simp_all add: fc_normal_def fcontract_borrow_steps_def fcontract_carry_steps_def fe_weight_def
      fe_exp_def fe_p_def)

lemma fc_analyses:
  "run_i 32 fcontract_borrow_steps fc_start = Some ((-57, 67108863) # replicate 9 (0, 67108863))"
  "run_i 32 fc_normal ((-57, -1) # replicate 9 (0, 67108863)) =
     Some ((67108788, 67108863) # (0, 67108862) # replicate 8 (0, 67108863))"
  "run_i 32 fc_normal fc_positive = Some fc_positive"
  "run_i 32 fcontract_carry_steps fc_positive = Some ((0, 67108901) # fc_rest)"
  "run_i 32 fcontract_carry_steps ((67108864, 67108901) # fc_rest) = Some ((0, 56) # fc_rest)"
  "run_i 32 fcontract_carry_steps ((0, 67108863) # fc_rest) = Some ((0, 67108863) # fc_rest)"
  by code_simp+

lemma fc_run:
  fixes s :: "i32 list"
  assumes "list_all (step_ok fe_weight fe_p 10) p" "run_i 32 p I = Some J" "length I = 10"
    and "in_ivls (map sint s) I"
  shows "in_ivls (map sint (run_w p s)) J \<and> fe_val (run_w p s) mod fe_p = fe_val s mod fe_p"
proof -
  have "limb_program TYPE(32) fe_weight fe_p p I J" using assms(1-3) by unfold_locales simp_all
  from limb_program.bounded [OF this assms(4)] limb_program.keeps_value [OF this assms(4)]
  show ?thesis by (simp add: fe_val_def)
qed

lemma in_ivls_mono:
  "in_ivls s I \<Longrightarrow> list_all2 (\<lambda>I J. fst J \<le> fst I \<and> snd I \<le> snd J) I J \<Longrightarrow> in_ivls s J"
  unfolding in_ivls_def in_ivl_def list_all2_conv_all_nth by (metis order_trans)

lemma in_ivls_split:
  assumes "in_ivls s ((a, b) # I)"
  obtains "in_ivls s ((a, c - 1) # I)" | "in_ivls s ((c, b) # I)"
proof -
  from assms obtain x t where s: "s = x # t" by (cases s) (auto simp: in_ivls_def)
  with assms that show ?thesis by (cases "x < c") (auto simp: in_ivls_Cons in_ivl_def)
qed

lemma fc_borrowed:
  assumes "in_ivls (map sint s) fc_start"
  defines "t \<equiv> run_w fc_normal (run_w fcontract_borrow_steps s)"
  shows "in_ivls (map sint t) fc_positive \<and> fe_val t mod fe_p = fe_val s mod fe_p"
proof -
  define u where "u = run_w fcontract_borrow_steps s"
  have u: "in_ivls (map sint u) ((-57, 67108863) # replicate 9 (0, 67108863))"
    "fe_val u mod fe_p = fe_val s mod fe_p"
    using fc_run [OF fc_steps_ok(1) fc_analyses(1) _ assms(1)] by (simp_all add: u_def fc_start_def)
  from u(1) have "in_ivls (map sint t) fc_positive \<and> fe_val t mod fe_p = fe_val u mod fe_p"
  proof (rule in_ivls_split [where c = 0])
    assume "in_ivls (map sint u) ((-57, 0 - 1) # replicate 9 (0, 67108863))"
    with fc_run [OF fc_steps_ok(3) fc_analyses(2)]
    have "in_ivls (map sint t) ((67108788, 67108863) # (0, 67108862) # replicate 8 (0, 67108863)) \<and>
      fe_val t mod fe_p = fe_val u mod fe_p" by (simp add: t_def u_def)
    then show ?thesis by (elim conjE, intro conjI, elim in_ivls_mono) (simp_all add: fc_positive_def numeral_eq_Suc)
  next
    assume "in_ivls (map sint u) ((0, 67108863) # replicate 9 (0, 67108863))"
    then have "in_ivls (map sint u) fc_positive" by (simp add: fc_positive_def numeral_eq_Suc)
    with fc_run [OF fc_steps_ok(3) fc_analyses(3)] show ?thesis
      by (simp add: t_def u_def fc_positive_def)
  qed
  with u(2) show ?thesis by simp
qed

lemma fc_carried:
  assumes "in_ivls (map sint s) fc_positive"
  defines "t \<equiv> run_w fcontract_carry_steps (run_w fcontract_carry_steps s)"
  shows "in_ivls (map sint t) fe_canonical_ivls \<and> fe_val t mod fe_p = fe_val s mod fe_p"
proof -
  define u where "u = run_w fcontract_carry_steps s"
  have u: "in_ivls (map sint u) ((0, 67108901) # fc_rest)" "fe_val u mod fe_p = fe_val s mod fe_p"
    using fc_run [OF fc_steps_ok(2) fc_analyses(4) _ assms(1)] by (simp_all add: u_def fc_positive_def)
  have c: "fe_canonical_ivls = (0, 67108863) # fc_rest" by (simp add: fe_canonical_ivls_def fc_rest_def)
  have l: "length fc_rest = 9" by (simp add: fc_rest_def)
  from u(1) have "in_ivls (map sint t) fe_canonical_ivls \<and> fe_val t mod fe_p = fe_val u mod fe_p"
  proof (rule in_ivls_split [where c = 67108864])
    assume "in_ivls (map sint u) ((67108864, 67108901) # fc_rest)"
    with fc_run [OF fc_steps_ok(2) fc_analyses(5)] l
    have "in_ivls (map sint t) ((0, 56) # fc_rest) \<and> fe_val t mod fe_p = fe_val u mod fe_p"
      by (simp add: t_def u_def)
    then show ?thesis by (auto simp: c list_all2_refl elim: in_ivls_mono)
  next
    assume "in_ivls (map sint u) ((0, 67108864 - 1) # fc_rest)"
    with fc_run [OF fc_steps_ok(2) fc_analyses(6)] l show ?thesis by (simp add: t_def u_def c)
  qed
  with u(2) show ?thesis by simp
qed

section \<open>The final subtraction\<close>

lemma foldl_and_flags:
  "foldl (\<lambda>m i. m AND (if P i then - 1 else 0)) (if b then - 1 else 0) is =
    (if b \<and> list_all P is then - 1 else (0 :: 'a::len word))"
proof (induction "is" arbitrary: b)
  case (Cons i "is")
  have "(if b then - 1 else 0) AND (if P i then - 1 else 0) = (if b \<and> P i then - 1 else (0 :: 'a word))"
    by simp
  then show ?case by (simp only: foldl.simps Cons) (simp only: list.pred_inject conj_assoc)
qed simp

lemma fcontract_mask_eq:
  assumes "0 \<le> sint (h ! 0)"
  shows "fcontract_mask h =
    (if 67108845 \<le> sint (h ! 0) \<and> list_all (\<lambda>i. h ! i = (if odd i then 0x1ffffff else 0x3ffffff)) [1..<10]
     then - 1 else 0)"
proof -
  have f: "(\<lambda>m i. if odd i then m AND s32_eq (h ! i) 0x1ffffff else m AND s32_eq (h ! i) 0x3ffffff) =
      (\<lambda>m i. m AND (if h ! i = (if odd i then 0x1ffffff else 0x3ffffff) then - 1 else 0))"
    by (intro ext) (simp add: s32_eq_eq)
  have "s32_gte (h ! 0) 0x3ffffed = (if 67108845 \<le> sint (h ! 0) then - 1 else 0)"
    using assms s32_gte_eq [of "h ! 0" "0x3ffffed"] by simp
  then have "fcontract_mask h = foldl (\<lambda>m i. m AND (if h ! i = (if odd i then 0x1ffffff else 0x3ffffff) then - 1 else 0))
      (if 67108845 \<le> sint (h ! 0) then - 1 else 0) [1..<10]"
    unfolding fcontract_mask_def f by simp
  then show ?thesis by (simp only: foldl_and_flags)
qed

text \<open>The limbs of a canonical number that is not below 2^255-19.\<close>

lemma fe_val_ge_p:
  assumes h: "in_ivls (map sint h) fe_canonical_ivls"
  shows "fe_p \<le> fe_val h \<longleftrightarrow>
    67108845 \<le> sint (h ! 0) \<and> (\<forall>i\<in>{1..<10}. h ! i = (if odd i then 0x1ffffff else 0x3ffffff))"
proof -
  note c = fe_canonicalD [OF h]
  define d where "d i = (if even i then 67108863 else 33554431) - sint (h ! i)" for i
  have d: "0 \<le> d i" if "i < 10" for i using c(3) [OF that] by (auto simp: d_def)
  have s: "sint (h ! i) = (if even i then 67108863 else 33554431) - d i" for i by (simp add: d_def)
  have v: "fe_val h = 2 ^ 255 - 1 - (\<Sum>i<10. fe_weight i * d i)"
    by (simp add: fe_val_sum [OF c(1)] sum_less_10 fe_weight_def fe_exp_def d_def)
  have "(\<Sum>i<10. fe_weight i * d i) \<le> 18 \<longleftrightarrow> d 0 \<le> 18 \<and> (\<forall>i\<in>{1..<10}. d i = 0)"
  proof
    assume le: "(\<Sum>i<10. fe_weight i * d i) \<le> 18"
    have *: "fe_weight i * d i \<le> 18" if "i < 10" for i
    proof -
      have "fe_weight i * d i \<le> (\<Sum>i<10. fe_weight i * d i)"
        by (rule member_le_sum) (use that d in \<open>auto simp: fe_weight_def\<close>)
      then show ?thesis using le by simp
    qed
    show "d 0 \<le> 18 \<and> (\<forall>i\<in>{1..<10}. d i = 0)"
    proof (intro conjI ballI)
      show "d 0 \<le> 18" using * [of 0] by (simp add: fe_weight_def fe_exp_def)
      fix i :: nat
      assume i: "i \<in> {1..<10}"
      have "2 ^ 26 * d i \<le> fe_weight i * d i"
      proof (rule mult_right_mono)
        have "26 \<le> fe_exp i" using i unfolding fe_exp_def atLeastLessThan_iff by presburger
        then show "2 ^ 26 \<le> fe_weight i" unfolding fe_weight_def by (rule power_increasing) simp
      qed (use i d [of i] in simp)
      then show "d i = 0" using * [of i] d [of i] i by simp
    qed
  next
    assume "d 0 \<le> 18 \<and> (\<forall>i\<in>{1..<10}. d i = 0)"
    then show "(\<Sum>i<10. fe_weight i * d i) \<le> 18" by (simp add: sum_less_10 fe_weight_def fe_exp_def)
  qed
  moreover have "d i = 0 \<longleftrightarrow> h ! i = (if odd i then 0x1ffffff else 0x3ffffff)" for i
    using word_eq_iff_signed [of "h ! i" "if odd i then 0x1ffffff else 0x3ffffff"]
    by (auto simp: d_def)
  ultimately show ?thesis unfolding v fe_p_def using s [of 0] by auto
qed

lemma fcontract_subtract_nth:
  assumes "length h = 10"
  shows "length (fcontract_subtract m h) = 10" and "fcontract_subtract m h ! 0 = h ! 0 - (m AND 0x3ffffed)"
    and "i \<in> {1..<10} \<Longrightarrow> fcontract_subtract m h ! i = h ! i - (m AND (if odd i then 0x1ffffff else 0x3ffffff))"
proof -
  have u: "[1..<10] = [1, 2, 3, 4, 5, 6, 7, 8, 9 :: nat]" by (simp add: upt_conv_Cons)
  have n: "h \<noteq> []" using assms by auto
  show "length (fcontract_subtract m h) = 10" "fcontract_subtract m h ! 0 = h ! 0 - (m AND 0x3ffffed)"
    using assms n unfolding fcontract_subtract_def u by simp_all
  assume "i \<in> {1..<10}"
  then have "i \<in> {1, 2, 3, 4, 5, 6, 7, 8, 9}" by auto
  then show "fcontract_subtract m h ! i = h ! i - (m AND (if odd i then 0x1ffffff else 0x3ffffff))"
    using assms n unfolding fcontract_subtract_def u by auto
qed

lemma fcontract_subtract_correct:
  assumes h: "in_ivls (map sint h) fe_canonical_ivls"
  defines "r \<equiv> fcontract_subtract (fcontract_mask h) h"
  shows "in_ivls (map sint r) fe_canonical_ivls" "fe_val r = fe_val h mod fe_p"
proof -
  note c = fe_canonicalD [OF h]
  note b = fe_canonical_bounds [OF h]
  have m: "fcontract_mask h = (if fe_p \<le> fe_val h then - 1 else 0)"
    using fcontract_mask_eq [OF c(2) [of 0]] fe_val_ge_p [OF h] by (simp add: list_all_iff)
  note n = fcontract_subtract_nth [OF c(1), where m = "fcontract_mask h", folded r_def]
  have "in_ivls (map sint r) fe_canonical_ivls \<and> fe_val r = fe_val h mod fe_p"
  proof (cases "fe_p \<le> fe_val h")
    case True
    note p = True [unfolded fe_val_ge_p [OF h]]
    have "fits 32 (sint (h ! 0) - 67108845)" using c(2,3) [of 0] by (simp add: fits_def)
    then have r0: "sint (r ! 0) = sint (h ! 0) - 67108845" using n(2) m True by (simp add: sint_sub)
    have ri: "r ! i = 0" if "i \<in> {1..<10}" for i using n(3) [OF that] p that m True by simp
    have "in_ivls (map sint r) fe_canonical_ivls"
      using n(1) r0 ri p c(3) [of 0] by (auto simp: in_ivls_def fe_canonical_ivls_def all_less_10 in_ivl_def)
    moreover have "fe_val r = sint (h ! 0) - 67108845"
      by (simp add: fe_val_sum [OF n(1)] sum_less_10 ri r0 fe_weight_def fe_exp_def)
    moreover have "fe_val h - fe_p = sint (h ! 0) - 67108845"
      using p by (simp add: fe_val_sum [OF c(1)] sum_less_10 fe_weight_def fe_exp_def fe_p_def)
    moreover have "fe_val h mod fe_p = fe_val h - fe_p"
    proof -
      have "(fe_val h - fe_p) mod fe_p = fe_val h - fe_p"
        using b True by (intro mod_pos_pos_trivial) (simp_all add: fe_p_def)
      then show ?thesis by simp
    qed
    ultimately show ?thesis by simp
  next
    case False
    have "r = h"
    proof (rule nth_equalityI)
      fix i
      assume "i < length r"
      then show "r ! i = h ! i" using n(2) n(3) [of i] n(1) m False by (cases "i = 0") simp_all
    qed (use n c in simp)
    then show ?thesis using h b False by simp
  qed
  then show "in_ivls (map sint r) fe_canonical_ivls" "fe_val r = fe_val h mod fe_p" by simp_all
qed

section \<open>The stores\<close>

lemma low_byte: "(ucast (x AND 0xff) :: u8) = ucast (x :: i32)"
proof -
  have m: "0xff = (mask 8 :: i32)" by (simp add: mask_eq_exp_minus_1)
  show ?thesis by (rule bit_word_eqI) (auto simp: m bit_simps)
qed

lemma put_byte:
  assumes "k \<le> 24" "s \<le> k"
  shows "(ucast (signed_drop_bit k (push_bit s (x :: i32))) :: u8) = ucast (signed_drop_bit (k - s) x)"
proof (rule bit_word_eqI)
  obtain j where k: "k = s + j" using assms(2) le_Suc_ex by blast
  fix n
  assume "n < LENGTH(8)"
  then have "\<not> 32 - k \<le> n" "\<not> 32 - j \<le> n" "n < 8" "s + j + n < 32" using assms(1) k by simp_all
  then show "bit (ucast (signed_drop_bit k (push_bit s x)) :: u8) n =
      bit (ucast (signed_drop_bit (k - s) x) :: u8) n"
    unfolding k by (simp add: bit_simps)
qed

lemma list32:
  "length s = 32 \<Longrightarrow> s = [s ! 0, s ! 1, s ! 2, s ! 3, s ! 4, s ! 5, s ! 6, s ! 7, s ! 8, s ! 9, s ! 10,
    s ! 11, s ! 12, s ! 13, s ! 14, s ! 15, s ! 16, s ! 17, s ! 18, s ! 19, s ! 20, s ! 21, s ! 22,
    s ! 23, s ! 24, s ! 25, s ! 26, s ! 27, s ! 28, s ! 29, s ! 30, s ! 31]"
  by (auto simp: numeral_eq_Suc length_Suc_conv)

lemma put_window:
  assumes "s + 3 < length v"
  shows "fcontract_put input v (i, s) =
    take s v @ (v ! s OR ucast (input ! i)) # ucast (signed_drop_bit 8 (input ! i)) #
      ucast (signed_drop_bit 16 (input ! i)) # ucast (signed_drop_bit 24 (input ! i)) # drop (s + 4) v"
proof (rule nth_equalityI)
  fix k
  assume k: "k < length (fcontract_put input v (i, s))"
  consider "k < s" | "k = s" | "k = s + 1" | "k = s + 2" | "k = s + 3" | j where "k = s + 4 + j"
  proof (cases "k < s + 4")
    case False
    then show ?thesis using that(6) by (metis le_Suc_ex linorder_not_le)
  qed (use that in linarith)
  then show "fcontract_put input v (i, s) ! k = (take s v @ (v ! s OR ucast (input ! i)) #
      ucast (signed_drop_bit 8 (input ! i)) # ucast (signed_drop_bit 16 (input ! i)) #
      ucast (signed_drop_bit 24 (input ! i)) # drop (s + 4) v) ! k"
    by cases (use assms in \<open>simp_all add: fcontract_put_def Let_def nth_append low_byte\<close>)
qed (use assms in \<open>simp add: fcontract_put_def Let_def\<close>)

lemma fcontract_store_shift:
  assumes "length output = 32" "length h = 10"
  shows "fcontract_store output (fcontract_shift h) = fe_store_bytes h"
proof -
  define g where "g = fcontract_shift h"
  have g: "g ! 0 = push_bit 0 (h ! 0)" "g ! 1 = push_bit 2 (h ! 1)" "g ! 2 = push_bit 3 (h ! 2)"
    "g ! 3 = push_bit 5 (h ! 3)" "g ! 4 = push_bit 6 (h ! 4)" "g ! 5 = push_bit 0 (h ! 5)"
    "g ! 6 = push_bit 1 (h ! 6)" "g ! 7 = push_bit 3 (h ! 7)" "g ! 8 = push_bit 4 (h ! 8)"
    "g ! 9 = push_bit 6 (h ! 9)"
    using assms(2) unfolding g_def fcontract_shift_def foldl.simps prod.case by simp_all
  obtain v where o: "output[0 := 0, 16 := 0] = v" by blast
  have l: "length v = 32" using assms(1) by (simp add: o [symmetric])
  have v: "v ! 0 = 0" "v ! 16 = 0" using assms(1) by (auto simp: o [symmetric] nth_list_update)
  have "fcontract_store output g = foldl (fcontract_put g) v
      [(0, 0), (1, 3), (2, 6), (3, 9), (4, 12), (5, 16), (6, 19), (7, 22), (8, 25), (9, 28)]"
    by (simp only: fcontract_store_def Let_def o)
  also have "\<dots> =
    [ucast (g ! 0), ucast (signed_drop_bit 8 (g ! 0)), ucast (signed_drop_bit 16 (g ! 0)),
     ucast (signed_drop_bit 24 (g ! 0)) OR ucast (g ! 1), ucast (signed_drop_bit 8 (g ! 1)),
     ucast (signed_drop_bit 16 (g ! 1)), ucast (signed_drop_bit 24 (g ! 1)) OR ucast (g ! 2),
     ucast (signed_drop_bit 8 (g ! 2)), ucast (signed_drop_bit 16 (g ! 2)),
     ucast (signed_drop_bit 24 (g ! 2)) OR ucast (g ! 3), ucast (signed_drop_bit 8 (g ! 3)),
     ucast (signed_drop_bit 16 (g ! 3)), ucast (signed_drop_bit 24 (g ! 3)) OR ucast (g ! 4),
     ucast (signed_drop_bit 8 (g ! 4)), ucast (signed_drop_bit 16 (g ! 4)),
     ucast (signed_drop_bit 24 (g ! 4)), ucast (g ! 5), ucast (signed_drop_bit 8 (g ! 5)),
     ucast (signed_drop_bit 16 (g ! 5)), ucast (signed_drop_bit 24 (g ! 5)) OR ucast (g ! 6),
     ucast (signed_drop_bit 8 (g ! 6)), ucast (signed_drop_bit 16 (g ! 6)),
     ucast (signed_drop_bit 24 (g ! 6)) OR ucast (g ! 7), ucast (signed_drop_bit 8 (g ! 7)),
     ucast (signed_drop_bit 16 (g ! 7)), ucast (signed_drop_bit 24 (g ! 7)) OR ucast (g ! 8),
     ucast (signed_drop_bit 8 (g ! 8)), ucast (signed_drop_bit 16 (g ! 8)),
     ucast (signed_drop_bit 24 (g ! 8)) OR ucast (g ! 9), ucast (signed_drop_bit 8 (g ! 9)),
     ucast (signed_drop_bit 16 (g ! 9)), ucast (signed_drop_bit 24 (g ! 9))]"
    by (subst list32 [OF l], unfold v) (simp add: put_window)
  also have "\<dots> = fe_store_bytes h"
    unfolding g fe_store_bytes_def list.inject
    by (intro conjI refl; simp add: put_byte put_byte [where s = 1, simplified] unsigned_or_eq)
  finally show ?thesis unfolding g_def .
qed
lemma length_fe_store_bytes [simp]: "length (fe_store_bytes h) = 32"
  by (simp add: fe_store_bytes_def)

section \<open>fcontract\<close>

lemma fcontract_correct:
  assumes out: "length output = 32" and f: "dn_terms 1 f"
  shows "length (fcontract output f) = 32 \<and> le_value (fcontract output f) = dn_int f mod fe_p"
proof -
  define s :: "i32 list" where "s = map ucast (take 10 f)"
  have l: "length s = 10" and L: "10 \<le> length f" using f by (simp_all add: s_def dn_terms_def)
  have si: "sint (s ! i) = sint (f ! i)" "\<bar>sint (f ! i)\<bar> \<le> 67108863" if "i < 10" for i
  proof -
    show b: "\<bar>sint (f ! i)\<bar> \<le> 67108863" using f that by (simp add: dn_terms_def)
    then have "fits 32 (sint (f ! i))" by (simp add: fits_def abs_le_iff)
    then show "sint (s ! i) = sint (f ! i)"
      using sint_ucast_down [of "f ! i"] that L by (simp add: s_def)
  qed
  have start: "in_ivls (map sint s) fc_start"
    unfolding in_ivls_def
  proof (intro conjI allI impI)
    fix i
    assume "i < length (map sint s)"
    then have "i < 10" using l by simp
    then show "in_ivl (map sint s ! i) (fc_start ! i)"
      using si(1) [of i] abs_le_D1 [OF si(2)] abs_le_D2 [OF si(2), of i] l by (simp add: fc_start_def in_ivl_def)
  qed (use l in \<open>simp add: fc_start_def\<close>)
  have v: "fe_val s = dn_int f" by (simp add: fe_val_sum [OF l] dn_int_def si)
  define t where "t = run_w fc_normal (run_w fcontract_borrow_steps s)"
  define h where "h = run_w fcontract_carry_steps (run_w fcontract_carry_steps t)"
  note t = fc_borrowed [OF start, folded t_def]
  have "in_ivls (map sint t) fc_positive" using t by simp
  note h = fc_carried [OF this, folded h_def]
  have lh: "length t = 10" "length h = 10" by (simp_all add: h_def t_def l)
  have "fcontract_borrow 26 0 1 1 (fcontract_borrows (fcontract_borrows s)) = t"
    using fcontract_borrow_step [of 0 1 "run_w fcontract_borrow_steps (run_w fcontract_borrow_steps s)" 26 1] l
    by (simp only: fcontract_loops(1) length_run_w t_def fc_normal_def run_w_append run_w.simps) simp
  then have e: "fcontract output f =
      fcontract_store output (fcontract_shift (fcontract_subtract (fcontract_mask h) h))"
    by (simp only: fcontract_def Let_def s_def [symmetric] h_def fcontract_loops(2) lh(1) length_run_w)
  have hc: "in_ivls (map sint h) fe_canonical_ivls" using h by simp
  note r = fcontract_subtract_correct [OF hc]
  have "fcontract output f = fe_store_bytes (fcontract_subtract (fcontract_mask h) h)"
    unfolding e using out fcontract_subtract_nth(1) [OF lh(2)] by (rule fcontract_store_shift)
  moreover have "fe_val h mod fe_p = dn_int f mod fe_p" using h t v by simp
  ultimately show ?thesis using fe_store_bytes_value [OF r(1)] r(2) by simp
qed

section \<open>Properties\<close>

text \<open>
  C28: fcontract writes the canonical residue of any number whose ten limbs are below 2^26 in
  absolute value, whatever the output array held before.
\<close>

theorem fcontract_canonical:
  assumes "length output = 32" "10 \<le> length f" "\<forall>i<10. \<bar>sint (f ! i)\<bar> < 2 ^ 26"
  shows "length (fcontract output f) = 32 \<and> le_value (fcontract output f) = dn_int f mod fe_p"
proof (rule fcontract_correct [OF assms(1)])
  have "\<bar>sint (f ! i)\<bar> \<le> 2 ^ 26 - 1" if "i < 10" for i using assms(3) that by force
  then show "dn_terms 1 f" using assms(2) by (simp add: dn_terms_def)
qed

theorem fcontract_canonical_witness:
  "le_value (fcontract (replicate 32 255) (replicate 10 (- 67108863))) =
    dn_int (replicate 10 (- 67108863)) mod fe_p"
  using fcontract_canonical [of "replicate 32 255" "replicate 10 (- 67108863)"] by simp

text \<open>
  C29: expanding 32 bytes and contracting them again restores them exactly when they are
  canonical.
\<close>

theorem fcontract_fexpand:
  assumes "length output = 32" "length s = 32"
  shows "fcontract output (fexpand s) = s \<longleftrightarrow> le_value s < fe_p"
proof -
  note x = fexpand_correct [OF assms(2)]
  note c = fcontract_correct [OF assms(1) x(2)]
  have v: "le_value (fcontract output (fexpand s)) = (le_value s mod 2 ^ 255) mod fe_p"
    using c x(3) by simp
  show ?thesis
  proof
    assume "fcontract output (fexpand s) = s"
    then have "le_value s = (le_value s mod 2 ^ 255) mod fe_p" using v by simp
    also have "\<dots> < fe_p" by (rule pos_mod_bound) (simp add: fe_p_def)
    finally show "le_value s < fe_p" .
  next
    assume p: "le_value s < fe_p"
    then have "le_value s < 2 ^ 255" by (simp add: fe_p_def)
    then have "le_value (fcontract output (fexpand s)) = le_value s"
      using v p by (simp add: mod_pos_pos_trivial)
    then show "fcontract output (fexpand s) = s" using c assms by (intro le_value_inj) simp_all
  qed
qed

theorem fcontract_fexpand_witness:
  "fcontract (replicate 32 255) (fexpand (9 # replicate 31 0)) = 9 # replicate 31 0"
  using fcontract_fexpand [of "replicate 32 255" "9 # replicate 31 0"] by (simp add: fe_p_def)

text \<open>
  On entries that its comment admits, the first pass of borrows can leave limb 0 at -56,
  below the -19 the comment claims; the second pass is still enough.
\<close>

lemma fcontract_first_pass: "fcontract_borrows (replicate 10 (- 67108863)) ! 0 = - 56"
  by code_simp

end
