(* ===== verification/Donna.thy ===== *)
theory Donna
  imports Donna_Bytes Clamp
begin

text \<open>
  The Diffie-Hellman function of curve25519-donna.c: the differential step \<open>fmonty\<close>, the
  constant-time swap, the ladder \<open>cmult\<close> over its eight arrays, the inversion \<open>crecip\<close> and
  \<open>curve25519_donna\<close>; and the function of RFC 7748 it computes.
\<close>

section \<open>The code\<close>

text \<open>\<open>memcpy(dst, src, 10 * sizeof(limb))\<close>.\<close>

definition memcpy_10 :: "i64 list \<Rightarrow> i64 list \<Rightarrow> i64 list" where
  "memcpy_10 dst src = take 10 src @ drop 10 dst"

text \<open>
  \<open>fmonty\<close> returns its four outputs followed by the four arrays it destroys. The products
  and squares overwrite their targets, of \<open>x3\<close> and \<open>z3\<close> only ten limbs are written.
\<close>

definition fmonty :: "i64 list \<Rightarrow> i64 list \<Rightarrow> i64 list \<Rightarrow> i64 list \<Rightarrow> i64 list \<Rightarrow> i64 list \<Rightarrow> i64 list \<Rightarrow>
    (i64 list \<times> i64 list \<times> i64 list \<times> i64 list) \<times> (i64 list \<times> i64 list \<times> i64 list \<times> i64 list)" where
  "fmonty x3 z3 x z xprime zprime qmqp =
     (let origx = take 10 x;
          x = fsum x z;
          z = fdifference z origx;
          origxprime = take 10 xprime;
          xprime = fsum xprime zprime;
          zprime = fdifference zprime origxprime;
          xxprime = fproduct xprime z;
          zzprime = fproduct x zprime;
          xxprime = freduce_degree xxprime;
          xxprime = freduce_coefficients xxprime;
          zzprime = freduce_degree zzprime;
          zzprime = freduce_coefficients zzprime;
          origxprime = take 10 xxprime;
          xxprime = fsum xxprime zzprime;
          zzprime = fdifference zzprime origxprime;
          xxxprime = fsquare xxprime;
          zzzprime = fsquare zzprime;
          zzprime = fproduct zzzprime qmqp;
          zzprime = freduce_degree zzprime;
          zzprime = freduce_coefficients zzprime;
          x3 = memcpy_10 x3 xxxprime;
          z3 = memcpy_10 z3 zzprime;
          xx = fsquare x;
          zz = fsquare z;
          x2 = fproduct xx zz;
          x2 = freduce_degree x2;
          x2 = freduce_coefficients x2;
          zz = fdifference zz xx;
          zzz = fscalar_product (replicate 19 0) zz 121665;
          zzz = freduce_coefficients zzz;
          zzz = fsum zzz xx;
          z2 = fproduct zz zzz;
          z2 = freduce_degree z2;
          z2 = freduce_coefficients z2
      in ((x2, z2, x3, z3), (x, z, xprime, zprime)))"

definition swap_conditional :: "i64 list \<Rightarrow> i64 list \<Rightarrow> i64 \<Rightarrow> i64 list \<times> i64 list" where
  "swap_conditional a b iswap =
     (let swap = ucast (- iswap) :: i32
      in foldl (\<lambda>(a, b) i.
           let x = swap AND (ucast (a ! i) XOR ucast (b ! i));
               a = a[i := scast (ucast (a ! i) XOR x)]
           in (a, b[i := scast (ucast (b ! i) XOR x)])) (a, b) [0..<10])"

text \<open>The arrays of \<open>cmult\<close>, by the pointers that name them.\<close>

record ladder =
  nqpqx :: "i64 list"
  nqpqz :: "i64 list"
  nqx :: "i64 list"
  nqz :: "i64 list"
  nqpqx2 :: "i64 list"
  nqpqz2 :: "i64 list"
  nqx2 :: "i64 list"
  nqz2 :: "i64 list"

definition cmult_start :: "i64 list \<Rightarrow> ladder" where
  "cmult_start q =
     \<lparr>nqpqx = memcpy_10 (replicate 19 0) q, nqpqz = 1 # replicate 18 0,
      nqx = 1 # replicate 18 0, nqz = replicate 19 0,
      nqpqx2 = replicate 19 0, nqpqz2 = 1 # replicate 18 0,
      nqx2 = replicate 19 0, nqz2 = 1 # replicate 18 0\<rparr>"

text \<open>One round: swap, step, swap back, exchange the pointers.\<close>

definition cmult_round :: "i64 list \<Rightarrow> i64 \<Rightarrow> ladder \<Rightarrow> ladder" where
  "cmult_round q bt s =
     (case swap_conditional (nqx s) (nqpqx s) bt of (x, xp) \<Rightarrow>
      case swap_conditional (nqz s) (nqpqz s) bt of (z, zp) \<Rightarrow>
      case fmonty (nqpqx2 s) (nqpqz2 s) x z xp zp q of ((x2, z2, x3, z3), (x, z, xp, zp)) \<Rightarrow>
      case swap_conditional x2 x3 bt of (x2, x3) \<Rightarrow>
      case swap_conditional z2 z3 bt of (z2, z3) \<Rightarrow>
        \<lparr>nqpqx = x3, nqpqz = z3, nqx = x2, nqz = z2,
         nqpqx2 = xp, nqpqz2 = zp, nqx2 = x, nqz2 = z\<rparr>)"

definition cmult_byte :: "i64 list \<Rightarrow> u8 \<Rightarrow> ladder \<Rightarrow> ladder" where
  "cmult_byte q byte s =
     snd (foldl (\<lambda>(byte, s) j. (push_bit 1 byte, cmult_round q (ucast (drop_bit 7 byte)) s))
       (byte, s) [0..<8])"

definition cmult :: "u8 list \<Rightarrow> i64 list \<Rightarrow> i64 list \<times> i64 list" where
  "cmult n q =
     (let s = foldl (\<lambda>s i. cmult_byte q (n ! (31 - i)) s) (cmult_start q) [0..<32]
      in (take 10 (nqx s), take 10 (nqz s)))"

text \<open>The loops \<open>for (i = 2; i < 2 * n + 2; i += 2)\<close> of \<open>crecip\<close>, two squarings a round.\<close>

primrec crecip_loop :: "nat \<Rightarrow> i64 list \<Rightarrow> i64 list" where
  "crecip_loop 0 t = t"
| "crecip_loop (Suc n) t = crecip_loop n (fsquare (fsquare t))"

definition crecip :: "i64 list \<Rightarrow> i64 list" where
  "crecip z =
     (let z2 = fsquare z;
          t1 = fsquare z2;
          t0 = fsquare t1;
          z9 = fmul t0 z;
          z11 = fmul z9 z2;
          t0 = fsquare z11;
          z2_5_0 = fmul t0 z9;
          t0 = fsquare z2_5_0;
          t1 = fsquare t0;
          t0 = fsquare t1;
          t1 = fsquare t0;
          t0 = fsquare t1;
          z2_10_0 = fmul t0 z2_5_0;
          t0 = fsquare z2_10_0;
          t1 = fsquare t0;
          t1 = crecip_loop 4 t1;
          z2_20_0 = fmul t1 z2_10_0;
          t0 = fsquare z2_20_0;
          t1 = fsquare t0;
          t1 = crecip_loop 9 t1;
          t0 = fmul t1 z2_20_0;
          t1 = fsquare t0;
          t0 = fsquare t1;
          t0 = crecip_loop 4 t0;
          z2_50_0 = fmul t0 z2_10_0;
          t0 = fsquare z2_50_0;
          t1 = fsquare t0;
          t1 = crecip_loop 24 t1;
          z2_100_0 = fmul t1 z2_50_0;
          t1 = fsquare z2_100_0;
          t0 = fsquare t1;
          t0 = crecip_loop 49 t0;
          t1 = fmul t0 z2_100_0;
          t0 = fsquare t1;
          t1 = fsquare t0;
          t1 = crecip_loop 24 t1;
          t0 = fmul t1 z2_50_0;
          t1 = fsquare t0;
          t0 = fsquare t1;
          t1 = fsquare t0;
          t0 = fsquare t1;
          t1 = fsquare t0
      in fmul t1 z11)"

definition curve25519_donna :: "u8 list \<Rightarrow> u8 list \<Rightarrow> u8 list \<Rightarrow> u8 list \<times> i32" where
  "curve25519_donna mypublic secret basepoint =
     (let e = map (\<lambda>i. secret ! i) [0..<32];
          e = e[0 := e ! 0 AND 248];
          e = e[31 := e ! 31 AND 127];
          e = e[31 := e ! 31 OR 64];
          bp = fexpand basepoint;
          (x, z) = cmult e bp;
          zmone = crecip z;
          z = fmul x zmone
      in (fcontract mypublic z, 0))"

section \<open>The swap\<close>

lemma swap_loop:
  fixes a b :: "i64 list"
  assumes "n \<le> length a" "n \<le> length b"
  shows "foldl (\<lambda>(a, b) i.
           let x = swap AND (ucast (a ! i) XOR ucast (b ! i));
               a = a[i := scast (ucast (a ! i) XOR x)]
           in (a, b[i := scast (ucast (b ! i) XOR x)])) (a, b) [0..<n] =
    (map (\<lambda>i. scast (ucast (a ! i) XOR (swap AND (ucast (a ! i) XOR ucast (b ! i)) :: i32))) [0..<n] @ drop n a,
     map (\<lambda>i. scast (ucast (b ! i) XOR (swap AND (ucast (a ! i) XOR ucast (b ! i)) :: i32))) [0..<n] @ drop n b)"
  using assms
proof (induction n)
  case (Suc n)
  have d: "drop n v = v ! n # drop (Suc n) v" if "n < length v" for v :: "i64 list"
    using that by (rule Cons_nth_drop_Suc [symmetric])
  show ?case using Suc by (simp add: d nth_append list_update_append Let_def)
qed simp

lemma swap_conditional_eq:
  assumes l: "10 \<le> length a" "10 \<le> length b" and i: "iswap = 0 \<or> iswap = 1"
    and ab: "\<forall>i<10. \<bar>sint (a ! i)\<bar> < 2 ^ 31 \<and> \<bar>sint (b ! i)\<bar> < 2 ^ 31"
  shows "swap_conditional a b iswap =
    (if iswap = 1 then (memcpy_10 a b, memcpy_10 b a) else (a, b))"
proof -
  have s: "map (\<lambda>i. scast (ucast (f ! i) :: i32)) [0..<10] = take 10 f"
    if "10 \<le> length f" "\<forall>i<10. \<bar>sint (f ! i)\<bar> < 2 ^ 31" for f :: "i64 list"
  proof (rule nth_equalityI)
    fix i
    assume "i < length (map (\<lambda>i. scast (ucast (f ! i) :: i32) :: i64) [0..<10])"
    then have i: "i < 10" by simp
    then have "\<bar>sint (f ! i)\<bar> < 2 ^ 31" using that(2) by blast
    then have "fits 32 (sint (f ! i))" by (simp add: fits_def abs_less_iff)
    then show "map (\<lambda>i. scast (ucast (f ! i) :: i32)) [0..<10] ! i = take 10 f ! i"
      using sint_to_s32 [of "f ! i"] i that(1) by (simp add: to_s32_def)
  qed (use that in simp)
  have m: "map (\<lambda>i. scast (ucast (a ! i) :: i32)) [0..<10] = take 10 a"
    "map (\<lambda>i. scast (ucast (b ! i) :: i32)) [0..<10] = take 10 b"
    using s l ab by simp_all
  have x: "p XOR (- 1 AND (p XOR q)) = q" "q XOR (- 1 AND (p XOR q)) = p" "p XOR (0 AND r) = p"
    for p q r :: i32
    by (rule bit_word_eqI, auto simp: bit_simps)+
  have u: "(ucast (- 0 :: i64) :: i32) = 0" "(ucast (- 1 :: i64) :: i32) = - 1"
    by simp (rule bit_word_eqI, simp add: bit_simps)
  show ?thesis
    using i
  proof
    assume i: "iswap = 0"
    have "swap_conditional a b iswap = (take 10 a @ drop 10 a, take 10 b @ drop 10 b)"
      unfolding swap_conditional_def Let_def i u swap_loop [OF l, unfolded Let_def] x m ..
    then show ?thesis using i by simp
  next
    assume i: "iswap = 1"
    show ?thesis
      unfolding swap_conditional_def Let_def i u swap_loop [OF l, unfolded Let_def] x m memcpy_10_def by simp
  qed
qed

lemma rep_small: "dn.rep 1 f v \<Longrightarrow> 10 \<le> length f \<and> (\<forall>i<10. \<bar>sint (f ! i)\<bar> < 2 ^ 31)"
  unfolding dn.rep_def dn_terms_def by fastforce

section \<open>The function of RFC 7748\<close>

type_synonym xz = "gf \<times> gf"

text \<open>The differential step on (X2 : Z2) and (X3 : Z3) whose difference has the coordinate \<open>u\<close>.\<close>

fun x25519_step :: "gf \<Rightarrow> xz \<times> xz \<Rightarrow> xz \<times> xz" where
  "x25519_step u ((x2, z2), (x3, z3)) =
     (let A = x2 + z2; AA = A * A;
          B = x2 - z2; BB = B * B;
          E = AA - BB;
          C = x3 + z3; D = x3 - z3;
          DA = D * A; CB = C * B
      in ((AA * BB, E * (AA + 121665 * E)), ((DA + CB) * (DA + CB), u * ((DA - CB) * (DA - CB)))))"

definition cswap :: "bool \<Rightarrow> 'a \<times> 'a \<Rightarrow> 'a \<times> 'a" where
  "cswap b s = (if b then (snd s, fst s) else s)"

definition x25519_round :: "gf \<Rightarrow> xz \<times> xz \<Rightarrow> bool \<Rightarrow> xz \<times> xz" where
  "x25519_round u s b = cswap b (x25519_step u (cswap b s))"

text \<open>From the bit \<open>n - 1\<close> of the scalar down to bit 0.\<close>

definition x25519_ladder :: "nat \<Rightarrow> int \<Rightarrow> gf \<Rightarrow> xz \<times> xz" where
  "x25519_ladder n k u = foldl (x25519_round u) ((1, 0), (u, 1)) (map (bit k) (rev [0..<n]))"

definition x25519 :: "int \<Rightarrow> gf \<Rightarrow> gf" where
  "x25519 k u = (let P = fst (x25519_ladder 256 k u) in fst P * snd P ^ (2 ^ 255 - 21))"

section \<open>The step\<close>

lemma rep_take: "dn.rep n f v \<Longrightarrow> dn.rep n (take 10 f) v"
  by (auto simp: dn.rep_def dn_terms_def dn_val_def dn_int_def)

lemma rep_memcpy: "dn.rep n src v \<Longrightarrow> dn.rep n (memcpy_10 dst src) v"
  by (auto simp: dn.rep_def memcpy_10_def dn_terms_def dn_val_def dn_int_def nth_append)

lemma rep_length: "dn.rep n f v \<Longrightarrow> 10 \<le> length f"
  by (simp add: dn.rep_def dn_terms_def)

lemma rep_1_2: "dn.rep 1 f v \<Longrightarrow> dn.rep 2 f v"
  by (erule dn.rep_mono) simp

lemma rep_product:
  "dn.rep 2 f v \<Longrightarrow> dn.rep 2 g w \<Longrightarrow> dn.rep 1 (freduce_coefficients (freduce_degree (fproduct f g))) (v * w)"
  unfolding dn.rep_def using dn_product(2,3) [of f g] by blast

lemma rep_sum: "dn.rep 1 f v \<Longrightarrow> dn.rep 1 g w \<Longrightarrow> dn.rep 2 (fsum f g) (v + w)"
  using dn.rep_add [of 1 f v 1 g w] by (simp only: one_add_one order_refl)

lemma rep_difference: "dn.rep 1 f v \<Longrightarrow> dn.rep 1 g w \<Longrightarrow> dn.rep 2 (fdifference g f) (v - w)"
  using dn.rep_sub [of 1 f v 1 g w] by (simp only: one_add_one order_refl)

lemma rep_square: "dn.rep 2 f v \<Longrightarrow> dn.rep 1 (fsquare f) (v * v)"
  using dn.rep_sq [of 2 f v] by simp

lemma rep_scalar:
  assumes "dn.rep 2 f v"
  shows "dn.rep 1 (freduce_coefficients (fscalar_product (replicate 19 0) f 121665)) (121665 * v)"
proof -
  define t where "t = fscalar_product (replicate 19 0) f 121665"
  have f: "dn_terms 2 f" "dn_val f = v" using assms by (simp_all add: dn.rep_def)
  have l: "length t = 19" by (simp add: t_def fscalar_product_nth)
  have s: "sint (t ! i) = sint (f ! i) * 121665" "\<bar>sint (t ! i)\<bar> \<le> 280 * 2 ^ 54" if "i < 10" for i
  proof -
    have b: "\<bar>sint (f ! i)\<bar> \<le> (2 ^ 26 - 1) * int 2" using f(1) that by (simp add: dn_terms_def)
    then have "fits 64 (sint (f ! i) * 121665)" by (simp add: fits_def abs_le_iff)
    then show "sint (t ! i) = sint (f ! i) * 121665"
      using that by (simp add: t_def fscalar_product_nth sint_mult)
    then show "\<bar>sint (t ! i)\<bar> \<le> 280 * 2 ^ 54" using b by (simp add: abs_mult)
  qed
  have z: "\<bar>sint (t ! (11 + i))\<bar> \<le> 14 * 2 ^ 54" if "i < 8" for i
  proof -
    have "t ! (11 + i) = 0"
      using foldl_update_range [of 10 "replicate 19 0" "\<lambda>i _. f ! i * 121665"] that
      by (simp add: t_def fscalar_product_def)
    then show ?thesis by simp
  qed
  have "dn_int t = dn_int f * 121665" by (simp add: dn_int_def s(1) sum_distrib_right mult.assoc)
  then have "dn_val t = 121665 * v" using f(2) by (simp add: dn_val_def)
  then show ?thesis
    using freduce_coefficients_correct [OF l s(2) z] by (simp add: dn.rep_def t_def)
qed

definition rep_pair :: "i64 list \<Rightarrow> i64 list \<Rightarrow> xz \<Rightarrow> bool" where
  "rep_pair x z P \<longleftrightarrow> dn.rep 1 x (fst P) \<and> dn.rep 1 z (snd P)"

lemma fmonty_correct:
  assumes pq: "rep_pair x z (fst PQ)" "rep_pair xprime zprime (snd PQ)" and u: "dn.rep 1 qmqp u"
    and e: "fmonty x3 z3 x z xprime zprime qmqp = ((rx2, rz2, rx3, rz3), (dx, dz, dxp, dzp))"
  shows "rep_pair rx2 rz2 (fst (x25519_step u PQ))" "rep_pair rx3 rz3 (snd (x25519_step u PQ))"
    "10 \<le> length dxp" "10 \<le> length dzp"
proof -
  obtain X Z X' Z' where PQ: "PQ = ((X, Z), (X', Z'))" by (cases PQ) auto
  have p: "dn.rep 1 x X" "dn.rep 1 z Z" "dn.rep 1 xprime X'" "dn.rep 1 zprime Z'"
    using pq by (simp_all add: PQ rep_pair_def)
  have A: "dn.rep 2 (fsum x z) (X + Z)" using rep_sum [OF p(1,2)] .
  have B: "dn.rep 2 (fdifference z (take 10 x)) (X - Z)"
    using rep_difference [OF rep_take [OF p(1)] p(2)] .
  have C: "dn.rep 2 (fsum xprime zprime) (X' + Z')" using rep_sum [OF p(3,4)] .
  have D: "dn.rep 2 (fdifference zprime (take 10 xprime)) (X' - Z')"
    using rep_difference [OF rep_take [OF p(3)] p(4)] .
  note xp = rep_product [OF C B] and zp = rep_product [OF A D]
  have S: "dn.rep 2 (fsum (freduce_coefficients (freduce_degree (fproduct (fsum xprime zprime)
      (fdifference z (take 10 x))))) (freduce_coefficients (freduce_degree (fproduct (fsum x z)
      (fdifference zprime (take 10 xprime))))))
      ((X' + Z') * (X - Z) + (X + Z) * (X' - Z'))" using rep_sum [OF xp zp] .
  have T: "dn.rep 2 (fdifference (freduce_coefficients (freduce_degree (fproduct (fsum x z)
      (fdifference zprime (take 10 xprime))))) (take 10 (freduce_coefficients (freduce_degree
      (fproduct (fsum xprime zprime) (fdifference z (take 10 x)))))))
      ((X' + Z') * (X - Z) - (X + Z) * (X' - Z'))"
    using rep_difference [OF rep_take [OF xp] zp] .
  note x3 = rep_memcpy [OF rep_square [OF S], of x3]
  note z3 = rep_memcpy [OF rep_product [OF rep_1_2 [OF rep_square [OF T]] rep_1_2 [OF u]], of z3]
  note xx = rep_square [OF A] and zz = rep_square [OF B]
  note x2 = rep_product [OF rep_1_2 [OF xx] rep_1_2 [OF zz]]
  have E: "dn.rep 2 (fdifference (fsquare (fdifference z (take 10 x))) (fsquare (fsum x z)))
      ((X + Z) * (X + Z) - (X - Z) * (X - Z))" using rep_difference [OF xx zz] .
  note z2 = rep_product [OF E rep_sum [OF rep_scalar [OF E] xx]]
  show "rep_pair rx2 rz2 (fst (x25519_step u PQ))" "rep_pair rx3 rz3 (snd (x25519_step u PQ))"
    "10 \<le> length dxp" "10 \<le> length dzp"
    using e [symmetric] x2 z2 x3 z3 rep_length [OF C] rep_length [OF D]
    unfolding PQ fmonty_def Let_def prod.inject x25519_step.simps rep_pair_def prod.case fst_conv snd_conv
    by (auto simp: algebra_simps elim!: dn.rep_eq)
qed

section \<open>The ladder\<close>

definition ladder_rep :: "ladder \<Rightarrow> xz \<times> xz \<Rightarrow> bool" where
  "ladder_rep s PQ \<longleftrightarrow> rep_pair (nqx s) (nqz s) (fst PQ) \<and> rep_pair (nqpqx s) (nqpqz s) (snd PQ) \<and>
     10 \<le> length (nqpqx2 s) \<and> 10 \<le> length (nqpqz2 s)"

lemma swap_pairs:
  assumes "rep_pair x z P" "rep_pair x' z' P'"
  obtains y z2 y' z2' where "swap_conditional x x' (of_bool b) = (y, y')"
    "swap_conditional z z' (of_bool b) = (z2, z2')"
    "rep_pair y z2 (fst (cswap b (P, P')))" "rep_pair y' z2' (snd (cswap b (P, P')))"
proof -
  have "dn.rep 1 x (fst P)" "dn.rep 1 z (snd P)" "dn.rep 1 x' (fst P')" "dn.rep 1 z' (snd P')"
    using assms by (simp_all add: rep_pair_def)
  note t = this [THEN rep_small]
  have s: "swap_conditional x x' (of_bool b) = (if b then (memcpy_10 x x', memcpy_10 x' x) else (x, x'))"
    "swap_conditional z z' (of_bool b) = (if b then (memcpy_10 z z', memcpy_10 z' z) else (z, z'))"
    using swap_conditional_eq [where iswap = "of_bool b"] t by simp_all
  show ?thesis
  proof (cases b)
    case True
    then show ?thesis using that [of "memcpy_10 x x'" "memcpy_10 x' x" "memcpy_10 z z'" "memcpy_10 z' z"]
        s assms by (simp add: rep_pair_def cswap_def rep_memcpy)
  qed (use that [of x x' z z'] s assms in \<open>simp add: rep_pair_def cswap_def\<close>)
qed

lemma cmult_round_correct:
  assumes s: "ladder_rep s PQ" and q: "dn.rep 1 q u"
  shows "ladder_rep (cmult_round q (of_bool b) s) (x25519_round u PQ b)"
proof -
  define cs where "cs = cswap b (fst PQ, snd PQ)"
  have r: "rep_pair (nqx s) (nqz s) (fst PQ)" "rep_pair (nqpqx s) (nqpqz s) (snd PQ)"
    using s by (simp_all add: ladder_rep_def)
  obtain x z xp zp where 1: "swap_conditional (nqx s) (nqpqx s) (of_bool b) = (x, xp)"
    "swap_conditional (nqz s) (nqpqz s) (of_bool b) = (z, zp)"
    "rep_pair x z (fst cs)" "rep_pair xp zp (snd cs)"
    unfolding cs_def by (rule swap_pairs [OF r])
  obtain x2 z2 x3 z3 dx dz dxp dzp where 2: "fmonty (nqpqx2 s) (nqpqz2 s) x z xp zp q =
      ((x2, z2, x3, z3), (dx, dz, dxp, dzp))" by (metis surj_pair)
  define st where "st = (fst (x25519_step u cs), snd (x25519_step u cs))"
  have 3: "rep_pair x2 z2 (fst st)" "rep_pair x3 z3 (snd st)" "10 \<le> length dxp" "10 \<le> length dzp"
    using fmonty_correct [OF 1(3,4) q 2] by (simp_all add: st_def)
  obtain y2 w2 y3 w3 where 4: "swap_conditional x2 x3 (of_bool b) = (y2, y3)"
    "swap_conditional z2 z3 (of_bool b) = (w2, w3)"
    "rep_pair y2 w2 (fst (cswap b st))" "rep_pair y3 w3 (snd (cswap b st))"
    unfolding st_def by (rule swap_pairs [OF 3(1,2) [unfolded st_def fst_conv snd_conv]])
  show ?thesis
    using 3(3,4) 4(3,4) by (simp add: cmult_round_def 1(1,2) 2 4(1,2) ladder_rep_def x25519_round_def
        st_def cs_def)
qed

text \<open>The bits of a byte, the top one first.\<close>

lemma shifted_bit: "j < 8 \<Longrightarrow> (ucast (drop_bit 7 (push_bit j byte)) :: i64) = of_bool (bit (byte :: u8) (7 - j))"
proof (rule bit_word_eqI)
  fix n
  assume "j < 8" "n < LENGTH(64)"
  then show "bit (ucast (drop_bit 7 (push_bit j byte)) :: i64) n = bit (of_bool (bit byte (7 - j)) :: i64) n"
    by (cases "n = 0") (auto simp: bit_simps)
qed

lemma cmult_byte_correct:
  assumes "ladder_rep s PQ" "dn.rep 1 q u"
  shows "ladder_rep (cmult_byte q byte s)
    (foldl (x25519_round u) PQ (map (\<lambda>j. bit byte (7 - j)) [0..<8]))"
proof -
  have "n \<le> 8 \<Longrightarrow> (\<exists>t. foldl (\<lambda>(byte, s) j. (push_bit 1 byte, cmult_round q (ucast (drop_bit 7 byte)) s))
      (byte, s) [0..<n] = (push_bit n byte, t) \<and>
      ladder_rep t (foldl (x25519_round u) PQ (map (\<lambda>j. bit byte (7 - j)) [0..<n])))" for n
  proof (induction n)
    case (Suc n)
    then obtain t where t: "foldl (\<lambda>(byte, s) j. (push_bit 1 byte, cmult_round q (ucast (drop_bit 7 byte)) s))
      (byte, s) [0..<n] = (push_bit n byte, t)"
      "ladder_rep t (foldl (x25519_round u) PQ (map (\<lambda>j. bit byte (7 - j)) [0..<n]))" by auto
    have "push_bit 1 (push_bit n byte) = push_bit (Suc n) byte" by (simp add: push_bit_push_bit)
    moreover have "ucast (drop_bit 7 (push_bit n byte)) = (of_bool (bit byte (7 - n)) :: i64)"
      using Suc.prems by (intro shifted_bit) simp
    ultimately show ?case
      using t cmult_round_correct [OF t(2) assms(2)] by (simp del: push_bit_Suc)
  qed (use assms in simp)
  from this [of 8] show ?thesis by (auto simp: cmult_byte_def)
qed

lemma bit_le_value:
  "i < length s \<Longrightarrow> j < 8 \<Longrightarrow> bit (le_value s) (8 * i + j) = bit (s ! i) j"
proof (induction s arbitrary: i)
  case (Cons b s)
  have v: "le_value (b # s) = concat_bit 8 (uint b) (le_value s)"
    using u8_bounds [of b] by (simp add: concat_bit_eq push_bit_eq_mult take_bit_int_eq_self)
  show ?case
  proof (cases i)
    case 0
    then show ?thesis using Cons.prems unfolding v by (simp add: bit_concat_bit_iff bit_uint_iff)
  next
    case (Suc k)
    then show ?thesis using Cons unfolding v by (simp add: bit_concat_bit_iff)
  qed
qed simp

text \<open>The 32 times 8 bits read are those of the scalar, from bit 255 down.\<close>

lemma rev_upt_bytes:
  "rev [0..<8 * n] = concat (map (\<lambda>i. map (\<lambda>j. 8 * (n - 1 - i) + (7 - j)) [0..<8]) [0..<n])"
proof (induction n)
  case (Suc n)
  have "[0..<8 * Suc n] = [0..<8 * n] @ map (\<lambda>j. 8 * n + j) [0..<8]"
    using upt_add_eq_append [of 0 "8 * n" 8] map_add_upt [of "8 * n" 8] by (simp add: add.commute)
  moreover have "rev (map (\<lambda>j. 8 * n + j) [0..<8]) = map (\<lambda>j. 8 * n + (7 - j)) [0..<8]"
    by (simp add: upt_conv_Cons)
  moreover have "[0..<Suc n] = 0 # map Suc [0..<n]" by (simp add: upt_conv_Cons map_Suc_upt)
  ultimately show ?case using Suc by (simp add: comp_def)
qed simp

lemma scalar_bits:
  assumes "length n = 32"
  shows "concat (map (\<lambda>i. map (\<lambda>j. bit (n ! (31 - i)) (7 - j)) [0..<8]) [0..<32]) =
    map (bit (le_value n)) (rev [0..<256])"
proof -
  have "rev [0..<256] = concat (map (\<lambda>i. map (\<lambda>j. 8 * (31 - i) + (7 - j)) [0..<8]) [0..<32])"
    using rev_upt_bytes [of 32] by simp
  moreover have "bit (le_value n) (8 * (31 - i) + (7 - j)) = bit (n ! (31 - i)) (7 - j)" for i j :: nat
    by (rule bit_le_value) (use assms in simp_all)
  ultimately show ?thesis by (simp add: map_concat comp_def)
qed

lemma foldl_bytes:
  assumes "dn.rep 1 q u" "ladder_rep s PQ"
  shows "ladder_rep (foldl (\<lambda>s b. cmult_byte q b s) s bs)
    (foldl (x25519_round u) PQ (concat (map (\<lambda>b. map (\<lambda>j. bit b (7 - j)) [0..<8]) bs)))"
  using assms(2)
proof (induction bs arbitrary: s PQ)
  case (Cons b bs)
  from Cons.IH [OF cmult_byte_correct [OF Cons.prems assms(1), of b]]
  show ?case by (simp only: foldl.simps list.map concat.simps foldl_append)
qed simp

lemma cmult_correct:
  assumes n: "length n = 32" and q: "dn.rep 1 q u" and l: "length q = 10"
  shows "case cmult n q of (x, z) \<Rightarrow> rep_pair x z (fst (x25519_ladder 256 (le_value n) u))"
proof -
  have c: "dn.rep 1 (replicate 19 0) 0" "dn.rep 1 (1 # replicate 18 0) 1"
    by (simp_all add: dn.rep_def dn_terms_def dn_val_def dn_int_def nth_Cons' fe_weight_def fe_exp_def
        if_distrib sum.delta cong: if_cong)
  have "ladder_rep (cmult_start q) ((1, 0), (u, 1))"
    using c q by (simp add: ladder_rep_def cmult_start_def rep_pair_def rep_memcpy)
  note r = foldl_bytes [OF q this, of "map (\<lambda>i. n ! (31 - i)) [0..<32]"]
  define s where "s = foldl (\<lambda>s i. cmult_byte q (n ! (31 - i)) s) (cmult_start q) [0..<32]"
  have "ladder_rep s (x25519_ladder 256 (le_value n) u)"
    using r unfolding x25519_ladder_def scalar_bits [OF n, symmetric] s_def
    by (simp only: foldl_map map_map comp_def)
  then show ?thesis
    unfolding cmult_def Let_def s_def [symmetric] prod.case
    by (simp add: ladder_rep_def rep_pair_def rep_take)
qed

section \<open>The inversion\<close>

lemma pw_Let:
  "dn.pw v d x \<Longrightarrow> (\<And>y. dn.pw v d y \<Longrightarrow> dn.pw v e (f y)) \<Longrightarrow> dn.pw v e (let y = x in f y)"
  by (simp add: Let_def)

lemma pw_loop: "dn.pw v e t \<Longrightarrow> dn.pw v (4 ^ n * e) (crecip_loop n t)"
proof (induction n arbitrary: t e)
  case (Suc n)
  show ?case using dn.pw_exp [OF Suc.IH [OF dn.pw_sq [OF dn.pw_sq [OF Suc.prems]]]] by (simp add: mult_ac)
qed simp

lemmas pw_steps = dn.pw_sq dn.pw_mul pw_loop

lemma crecip_pw:
  assumes "dn.rep 1 z v"
  shows "dn.pw v (2 ^ 255 - 21) (crecip z)"
proof -
  have 1: "dn.pw v 1 z" using assms by (simp add: dn.pw_def)
  show ?thesis
    using 1 unfolding crecip_def
    by - ((rule pw_Let, rule dn.pw_exp, rule pw_steps, assumption+, simp)+,
      rule dn.pw_exp, rule pw_steps, assumption+, simp)
qed
section \<open>The key agreement\<close>

lemma clamp_donna:
  assumes "length s = 32"
  defines "e \<equiv> map (\<lambda>i. s ! i) [0..<32]"
  shows "le_value ((e[0 := e ! 0 AND 248])[31 := (e ! 31 AND 127) OR 64]) = clamp (le_value s)"
    and "length e = 32"
proof -
  have e: "e = s" by (rule nth_equalityI) (simp_all add: e_def assms(1))
  then show "length e = 32" using assms(1) by simp
  show "le_value ((e[0 := e ! 0 AND 248])[31 := (e ! 31 AND 127) OR 64]) = clamp (le_value s)"
    using clamp_value [of s "\<lambda>b. b AND 248" "\<lambda>b. (b AND 127) OR 64"] clamp_byte assms(1) e by simp
qed

lemma curve25519_donna_correct:
  assumes "length mypublic = 32" "length secret = 32" "length basepoint = 32"
  shows "le_value (fst (curve25519_donna mypublic secret basepoint)) =
      Rep_gf (x25519 (clamp (le_value secret)) (of_int (le_value basepoint mod 2 ^ 255))) \<and>
    length (fst (curve25519_donna mypublic secret basepoint)) = 32 \<and>
    snd (curve25519_donna mypublic secret basepoint) = 0"
proof -
  define e where "e = map (\<lambda>i. secret ! i) [0..<32]"
  define e2 where "e2 = (e[0 := e ! 0 AND 248])[31 := (e ! 31 AND 127) OR 64]"
  note c = clamp_donna [OF assms(2), folded e_def, folded e2_def]
  have le: "length e2 = 32" using c(2) by (simp add: e2_def)
  have e2: "((e[0 := e ! 0 AND 248])[31 := (e[0 := e ! 0 AND 248]) ! 31 AND 127])
      [31 := (e[0 := e ! 0 AND 248])[31 := (e[0 := e ! 0 AND 248]) ! 31 AND 127] ! 31 OR 64] = e2"
    using c(2) by (simp add: e2_def)
  define u :: gf where "u = of_int (le_value basepoint mod 2 ^ 255)"
  note b = fexpand_correct [OF assms(3)]
  have u: "dn.rep 1 (fexpand basepoint) u" using b by (simp add: dn.rep_def u_def dn_val_def)
  obtain x z where xz: "cmult e2 (fexpand basepoint) = (x, z)" by (rule prod.exhaust)
  obtain X Z where l: "fst (x25519_ladder 256 (clamp (le_value secret)) u) = (X, Z)" by (rule prod.exhaust)
  have r: "dn.rep 1 x X" "dn.rep 1 z Z"
    using cmult_correct [OF le u b(1)] by (simp_all add: xz l c(1) rep_pair_def)
  define f where "f = fmul x (crecip z)"
  have "dn.rep 1 f (X * Z ^ (2 ^ 255 - 21))"
    unfolding f_def by (rule dn.rep_mul [OF r(1) dn.pw_rep [OF crecip_pw [OF r(2)]]]) simp_all
  then have f: "dn_terms 1 f" "dn_val f = x25519 (clamp (le_value secret)) u"
    using l by (simp_all add: dn.rep_def x25519_def)
  have d: "curve25519_donna mypublic secret basepoint = (fcontract mypublic f, 0)"
    unfolding curve25519_donna_def Let_def e_def [symmetric] e2 xz prod.case f_def ..
  show ?thesis
    using fcontract_correct [OF assms(1) f(1)] f(2)
    by (simp add: d u_def dn_val_def flip: Rep_gf_of_int)
qed

lemma curve25519_donna_result:
  assumes "length mypublic = 32" "length secret = 32" "length basepoint = 32"
  shows "curve25519_donna mypublic secret basepoint =
    (le_bytes 32 (Rep_gf (x25519 (clamp (le_value secret)) (of_int (le_value basepoint mod 2 ^ 255)))), 0)"
proof -
  note c = curve25519_donna_correct [OF assms]
  define r where "r = curve25519_donna mypublic secret basepoint"
  have "le_bytes 32 (le_value (fst r)) = fst r" using c by (intro le_bytes_le_value) (simp add: r_def)
  then have "r = (le_bytes 32 (le_value (fst r)), 0)" using c by (simp add: r_def prod_eq_iff)
  also have "le_value (fst r) =
      Rep_gf (x25519 (clamp (le_value secret)) (of_int (le_value basepoint mod 2 ^ 255)))"
    using c by (simp only: r_def)
  finally show ?thesis by (simp only: r_def)
qed

section \<open>Properties\<close>

text \<open>
  Swap_conditional exchanges the ten low limbs of its arrays when \<open>iswap\<close> is 1 and leaves
  them unchanged when it is 0, for limbs that fit in 32 bits.
\<close>

theorem swap_conditional_swaps:
  assumes "10 \<le> length a" "10 \<le> length b" "iswap = 0 \<or> iswap = 1"
    and "\<forall>i<10. \<bar>sint (a ! i)\<bar> < 2 ^ 31 \<and> \<bar>sint (b ! i)\<bar> < 2 ^ 31"
  shows "swap_conditional a b iswap =
    (if iswap = 1 then (take 10 b @ drop 10 a, take 10 a @ drop 10 b) else (a, b))"
  using swap_conditional_eq [OF assms] by (simp only: memcpy_10_def)

theorem swap_conditional_swaps_witness:
  "swap_conditional (replicate 19 (- 5)) (replicate 19 7) 1 =
    (replicate 10 7 @ replicate 9 (- 5), replicate 10 (- 5) @ replicate 9 7)"
  using swap_conditional_swaps [of "replicate 19 (- 5)" "replicate 19 7" 1] by simp

text \<open>Crecip raises its argument to the power p-2 and returns reduced limbs.\<close>

theorem crecip_power:
  assumes "10 \<le> length z" "\<forall>i<10. \<bar>sint (z ! i)\<bar> < 2 ^ 26"
  shows "dn_int (crecip z) mod fe_p = dn_int z ^ (2 ^ 255 - 21) mod fe_p \<and>
    (\<forall>i<10. \<bar>sint (crecip z ! i)\<bar> < 2 ^ 26)"
proof -
  have "\<bar>sint (z ! i)\<bar> \<le> 2 ^ 26 - 1" if "i < 10" for i using assms(2) that by force
  then have "dn.rep 1 z (dn_val z)" using assms(1) by (simp add: dn.rep_def dn_terms_def)
  from dn.pw_rep [OF crecip_pw [OF this]]
  have t: "dn_terms 1 (crecip z)" and v: "dn_val (crecip z) = dn_val z ^ (2 ^ 255 - 21)"
    by (simp_all only: dn.rep_def)
  have "\<bar>sint (crecip z ! i)\<bar> < 2 ^ 26" if "i < 10" for i
    using t that by (auto simp: dn_terms_def)
  moreover from v have "dn_int (crecip z) mod fe_p = dn_int z ^ (2 ^ 255 - 21) mod fe_p"
    by (simp only: dn_val_def gf_of_int_eq flip: of_int_power)
  ultimately show ?thesis by blast
qed

theorem crecip_power_witness:
  "dn_int (crecip (2 # replicate 9 0)) mod fe_p = dn_int (2 # replicate 9 0) ^ (2 ^ 255 - 21) mod fe_p"
proof -
  have "\<forall>i<10. \<bar>sint ((2 # replicate 9 0 :: i64 list) ! i)\<bar> < 2 ^ 26"
    by (simp add: all_less_10)
  from crecip_power [OF _ this] show ?thesis by simp
qed

text \<open>
  C4: curve25519_donna writes the 32 canonical bytes of the function X25519 of RFC 7748, of
  the clamped secret and the low 255 bits of the base point, and returns 0.
\<close>

theorem curve25519_donna_x25519:
  assumes "length mypublic = 32" "length secret = 32" "length basepoint = 32"
  shows "curve25519_donna mypublic secret basepoint =
    (le_bytes 32 (Rep_gf (x25519 (clamp (le_value secret)) (of_int (le_value basepoint mod 2 ^ 255)))), 0)"
  by (rule curve25519_donna_result [OF assms])

theorem curve25519_donna_x25519_witness:
  "curve25519_donna (replicate 32 0) (replicate 32 1) (9 # replicate 31 0) =
    (le_bytes 32 (Rep_gf (x25519 (clamp (le_value (replicate 32 1))) 9)), 0)"
  using curve25519_donna_x25519 [of "replicate 32 0" "replicate 32 1" "9 # replicate 31 0"] by simp

end
