(* ===== verification/Ladder.thy ===== *)
theory Ladder
  imports Base_Point Multiples Donna
begin

text \<open>
  What the ladder computes: with u = (1 + y) / (1 - y), the function of RFC 7748 multiplies
  points of the curve by the scalar. Two parties therefore derive the same secret.
\<close>

section \<open>Montgomery coordinates\<close>

definition mont_u :: "edpoint \<Rightarrow> gf" where
  "mont_u P = (1 + ey P) / (1 - ey P)"

text \<open>The pair (X, Z) stands for the u coordinate of \<open>P\<close>; X + Z and X - Z are in proportion 1 : y.\<close>

definition stands :: "xz \<Rightarrow> edpoint \<Rightarrow> bool" where
  "stands p P \<longleftrightarrow> fst p + snd p \<noteq> 0 \<and> fst p - snd p = (fst p + snd p) * ey P"

lemma stands_u:
  assumes "stands (x, z) P"
  shows "x / z = mont_u P"
proof -
  define a where "a = x + z"
  have a: "a \<noteq> 0" "x - z = a * ey P" using assms by (simp_all add: stands_def a_def)
  have x: "2 * x = a * (1 + ey P)" and z: "2 * z = a * (1 - ey P)"
    using a(2) unfolding a_def by algebra+
  have "x / z = (2 * x) / (2 * z)" using gf_two_ne_0 by simp
  also have "\<dots> = mont_u P" unfolding x z mont_u_def using a(1) by simp
  finally show ?thesis .
qed

lemma ed_d_y: "1 + ed_d * (y * y) \<noteq> 0"
proof
  assume e: "1 + ed_d * (y * y) = 0"
  then have "y \<noteq> 0" by auto
  moreover have "ed_i * ed_i = ed_d * (y * y)" using e ed_i_square by algebra
  ultimately show False using square_ratio by blast
qed

lemma two_points_denominator: "1 - ed_d * (ex P * ex P) * (ey P * ey P) \<noteq> 0"
  using ed_k_ne(2) [of P P] by (simp add: ed_k_def ac_simps)

lemma gf_121666: "(121666 :: gf) \<noteq> 0"
  by (rule gf_numeral_ne_0) (simp add: fe_p_def)

section \<open>The differential step\<close>

lemma stands_double:
  assumes "stands (x, z) P"
  defines "AA \<equiv> (x + z) * (x + z)" and "BB \<equiv> (x - z) * (x - z)"
  shows "stands (AA * BB, (AA - BB) * (AA + 121665 * (AA - BB))) (P + P)"
proof -
  define a where "a = x + z"
  define X where "X = ex P"
  define Y where "Y = ey P"
  define c :: gf where "c = 121666"
  have a: "a \<noteq> 0" "x - z = a * Y" using assms(1) by (simp_all add: stands_def a_def Y_def)
  have cd: "c * ed_d = 1 - c" using ed_d_ratio by (simp add: c_def)
  have cv: "Y * Y - X * X = 1 + ed_d * (X * X) * (Y * Y)" using ed_on_curve_eq [of P] by (simp add: X_def Y_def)
  have AB: "AA = a * a" "BB = a * a * (Y * Y)" unfolding AA_def BB_def a(2) by (simp_all add: a_def)
  have c1: "(121665 :: gf) = c - 1" by (simp add: c_def)
  have n: "1 + ed_d * (Y * Y) \<noteq> 0" "1 - ed_d * (X * X) * (Y * Y) \<noteq> 0" "c \<noteq> 0"
    using ed_d_y two_points_denominator [of P] gf_121666 by (simp_all add: X_def Y_def c_def)
  have s: "AA * BB + (AA - BB) * (AA + 121665 * (AA - BB)) =
      a * a * a * a * c * (1 + ed_d * (Y * Y)) * (1 - ed_d * (X * X) * (Y * Y))"
    unfolding AB c1 using cd cv by algebra
  have t: "AA * BB - (AA - BB) * (AA + 121665 * (AA - BB)) =
      a * a * a * a * c * (1 + ed_d * (Y * Y)) * (Y * Y + X * X)"
    unfolding AB c1 using cd cv by algebra
  have "ey (P + P) = (Y * Y + X * X) / (1 - ed_d * (X * X) * (Y * Y))"
    by (simp add: plus_coords ed_k_def X_def Y_def ac_simps)
  then show ?thesis unfolding stands_def fst_conv snd_conv s t using n a(1) by simp
qed

lemma difference_coords:
  assumes "D = Q - P \<or> D = P - Q"
  shows "ey D = (ey P * ey Q - ex P * ex Q) / (1 + ed_k P Q)"
proof -
  have "ey (A - B) = (ey A * ey B - ex A * ex B) / (1 + ed_k A B)" for A B
    unfolding minus_edpoint_def plus_coords uminus_coords ed_k_def by simp
  moreover have "ed_k Q P = ed_k P Q" "ey Q * ey P = ey P * ey Q" "ex Q * ex P = ex P * ex Q"
    unfolding ed_k_def by algebra+
  ultimately show ?thesis using assms by metis
qed

lemma difference_identity:
  fixes d :: "'a::field"
  assumes "y * y - x * x = 1 + d * (x * x) * (y * y)" "y' * y' - x' * x' = 1 + d * (x' * x') * (y' * y')"
  defines "k \<equiv> d * x * x' * y * y'" and "N \<equiv> y * y' + x * x'" and "M \<equiv> y * y' - x * x'"
  shows "(1 - k + N) * (1 + k + M) * ((y' - y) * (y' - y)) =
    (1 - k - N) * (1 + k - M) * ((y' + y) * (y' + y))"
  using assms(1,2) unfolding k_def N_def M_def by algebra

lemma stands_sum:
  assumes p: "stands (x2, z2) P" and q: "stands (x3, z3) Q" and D: "D = Q - P \<or> D = P - Q"
    and u: "u = mont_u D" "ey D \<noteq> 1" "ey D \<noteq> - 1"
  defines "DA \<equiv> (x3 - z3) * (x2 + z2)" and "CB \<equiv> (x3 + z3) * (x2 - z2)"
  shows "stands ((DA + CB) * (DA + CB), u * ((DA - CB) * (DA - CB))) (P + Q)"
proof -
  define X Y X' Y' where "X = ex P" and "Y = ey P" and "X' = ex Q" and "Y' = ey Q"
  define m where "m = (x2 + z2) * (x3 + z3)"
  define S T V W where "S = (Y' + Y) * (Y' + Y)" and "T = (Y' - Y) * (Y' - Y)"
    and "V = 1 + ey D" and "W = 1 - ey D"
  define k N M where "k = ed_k P Q" and "N = Y * Y' + X * X'" and "M = Y * Y' - X * X'"
  define s where "s = ey (P + Q)"
  have m: "m \<noteq> 0" using p q by (simp add: stands_def m_def)
  have dc: "DA = m * Y'" "CB = m * Y"
    using p q by (simp_all add: stands_def DA_def CB_def m_def Y_def Y'_def ac_simps)
  have VW: "V \<noteq> 0" "W \<noteq> 0" using u(2,3) by (auto simp: V_def W_def add_eq_0_iff)
  have kn: "1 + k \<noteq> 0" "1 - k \<noteq> 0" using ed_k_ne by (simp_all add: k_def)
  have yd: "ey D = M / (1 + k)" using difference_coords [OF D] by (simp add: M_def k_def X_def Y_def X'_def Y'_def)
  have ys: "s = N / (1 - k)" by (simp add: s_def plus_coords N_def k_def X_def Y_def X'_def Y'_def)
  have f: "1 - k + N = (1 - k) * (1 + s)" "1 - k - N = (1 - k) * (1 - s)"
    "1 + k + M = (1 + k) * V" "1 + k - M = (1 + k) * W"
    using kn by (simp_all add: ys V_def W_def yd distrib_left right_diff_distrib)
  have "(1 - k) * (1 + s) * ((1 + k) * V) * T = (1 - k) * (1 - s) * ((1 + k) * W) * S"
    using difference_identity [OF ed_on_curve_eq ed_on_curve_eq, of P Q] unfolding f [symmetric]
    by (simp add: S_def T_def k_def ed_k_def N_def M_def X_def Y_def X'_def Y'_def)
  then have "((1 - k) * (1 + k)) * ((1 + s) * V * T) = ((1 - k) * (1 + k)) * ((1 - s) * W * S)"
    by (simp only: ac_simps)
  then have "(1 + s) * V * T = (1 - s) * W * S" using kn by simp
  then have e: "W * S - V * T = (W * S + V * T) * s" by algebra
  have ne: "W * S + V * T \<noteq> 0"
  proof
    assume z: "W * S + V * T = 0"
    then have "W * S - V * T = 0" using e by simp
    with z have "2 * (W * S) = 0" "2 * (V * T) = 0" by algebra+
    then have "S = 0" "T = 0" using VW gf_two_ne_0 by simp_all
    then have "Y' + Y = 0" "Y' - Y = 0" by (simp_all add: S_def T_def)
    then have "2 * Y = 0" "Y' = Y" by algebra+
    then have "Y = 0" "Y' = 0" using gf_two_ne_0 by simp_all
    moreover from this have "X * X = - 1" "X' * X' = - 1"
      using ed_on_curve_eq [of P] ed_on_curve_eq [of Q]
      by (simp_all add: X_def Y_def X'_def Y'_def) algebra+
    ultimately have "ey D * ey D = 1" unfolding yd
      by (simp add: M_def k_def ed_k_def X_def Y_def X'_def Y'_def) algebra
    then have "ey D = 1 \<or> ey D = - 1" by (simp only: square_eq_1_iff)
    then show False using u(2,3) by blast
  qed
  have x': "(DA + CB) * (DA + CB) = m * m * S" "(DA - CB) * (DA - CB) = m * m * T"
    unfolding dc S_def T_def by (simp_all add: algebra_simps)
  have "u = V / W" by (simp add: u(1) mont_u_def V_def W_def)
  then have z': "u * ((DA - CB) * (DA - CB)) = m * m * (V * T) / W" unfolding x' by simp
  have "m * m * S = m * m * (W * S) / W" using VW by simp
  then have a: "(DA + CB) * (DA + CB) + u * ((DA - CB) * (DA - CB)) = m * m * (W * S + V * T) / W"
    and b: "(DA + CB) * (DA + CB) - u * ((DA - CB) * (DA - CB)) = m * m * (W * S - V * T) / W"
    unfolding x'(1) z' by (simp_all only: distrib_left right_diff_distrib add_divide_distrib diff_divide_distrib)
  show ?thesis unfolding stands_def fst_conv snd_conv a b e s_def [symmetric] using ne m VW by simp
qed

section \<open>The ladder\<close>

lemma fst_snd_swap: "fst (cswap b s) = (if b then snd s else fst s)" "snd (cswap b s) = (if b then fst s else snd s)"
  by (simp_all add: cswap_def)

lemma ladder_step:
  assumes p: "stands (fst s) P" and q: "stands (snd s) Q" and D: "D = Q - P \<or> D = P - Q"
    and u: "u = mont_u D" "ey D \<noteq> 1" "ey D \<noteq> - 1"
  shows "stands (fst (x25519_step u s)) (P + P)" "stands (snd (x25519_step u s)) (P + Q)"
proof -
  obtain x2 z2 x3 z3 where s: "s = ((x2, z2), (x3, z3))" by (metis surj_pair)
  have st: "stands (x2, z2) P" "stands (x3, z3) Q" using p q by (simp_all add: s)
  show "stands (fst (x25519_step u s)) (P + P)"
    using stands_double [OF st(1)] by (simp add: s Let_def)
  show "stands (snd (x25519_step u s)) (P + Q)"
    using stands_sum [OF st D u] by (simp add: s Let_def)
qed

lemma ladder_round:
  fixes b :: bool
  assumes s: "stands (fst s) (nmul n D)" "stands (snd s) (nmul (Suc n) D)"
    and u: "u = mont_u D" "ey D \<noteq> 1" "ey D \<noteq> - 1"
    and m: "m = 2 * n + of_bool b"
  shows "stands (fst (x25519_round u s b)) (nmul m D)" "stands (snd (x25519_round u s b)) (nmul (Suc m) D)"
proof -
  have d: "D = nmul (Suc n) D - nmul n D" by simp
  have e: "nmul n D + nmul (Suc n) D = nmul (2 * n + 1) D" "nmul (Suc n) D + nmul n D = nmul (2 * n + 1) D"
    "nmul n D + nmul n D = nmul (2 * n) D" "nmul (Suc n) D + nmul (Suc n) D = nmul (2 * n + 2) D"
    by (simp_all only: nmul_add [symmetric]) (simp_all add: mult_2)
  have "stands (fst (x25519_round u s b)) (nmul m D) \<and> stands (snd (x25519_round u s b)) (nmul (Suc m) D)"
  proof (cases b)
    case True
    have "stands (fst (cswap b s)) (nmul (Suc n) D)" "stands (snd (cswap b s)) (nmul n D)"
      using s True by (simp_all add: fst_snd_swap)
    from ladder_step [OF this _ u] d True show ?thesis
      by (simp add: x25519_round_def fst_snd_swap m e del: nmul.simps)
  next
    case False
    have "stands (fst (cswap b s)) (nmul n D)" "stands (snd (cswap b s)) (nmul (Suc n) D)"
      using s False by (simp_all add: fst_snd_swap)
    from ladder_step [OF this _ u] d False show ?thesis
      by (simp add: x25519_round_def fst_snd_swap m e del: nmul.simps)
  qed
  then show "stands (fst (x25519_round u s b)) (nmul m D)" "stands (snd (x25519_round u s b)) (nmul (Suc m) D)"
    by simp_all
qed

text \<open>The prefix of \<open>j\<close> bits, of the \<open>n\<close> low bits of the scalar.\<close>

lemma drop_bit_step: "(k :: int) div 2 ^ j = 2 * (k div 2 ^ Suc j) + of_bool (bit k j)"
proof -
  have "k div 2 ^ j = 2 * (k div 2 ^ j div 2) + k div 2 ^ j mod 2" by simp
  moreover have "k div 2 ^ j div 2 = k div 2 ^ Suc j" by (simp add: power_Suc2 zdiv_zmult2_eq del: power_Suc)
  moreover have "k div 2 ^ j mod 2 = of_bool (bit k j)" by (simp add: bit_iff_odd odd_iff_mod_2_eq_one)
  ultimately show ?thesis by simp
qed

lemma ladder_correct:
  assumes k: "0 \<le> k" "k < 2 ^ n" and u: "u = mont_u D" "ey D \<noteq> 1" "ey D \<noteq> - 1"
  shows "stands (fst (x25519_ladder n k u)) (nmul (nat k) D)"
proof -
  define s where "s j = foldl (x25519_round u) ((1, 0), (u, 1)) (map (bit k) (rev [n - j..<n]))" for j
  have "stands (fst (s j)) (nmul (nat (k div 2 ^ (n - j))) D) \<and>
      stands (snd (s j)) (nmul (Suc (nat (k div 2 ^ (n - j)))) D)" if "j \<le> n" for j
    using that
  proof (induction j)
    case 0
    have w: "1 - ey D \<noteq> 0" using u(2) by simp
    have a: "u + 1 = 2 / (1 - ey D)" "u - 1 = 2 * ey D / (1 - ey D)"
      using w by (simp_all add: u(1) mont_u_def add_divide_eq_iff diff_divide_eq_iff divide_diff_eq_iff field_simps)
    show ?case
      using k w gf_two_ne_0 by (simp add: s_def stands_def zero_coords a div_pos_pos_trivial)
  next
    case (Suc j)
    define i where "i = n - Suc j"
    have i: "n - j = Suc i" "i < n" using Suc.prems by (simp_all add: i_def)
    then have "[i..<n] = i # [Suc i..<n]" by (simp add: upt_conv_Cons)
    then have st: "s (Suc j) = x25519_round u (s j) (bit k i)"
      by (simp add: s_def i_def [symmetric] i(1))
    define q where "q = nat (k div 2 ^ Suc i)"
    have "stands (fst (s j)) (nmul q D)" "stands (snd (s j)) (nmul (Suc q) D)"
      using Suc by (simp_all add: i q_def del: nmul.simps)
    note r = ladder_round [OF this u refl, of "bit k i"]
    have "0 \<le> k div 2 ^ Suc i" using k(1) by (simp add: pos_imp_zdiv_nonneg_iff)
    then have "nat (k div 2 ^ i) = 2 * q + of_bool (bit k i)"
      unfolding drop_bit_step [of k i] q_def by (cases "bit k i") (simp_all add: nat_add_distrib nat_mult_distrib)
    then show ?case using r by (simp add: st i_def del: nmul.simps)
  qed
  from this [of n] show ?thesis by (simp add: s_def x25519_ladder_def)
qed

section \<open>The function X25519 on the curve\<close>

lemma x25519_quotient: "x25519 k u = fst (fst (x25519_ladder 256 k u)) / snd (fst (x25519_ladder 256 k u))"
  by (simp only: x25519_def Let_def divide_gf_def inverse_gf_def)

text \<open>The coordinate 0 belongs to the neutral point and to the point of order 2.\<close>

lemma mont_u_0:
  assumes "mont_u P = 0"
  shows "P + P = 0"
proof -
  have "1 + ey P = 0 \<or> 1 - ey P = 0" using assms by (simp add: mont_u_def)
  then have y: "ey P * ey P = 1" by (elim disjE) algebra+
  have "121666 * (ex P * ex P) * (1 + ed_d) = 0" using ed_on_curve_eq [of P] y by algebra
  moreover have "121666 * (1 + ed_d) = 1" using ed_d_ratio by algebra
  ultimately have "ex P * ex P = 0" by algebra
  then have "ex P = 0" by simp
  then show ?thesis by (intro edpoint_eqI) (simp_all add: plus_coords ed_k_def zero_coords y)
qed

lemma mont_u_neutral: "mont_u 0 = 0"
  by (simp add: mont_u_def zero_coords)

text \<open>The ladder on the coordinate 0 ends with Z = 0 after an even scalar.\<close>

lemma ladder_zero_step:
  assumes "fst (fst s) * snd (fst s) = 0"
  shows "snd (fst (x25519_step u s)) = 0" "snd (snd (x25519_step 0 s)) = 0"
proof -
  obtain x2 z2 x3 z3 where s: "s = ((x2, z2), (x3, z3))" by (metis surj_pair)
  have "x2 * z2 = 0" using assms by (simp add: s)
  then have "(x2 + z2) * (x2 + z2) - (x2 - z2) * (x2 - z2) = 0" by algebra
  then show "snd (fst (x25519_step u s)) = 0" "snd (snd (x25519_step 0 s)) = 0"
    by (simp_all add: s Let_def)
qed

lemma ladder_zero:
  assumes "even k"
  shows "x25519 k 0 = 0"
proof -
  define s where "s bs = foldl (x25519_round 0) ((1, 0), (0, 1)) bs" for bs
  have z: "fst (fst (s bs)) * snd (fst (s bs)) = 0 \<and> fst (snd (s bs)) * snd (snd (s bs)) = 0" for bs
  proof (induction bs rule: rev_induct)
    case (snoc b bs)
    define st where "st = x25519_step 0 (cswap b (s bs))"
    have "s (bs @ [b]) = cswap b st" by (simp add: s_def st_def x25519_round_def)
    moreover have "fst (fst (cswap b (s bs))) * snd (fst (cswap b (s bs))) = 0"
      using snoc by (simp add: fst_snd_swap)
    from ladder_zero_step [OF this] have "snd (fst st) = 0" "snd (snd st) = 0" by (simp_all add: st_def)
    ultimately show ?case by (simp add: fst_snd_swap)
  qed (simp add: s_def)
  have b0: "\<not> bit k 0" using assms by (simp add: bit_0)
  have "[0..<256] = 0 # [Suc 0..<256]" by (rule upt_conv_Cons) simp
  then have "x25519_ladder 256 k 0 = x25519_round 0 (s (map (bit k) (rev [Suc 0..<256]))) False"
    using b0 by (simp add: x25519_ladder_def s_def)
  then have "snd (fst (x25519_ladder 256 k 0)) = 0"
    using ladder_zero_step(1) z by (simp add: x25519_round_def fst_snd_swap)
  then show ?thesis by (simp add: x25519_quotient)
qed

lemma x25519_multiple:
  assumes k: "0 \<le> k" "k < 2 ^ 256" "even k"
  shows "x25519 k (mont_u P) = mont_u (nmul (nat k) P)"
proof (cases "mont_u P = 0")
  case True
  have "nmul (2 * n) P = 0" for n by (induction n) (simp_all add: nmul_double mont_u_0 [OF True])
  moreover have "nat k = 2 * (nat k div 2)" using k by (simp add: even_nat_iff)
  ultimately have "nmul (nat k) P = 0" by metis
  then show ?thesis using True ladder_zero [OF k(3)] by (simp add: mont_u_neutral)
next
  case False
  then have "ey P \<noteq> 1" "ey P \<noteq> - 1" by (auto simp: mont_u_def)
  from ladder_correct [OF k(1,2) refl this] show ?thesis
    using stands_u [of "fst (fst (x25519_ladder 256 k (mont_u P)))" "snd (fst (x25519_ladder 256 k (mont_u P)))"]
    by (simp add: x25519_quotient)
qed

lemma clamp_range: "0 \<le> clamp v" "clamp v < 2 ^ 255" "even (clamp v)"
proof -
  define w where "w = v mod 2 ^ 254 div 8"
  have "0 \<le> v mod 2 ^ 254" "v mod 2 ^ 254 < 2 ^ 254" by simp_all
  then have "0 \<le> w" "w < 2 ^ 251" by (simp_all add: w_def div_less_power [of 251 _ 3, simplified] pos_imp_zdiv_nonneg_iff)
  then show "0 \<le> clamp v" "clamp v < 2 ^ 255" "even (clamp v)"
    by (simp_all add: clamp_def w_def [symmetric])
qed

section \<open>The key agreement\<close>

definition public_value :: "edpoint \<Rightarrow> u8 list" where
  "public_value P = le_bytes 32 (Rep_gf (mont_u P))"

lemma public_value_bytes:
  "length (public_value P) = 32" "of_int (le_value (public_value P) mod 2 ^ 255) = mont_u P"
proof -
  define r where "r = Rep_gf (mont_u P)"
  have r: "0 \<le> r" "r < fe_p" using Rep_gf [of "mont_u P"] by (simp_all add: r_def)
  then have "r mod 256 ^ 32 = r" "r mod 2 ^ 255 = r" by (simp_all add: fe_p_def mod_pos_pos_trivial)
  then have "le_value (public_value P) mod 2 ^ 255 = r" by (simp add: public_value_def le_value_le_bytes r_def)
  moreover have "(of_int r :: gf) = mont_u P"
    using r by (simp add: r_def Rep_gf_inject [symmetric] Rep_gf_of_int mod_pos_pos_trivial)
  ultimately show "of_int (le_value (public_value P) mod 2 ^ 255) = mont_u P" by simp
  show "length (public_value P) = 32" by (simp add: public_value_def)
qed

lemma donna_multiple:
  assumes "length mypublic = 32" "length secret = 32" "length basepoint = 32"
    and "of_int (le_value basepoint mod 2 ^ 255) = mont_u P"
  shows "curve25519_donna mypublic secret basepoint =
    (public_value (nmul (nat (clamp (le_value secret))) P), 0)"
proof -
  note c = clamp_range [of "le_value secret"]
  have "clamp (le_value secret) < 2 ^ 256" using c(2) by simp
  from x25519_multiple [OF c(1) this c(3)] show ?thesis
    by (simp only: curve25519_donna_result [OF assms(1-3)] assms(4) public_value_def)
qed

lemma base_u: "mont_u base_point = 9"
proof -
  have "(of_int (10 * base_y) :: gf) = of_int 8" unfolding gf_of_int_eq by (simp add: base_y_def fe_p_def)
  then have y: "10 * ey base_point = 8" by (simp add: base_coords)
  have "1 - ey base_point \<noteq> 0"
  proof
    assume "1 - ey base_point = 0"
    then have "10 = (8 :: gf)" using y by simp
    moreover have "10 - 8 = (2 :: gf)" by simp
    ultimately show False using gf_two_ne_0 by simp
  qed
  moreover have "1 + ey base_point = 9 * (1 - ey base_point)"
  proof -
    have "1 + ey base_point - 9 * (1 - ey base_point) = 10 * ey base_point - 8" by (simp add: algebra_simps)
    then show ?thesis using y by simp
  qed
  ultimately show ?thesis unfolding mont_u_def by (rule nonzero_divide_eq_eq [THEN iffD2])
qed

section \<open>Properties\<close>

text \<open>
  C12: on the u coordinate of a point of the curve, curve25519_donna writes the u coordinate of
  the multiple of the point by the clamped secret (0 for the neutral point).
\<close>

theorem curve25519_donna_multiple:
  assumes "length mypublic = 32" "length secret = 32" "length basepoint = 32"
    and "of_int (le_value basepoint mod 2 ^ 255) = mont_u P"
  shows "curve25519_donna mypublic secret basepoint =
    (le_bytes 32 (Rep_gf (mont_u (nmul (nat (clamp (le_value secret))) P))), 0)"
  using donna_multiple [OF assms] by (simp only: public_value_def)

lemma donna_base:
  assumes "length out = 32" "length secret = 32"
  shows "curve25519_donna out secret (9 # replicate 31 0) =
    (public_value (nmul (nat (clamp (le_value secret))) base_point), 0)"
  by (rule donna_multiple) (use assms in \<open>simp_all add: base_u\<close>)

theorem curve25519_donna_multiple_witness:
  "curve25519_donna (replicate 32 0) (replicate 32 5) (9 # replicate 31 0) =
    (le_bytes 32 (Rep_gf (mont_u (nmul (nat (clamp (le_value (replicate 32 5)))) base_point))), 0)"
proof -
  have "of_int (le_value (9 # replicate 31 0) mod 2 ^ 255) = mont_u base_point" by (simp add: base_u)
  from curve25519_donna_multiple [OF _ _ _ this] show ?thesis by simp
qed

text \<open>
  C2: the two parties of a key agreement derive the same 32 bytes: each applies
  curve25519_donna to its own secret and to the public value the other computed with the base
  point 9.
\<close>

theorem curve25519_key_agreement:
  assumes "length a = 32" "length b = 32" "length out = 32" "length out' = 32"
  defines "public \<equiv> \<lambda>secret. fst (curve25519_donna out secret (9 # replicate 31 0))"
  shows "curve25519_donna out' a (public b) = curve25519_donna out' b (public a)"
proof -
  define m where "m s = nat (clamp (le_value s))" for s
  have p: "public s = public_value (nmul (m s) base_point)" if "length s = 32" for s
    using donna_base [OF assms(3) that] by (simp add: public_def m_def)
  have s: "curve25519_donna out' s (public t) = (public_value (nmul (m s * m t) base_point), 0)"
    if "length s = 32" "length t = 32" for s t
    unfolding p [OF that(2)] nmul_mult m_def
    by (rule donna_multiple) (use assms that public_value_bytes in simp_all)
  show ?thesis using s [OF assms(1,2)] s [OF assms(2,1)] by (simp add: mult.commute)
qed

theorem curve25519_key_agreement_witness:
  "curve25519_donna (replicate 32 0) (replicate 32 1)
     (fst (curve25519_donna (replicate 32 0) (replicate 32 2) (9 # replicate 31 0))) =
   curve25519_donna (replicate 32 0) (replicate 32 2)
     (fst (curve25519_donna (replicate 32 0) (replicate 32 1) (9 # replicate 31 0)))"
  using curve25519_key_agreement [of "replicate 32 1" "replicate 32 2" "replicate 32 0" "replicate 32 0"] by simp

end
