(* ===== verification/Sign_Verify.thy ===== *)
theory Sign_Verify
  imports Base_Order Prime_Order Ed25519_Sign Ladder
begin

text \<open>
  What the signatures are for: a signature made by the library verifies under the public key
  of its secret. The components come together here: scalars, tables, encodings, hash and, for
  the signatures with Curve25519 keys, curve25519-donna.
\<close>

section \<open>Scalars modulo the order\<close>

lemma zmul_mod_order: "zmul (x mod sc_l) base_point = zmul x base_point"
proof -
  have "zmul x base_point = zmul ((x div sc_l) * sc_l + x mod sc_l) base_point" by simp
  also have "\<dots> = zmul (x div sc_l) (zmul sc_l base_point) + zmul (x mod sc_l) base_point"
    by (simp only: zmul_add zmul_mult)
  also have "zmul (x div sc_l) (zmul sc_l base_point) = 0"
    unfolding order_annihilates using zmul_mult [of "x div sc_l" 0] by simp
  finally show ?thesis by simp
qed

lemma scalarmult_base_bytes:
  assumes "length s = 32" "le_value s < 2 ^ 255"
  shows "ge_p3_tobytes (ge_scalarmult_base s) = encode (zmul (le_value s) base_point)"
  by (rule ge_p3_tobytes_at [OF ge_scalarmult_base_at [OF assms]])

lemma hash_scalar_range: "0 \<le> hash_scalar m" "hash_scalar m < 2 ^ 255"
  using sc_l_bound by (simp_all add: hash_scalar_def)

lemma scalar_bytes:
  assumes "0 \<le> x" "x < 2 ^ 255"
  shows "le_value (le_bytes 32 x) = x"
proof -
  have "(2 :: int) ^ 255 \<le> 256 ^ 32" by simp
  with assms(2) have "x < 256 ^ 32" by (rule order_less_le_trans)
  with assms(1) show ?thesis by (simp only: le_value_le_bytes mod_pos_pos_trivial)
qed

section \<open>The equation of the verifier\<close>

lemma signature_parts:
  assumes "0 \<le> r" "r < 2 ^ 255"
  defines "R \<equiv> encode (zmul r base_point)"
  shows "ed_signature a r pk m = R @ le_bytes 32 ((hash_scalar (R @ pk @ m) * a + r) mod sc_l)"
proof -
  have "ge_p3_tobytes (ge_scalarmult_base (le_bytes 32 r)) = R"
    using scalarmult_base_bytes [of "le_bytes 32 r"] assms(2) unfolding R_def
    by (simp only: scalar_bytes [OF assms(1,2)] length_le_bytes)
  then show ?thesis by (simp only: ed_signature_def Let_def)
qed

lemma open_accepts_signature:
  assumes r: "0 \<le> r" "r < 2 ^ 255" and pk: "pk = encode (zmul a base_point)"
  shows "open_accepts (ed_signature a r pk m @ m) pk"
proof -
  define R h where "R = encode (zmul r base_point)" and "h = hash_scalar (R @ pk @ m)"
  define S where "S = le_bytes 32 ((h * a + r) mod sc_l)"
  define A' where "A' = snd (ge_frombytes_negate_vartime ge_p3_0 pk)"
  have sig: "ed_signature a r pk m = R @ S" by (simp only: signature_parts [OF r] R_def h_def S_def)
  have l: "length R = 32" "length S = 32" by (simp_all add: R_def S_def)
  have top: "(ed_signature a r pk m @ m) ! 63 AND 224 = 0"
  proof -
    define b where "b = ed_signature a r pk m ! 63"
    have "uint b < 32" using ed_signature_top by (simp add: b_def)
    then have "b AND 31 = b" using and_mask_int [where 'a=8, of "uint b" 5] by (simp add: mod_pos_pos_trivial)
    then have "b AND 224 = b AND (31 AND 224)" by (metis and.assoc)
    then show ?thesis by (simp add: b_def nth_append)
  qed
  have A': "p3_at A' (- zmul a base_point)" unfolding A'_def pk by (rule decode_encode(2))
  have hv: "le_value (le_bytes 32 h) = h" "h < 2 ^ 255"
    using hash_scalar_range by (simp_all only: h_def scalar_bytes)
  have Sv: "le_value S = (h * a + r) mod sc_l" "le_value S < 2 ^ 255"
    unfolding S_def le_value_scalar using sc_l_bound by simp_all
  have "p2_at (ge_double_scalarmult_vartime (le_bytes 32 h) A' S)
      (zmul (le_value (le_bytes 32 h)) (- zmul a base_point) + zmul (le_value S) base_point)"
    using hv l(2) Sv(2) by (intro ge_double_scalarmult_at A') simp_all
  moreover have "zmul h (- zmul a base_point) + zmul (h * a + r) base_point = zmul r base_point"
    by (simp add: zmul_neg_point zmul_add zmul_mult)
  ultimately have "ge_tobytes (ge_double_scalarmult_vartime (le_bytes 32 h) A' S) = R"
    using ge_tobytes_at by (simp only: hv(1) Sv(1) zmul_mod_order R_def)
  then have "ed_check A' R S pk m" by (simp only: ed_check_def h_def)
  moreover have "fst (ge_frombytes_negate_vartime ge_p3_0 pk) = 0" unfolding pk by (rule decode_encode(1))
  ultimately show ?thesis
    using top l unfolding open_accepts_def sig by (simp add: A'_def subbuf_def)
qed

section \<open>The order of the base point\<close>

lemma base_point_ne_0: "base_point \<noteq> 0"
proof
  assume "base_point = 0"
  then have "(of_int base_x :: gf) = of_int 0" using base_coords(1) by (simp add: zero_coords)
  then have "base_x mod fe_p = 0" by (simp only: gf_of_int_eq) simp
  then show False by (simp add: base_x_def fe_p_def)
qed

lemma zmul_zero_iff: "zmul k base_point = 0 \<longleftrightarrow> sc_l dvd k"
proof
  assume k: "zmul k base_point = 0"
  show "sc_l dvd k"
  proof (rule ccontr)
    assume "\<not> sc_l dvd k"
    then have "coprime k sc_l" by (rule prime_coprime [OF prime_sc_l])
    then obtain x y where "x * k + y * sc_l = 1" using bezout_int [of k sc_l] by (auto simp: coprime_iff_gcd_eq_1)
    then have "zmul (x * k + y * sc_l) base_point = base_point" by simp
    moreover have "zmul (x * k + y * sc_l) base_point = zmul x 0 + zmul y 0"
      by (simp only: zmul_add zmul_mult k order_annihilates)
    moreover have "zmul x 0 = 0" for x using zmul_mult [of x 0 base_point] by simp
    ultimately show False using base_point_ne_0 by simp
  qed
next
  assume "sc_l dvd k"
  then have "k mod sc_l = 0" by simp
  then show "zmul k base_point = 0" using zmul_mod_order [of k] by simp
qed

lemma zmul_eq_iff: "zmul m base_point = zmul n base_point \<longleftrightarrow> m mod sc_l = n mod sc_l"
proof -
  have "zmul m base_point - zmul n base_point = zmul (m - n) base_point"
    using zmul_add [of m "- n" base_point] by (simp add: zmul_minus)
  then have "zmul m base_point = zmul n base_point \<longleftrightarrow> sc_l dvd m - n"
    using zmul_zero_iff [of "m - n"] by (metis eq_iff_diff_eq_0)
  then show ?thesis by (simp only: mod_eq_dvd_iff)
qed

lemma scalarmult_base_reduced:
  assumes "length s = 64"
  shows "ge_p3_tobytes (ge_scalarmult_base (take 32 (sc_reduce s))) = encode (zmul (le_value s) base_point)"
proof -
  note v = sc_reduce_correct [OF assms]
  have "length (take 32 (sc_reduce s)) = 32" using assms by (simp add: sc_reduce_def)
  moreover have "le_value (take 32 (sc_reduce s)) < 2 ^ 255" unfolding v using sc_l_bound by simp
  ultimately show ?thesis by (simp only: scalarmult_base_bytes v zmul_mod_order)
qed

text \<open>A clamped scalar is a multiple of 8 between 2^254 and 2^255, less than 8 l.\<close>

lemma clamped_multiple_ne_0: "zmul (clamp v) base_point \<noteq> 0"
proof
  define w where "w = v mod 2 ^ 254 div 8"
  have c: "clamp v = 2 ^ 254 + 8 * w" unfolding clamp_def w_def by simp
  assume "zmul (clamp v) base_point = 0"
  then have "sc_l dvd 8 * (2 ^ 251 + w)" unfolding zmul_zero_iff c by (simp add: distrib_left)
  moreover have "\<not> sc_l dvd 8" using zdvd_imp_le [of sc_l 8] by (auto simp: sc_l_def)
  ultimately have "sc_l dvd 2 ^ 251 + w" using prime_dvd_product [OF prime_sc_l] by blast
  moreover have "0 \<le> w" "w < 2 ^ 251"
  proof -
    define u where "u = v mod 2 ^ 254"
    have "0 \<le> u" "u < 2 ^ 254" by (simp_all add: u_def)
    then show "0 \<le> w" "w < 2 ^ 251" by (simp_all add: w_def u_def [symmetric] pos_imp_zdiv_nonneg_iff)
  qed
  ultimately show False using zdvd_imp_le [of sc_l "2 ^ 251 + w"] by (simp add: sc_l_def)
qed

section \<open>The Edwards key of a public value\<close>

lemma mont_u_inverse:
  assumes "P \<noteq> 0"
  shows "(mont_u P - 1) * (mont_u P + 1) ^ (2 ^ 255 - 21) = ey P"
proof -
  define w where "w = 1 - ey P"
  have w: "w \<noteq> 0"
  proof
    assume "w = 0"
    then have y: "ey P = 1" by (simp add: w_def)
    then have "ed_curve (ex P) 1" "ed_curve 0 1" using ed_on_curve [of P] by (simp_all add: ed_curve_def)
    then have "ex P = 0" using same_y by force
    then show False using assms y by (auto intro: edpoint_eqI simp: zero_coords)
  qed
  have u: "mont_u P - 1 = 2 * ey P / w" "mont_u P + 1 = 2 / w"
  proof -
    have "mont_u P - 1 = ((1 + ey P) - w) / w" "mont_u P + 1 = ((1 + ey P) + w) / w"
      using w by (simp_all add: mont_u_def w_def [symmetric] diff_divide_distrib add_divide_distrib)
    then show "mont_u P - 1 = 2 * ey P / w" "mont_u P + 1 = 2 / w" by (simp_all add: w_def)
  qed
  have "(mont_u P - 1) * inverse (mont_u P + 1) = ey P"
    unfolding u using w gf_two_ne_0 by simp
  then show ?thesis by (simp only: inverse_gf_def)
qed

lemma mont_to_ed_encode:
  assumes "P \<noteq> 0" "uint b div 128 = Rep_gf (ex P) mod 2"
  shows "mont_to_ed (public_value P) b = encode P"
  by (rule le_value_inj) (simp_all only: mont_to_ed_bytes [OF public_value_bytes(1)] public_value_bytes(2)
    mont_u_inverse [OF assms(1)] assms(2) encode_number(1) length_encode)

section \<open>Signatures with Curve25519 keys\<close>

lemma sign_bit_roundtrip:
  assumes "length sig = 64" "uint (sig ! 63) < 128"
  shows "without_sign_bit (with_sign_bit sig b) = sig" "uint (with_sign_bit sig b ! 63) div 128 = uint b div 128"
proof -
  define c where "c = sig ! 63"
  have c: "uint c < 128" using assms(2) by (simp add: c_def)
  have h: "b AND 128 = push_bit 7 (drop_bit 7 b)" by (rule byte_masks)
  have ub: "uint b div 128 < 2" using u8_bounds [of b] by simp
  have j: "uint (c OR (b AND 128)) = uint c + uint b div 128 * 128"
    unfolding h using c ub by (subst uint_join_byte) (simp_all add: uint_high_bits)
  show "uint (with_sign_bit sig b ! 63) div 128 = uint b div 128"
    using assms(1) c by (simp add: with_sign_bit_def c_def [symmetric] j)
  have "(c OR (b AND 128)) AND 127 = c"
    using j c by (simp add: word_uint_eq_iff uint_low_bits mod_pos_pos_trivial)
  then show "without_sign_bit (with_sign_bit sig b) = sig"
    using assms(1) by (simp add: without_sign_bit_def with_sign_bit_def c_def)
qed

lemma curve_signature_accepted:
  assumes sk: "length sk = 32" "clamp (le_value sk) = le_value sk"
  defines "A \<equiv> zmul (le_value sk) base_point"
  shows "open_accepts (without_sign_bit (curve_signature sk m random) @ m)
    (mont_to_ed (public_value A) (curve_signature sk m random ! 63))"
proof -
  define r sig where "r = curve_nonce sk m random" and "sig = ed_signature (le_value sk) r (encode A) m"
  have v: "le_value sk < 2 ^ 255" using clamp_range(2) [of "le_value sk"] sk(2) by simp
  have pk: "ge_p3_tobytes (ge_scalarmult_base sk) = encode A"
    unfolding A_def by (rule scalarmult_base_bytes [OF sk(1) v])
  have x: "curve_signature sk m random = with_sign_bit sig (encode A ! 31)"
    by (simp only: curve_signature_def Let_def pk sig_def r_def)
  have s: "length sig = 64" "uint (sig ! 63) < 128"
    unfolding sig_def using ed_signature_top [of "le_value sk" r "encode A" m] by simp_all
  have "A \<noteq> 0" using clamped_multiple_ne_0 [of "le_value sk"] by (simp add: A_def sk(2))
  then have "mont_to_ed (public_value A) (curve_signature sk m random ! 63) = encode A"
    unfolding x by (rule mont_to_ed_encode)
      (simp only: sign_bit_roundtrip(2) [OF s] top_bit_div [OF length_encode] encode_number(3))
  moreover have "open_accepts (sig @ m) (encode A)"
    unfolding sig_def A_def r_def curve_nonce_def by (rule open_accepts_signature [OF hash_scalar_range refl])
  ultimately show ?thesis by (simp only: x sign_bit_roundtrip(1) [OF s])
qed

section \<open>Properties\<close>

text \<open>
  C10: reducing a 64-byte scalar with sc_reduce.c and multiplying the base point by the result with
  ge_scalarmult_base.c encodes the multiple of the base point by the unreduced scalar; and nothing
  more is lost: two scalars give the same 32 bytes exactly when they are congruent modulo the
  order l of the base point.
\<close>

theorem scalarmult_base_residues:
  assumes "length s = 64" "length t = 64"
  shows "ge_p3_tobytes (ge_scalarmult_base (take 32 (sc_reduce s))) =
      encode (zmul (le_value s) base_point) \<and>
    (ge_p3_tobytes (ge_scalarmult_base (take 32 (sc_reduce s))) =
        ge_p3_tobytes (ge_scalarmult_base (take 32 (sc_reduce t))) \<longleftrightarrow>
      le_value s mod sc_l = le_value t mod sc_l)"
  unfolding scalarmult_base_reduced [OF assms(1)] scalarmult_base_reduced [OF assms(2)]
  by (simp add: encode_inj_iff zmul_eq_iff)

theorem scalarmult_base_residues_witness:
  "ge_p3_tobytes (ge_scalarmult_base (take 32 (sc_reduce (le_bytes 64 (sc_l + 9))))) =
      ge_p3_tobytes (ge_scalarmult_base (take 32 (sc_reduce (9 # replicate 63 0)))) \<and>
    ge_p3_tobytes (ge_scalarmult_base (take 32 (sc_reduce (8 # replicate 63 0)))) \<noteq>
      ge_p3_tobytes (ge_scalarmult_base (take 32 (sc_reduce (9 # replicate 63 0))))"
proof -
  have l: "length (le_bytes 64 (sc_l + 9)) = 64" "length (9 # replicate 63 (0 :: u8)) = 64"
    "length (8 # replicate 63 (0 :: u8)) = 64" by simp_all
  have v: "le_value (le_bytes 64 (sc_l + 9)) mod sc_l = 9 mod sc_l"
    "le_value (9 # replicate 63 0) = 9" "le_value (8 # replicate 63 0) = 8"
    by (simp_all add: le_value_le_bytes sc_l_def)
  have n: "(8 :: int) mod sc_l \<noteq> 9 mod sc_l" by (simp add: sc_l_def)
  show ?thesis
    using scalarmult_base_residues [OF l(1,2), THEN conjunct2]
      scalarmult_base_residues [OF l(3,2), THEN conjunct2] v(1) n
    unfolding v(2,3) by (simp only: simp_thms)
qed

text \<open>
  C3: crypto_sign_open of open.c returns the message of every signature that crypto_sign of
  sign.c makes with a key whose second half is the public key of its first half.
\<close>

theorem crypto_sign_open_sign:
  assumes "length m + 64 \<le> length sm" "length m + 64 \<le> length out" "length m + 64 < 2 ^ 64" "length sk = 64"
    and "drop 32 sk = ge_p3_tobytes (ge_scalarmult_base
      (le_bytes 32 (clamp (le_value (take 32 (sha512_spec (take 32 sk)))))))"
  shows "crypto_sign_open out (take (length m + 64) (fst (snd (crypto_sign sm m sk)))) (drop 32 sk) =
    (0, m @ replicate 64 0 @ drop (length m + 64) out, of_nat (length m))"
proof -
  define az where "az = sha512_spec (take 32 sk)"
  define a r where "a = clamp (le_value (take 32 az))" and "r = hash_scalar (drop 32 az @ m)"
  define sig where "sig = ed_signature a r (drop 32 sk) m"
  have "take (length m + 64) (fst (snd (crypto_sign sm m sk))) = sig @ m"
    unfolding sig_def a_def r_def az_def by (rule crypto_sign_layout [OF assms(1,3,4)])
  moreover have "drop 32 sk = encode (zmul a base_point)"
    unfolding assms(5) using clamp_range [of "le_value (take 32 az)"]
    by (subst scalarmult_base_bytes) (simp_all only: scalar_bytes length_le_bytes a_def az_def)
  then have "open_accepts (sig @ m) (drop 32 sk)"
    unfolding sig_def r_def by (rule open_accepts_signature [OF hash_scalar_range])
  moreover have "length sig = 64" by (simp add: sig_def)
  ultimately show ?thesis using assms(2-4) by (simp add: crypto_sign_open_result add.commute)
qed

theorem crypto_sign_open_sign_witness:
  "\<exists>pk. crypto_sign_open (replicate 67 1) (take 67 (fst (snd (crypto_sign (replicate 80 0) [1, 2, 3]
    (replicate 32 7 @ pk))))) pk = (0, [1, 2, 3] @ replicate 64 0, 3)"
proof -
  define pk where "pk = ge_p3_tobytes (ge_scalarmult_base
    (le_bytes 32 (clamp (le_value (take 32 (sha512_spec (replicate 32 7)))))))"
  have "length pk = 32" by (simp add: pk_def)
  with crypto_sign_open_sign [of "[1, 2, 3]" "replicate 80 0" "replicate 67 1" "replicate 32 7 @ pk"]
  show ?thesis by (intro exI [of _ pk]) (simp add: pk_def)
qed

text \<open>
  C1: a signature that curve25519_sign makes with a clamped secret is accepted by
  curve25519_verify under the public value that curve25519_donna computes from that secret.
\<close>

theorem curve25519_verify_sign:
  assumes "length sk = 32" "clamp (le_value sk) = le_value sk" "length random = 64" "length out = 32"
    and "length m + 128 \<le> length b" "64 + length m \<le> length b1" "64 + length m \<le> length b2"
    and "length m + 128 < 2 ^ 64"
  shows "curve25519_verify (Some b1) (Some b2) (snd (curve25519_sign (Some b) sk m random))
    (fst (curve25519_donna out sk (9 # replicate 31 0))) m = 0"
proof -
  have "nat (clamp (le_value sk)) = nat (le_value sk)" "zmul (le_value sk) base_point = nmul (nat (le_value sk)) base_point"
    using zmul_nat [of "nat (le_value sk)" base_point] by (simp_all add: assms(2))
  then have "fst (curve25519_donna out sk (9 # replicate 31 0)) = public_value (zmul (le_value sk) base_point)"
    by (simp only: donna_base [OF assms(4,1)] fst_conv)
  moreover have "length (curve_signature sk m random) = 64"
    by (simp add: curve_signature_def Let_def with_sign_bit_def)
  moreover have "64 + length m < 2 ^ 64" using assms(8) by simp
  ultimately show ?thesis
    using curve_signature_accepted [OF assms(1,2), of m random]
    by (simp only: curve25519_sign_result [OF assms(5,8,1,3)] snd_conv
      curve25519_verify_result [OF assms(6,7)] if_True)
qed

theorem curve25519_verify_sign_witness:
  "curve25519_verify (Some (replicate 131 0)) (Some (replicate 131 0))
    (snd (curve25519_sign (Some (replicate 131 0)) (replicate 32 64) [1, 2, 3] (replicate 64 5)))
    (fst (curve25519_donna (replicate 32 0) (replicate 32 64) (9 # replicate 31 0))) [1, 2, 3] = 0"
proof -
  have "le_value (replicate 32 64) = 29061543965444064733758992315905984716114819680788219994216805398064471752768" by code_simp
  then have "clamp (le_value (replicate 32 64)) = le_value (replicate 32 64)" by (simp add: clamp_def)
  from curve25519_verify_sign [OF _ this, of "replicate 64 5" "replicate 32 0" "[1, 2, 3]"
    "replicate 131 0" "replicate 131 0" "replicate 131 0"] show ?thesis by simp
qed

end
