(* ===== verification/Fips_180.thy ===== *)
theory Fips_180
  imports Sha512 Primality Complex_Main
begin

text \<open>
  SHA-512 as FIPS 180-4 defines it, written from the standard and not from the code: the functions
  of section 4.1.3 over word_rotr, the constants of 4.2.3 and 5.3.5 by their definition
  as the first 64 bits of the fractional parts of the cube and square roots of the first primes,
  the schedule, the rounds and the digest of 6.4. The model of nacl_sha512 computes this function.
\<close>

section \<open>The standard\<close>

definition fips_Ch :: "u64 \<Rightarrow> u64 \<Rightarrow> u64 \<Rightarrow> u64" where
  "fips_Ch x y z = (x AND y) XOR (NOT x AND z)"

definition fips_Maj :: "u64 \<Rightarrow> u64 \<Rightarrow> u64 \<Rightarrow> u64" where
  "fips_Maj x y z = (x AND y) XOR (x AND z) XOR (y AND z)"

definition fips_Sigma0 :: "u64 \<Rightarrow> u64" where
  "fips_Sigma0 x = word_rotr 28 x XOR word_rotr 34 x XOR word_rotr 39 x"

definition fips_Sigma1 :: "u64 \<Rightarrow> u64" where
  "fips_Sigma1 x = word_rotr 14 x XOR word_rotr 18 x XOR word_rotr 41 x"

definition fips_sigma0 :: "u64 \<Rightarrow> u64" where
  "fips_sigma0 x = word_rotr 1 x XOR word_rotr 8 x XOR drop_bit 7 x"

definition fips_sigma1 :: "u64 \<Rightarrow> u64" where
  "fips_sigma1 x = word_rotr 19 x XOR word_rotr 61 x XOR drop_bit 6 x"

text \<open>The first 80 primes are those below 410 (\<open>fips_primes_eq\<close>).\<close>

definition fips_primes :: "int list" where
  "fips_primes = filter is_prime [0..409]"

definition frac_bits :: "real \<Rightarrow> u64" where
  "frac_bits x = word_of_int \<lfloor>2 ^ 64 * frac x\<rfloor>"

definition fips_K :: "nat \<Rightarrow> u64" where
  "fips_K t = frac_bits (root 3 (of_int (fips_primes ! t)))"

definition fips_H0 :: "nat \<Rightarrow> u64" where
  "fips_H0 i = frac_bits (sqrt (of_int (fips_primes ! i)))"

function fips_W :: "(nat \<Rightarrow> u64) \<Rightarrow> nat \<Rightarrow> u64" where
  "fips_W M t =
     (if t \<le> 15 then M t
      else fips_sigma1 (fips_W M (t - 2)) + fips_W M (t - 7) + fips_sigma0 (fips_W M (t - 15)) +
        fips_W M (t - 16))"
  by pat_completeness auto
termination by (relation "measure snd") auto

declare fips_W.simps [simp del]

text \<open>The working variables a, \<open>\<dots>\<close>, h are numbered 0 to 7.\<close>

definition fips_round :: "(nat \<Rightarrow> u64) \<Rightarrow> (nat \<Rightarrow> u64) \<Rightarrow> nat \<Rightarrow> nat \<Rightarrow> u64" where
  "fips_round W v t =
     (let T1 = v 7 + fips_Sigma1 (v 4) + fips_Ch (v 4) (v 5) (v 6) + fips_K t + W t;
          T2 = fips_Sigma0 (v 0) + fips_Maj (v 0) (v 1) (v 2)
      in (\<lambda>i. if i = 0 then T1 + T2 else if i = 4 then v 3 + T1 else v (i - 1)))"

definition fips_block :: "(nat \<Rightarrow> u64) \<Rightarrow> (nat \<Rightarrow> u64) \<Rightarrow> nat \<Rightarrow> u64" where
  "fips_block H M = (\<lambda>i. foldl (fips_round (fips_W M)) H [0..<80] i + H i)"

text \<open>The N blocks of the padded message, each of 16 big-endian words.\<close>

definition fips_message :: "u8 list \<Rightarrow> nat \<Rightarrow> nat \<Rightarrow> u64" where
  "fips_message m i t = be_word (take 8 (drop (128 * i + 8 * t) (sha512_pad m)))"

definition fips_sha512 :: "u8 list \<Rightarrow> u8 list" where
  "fips_sha512 m =
     (let H = foldl fips_block fips_H0
            (map (fips_message m) [0..<length (sha512_pad m) div 128])
      in concat (map (\<lambda>i. be_bytes 8 (unat (H i))) [0..<8]))"

section \<open>The constants\<close>

definition small_primes :: "int list" where
  "small_primes = [2, 3, 5, 7, 11, 13, 17, 19]"

definition no_small_factor :: "int \<Rightarrow> bool" where
  "no_small_factor n = (1 < n \<and> list_all (\<lambda>q. n = q \<or> n mod q \<noteq> 0) small_primes)"

lemma small_prime_divisor:
  assumes "2 \<le> d" "d \<le> 20"
  obtains q where "q \<in> set small_primes" "q dvd d"
proof -
  have "list_all (\<lambda>d. list_ex (\<lambda>q. d mod q = 0) small_primes) [2..20]" by code_simp
  moreover have "d \<in> set [2..20]" using assms by (simp only: set_upto atLeastAtMost_iff)
  ultimately have "list_ex (\<lambda>q. d mod q = 0) small_primes" by (simp only: list_all_iff)
  with that show thesis by (auto simp only: list_ex_iff dvd_eq_mod_eq_0)
qed

lemma composite_divisor:
  assumes "1 < n" "n < 441" "\<not> is_prime n"
  obtains d where "2 \<le> d" "d \<le> 20" "d < n" "d dvd n"
proof -
  from assms(1,3) obtain d where d: "1 < d" "d dvd n" "d \<noteq> n" unfolding is_prime_def by blast
  then have dn: "d < n" using zdvd_imp_le [of d n] assms(1) by simp
  from d(2) obtain e where e: "n = d * e" by (rule dvdE)
  have e0: "0 < e" using e d(1) assms(1) by (intro zero_less_mult_pos [of d e]) simp_all
  moreover have "e \<noteq> 1" using e d(3) by auto
  ultimately have e1: "2 \<le> e" by simp
  show thesis
  proof (cases "d \<le> 20")
    case True
    with d dn show thesis by (intro that [of d]) simp_all
  next
    case False
    have "e \<le> 20"
    proof (rule ccontr)
      assume "\<not> e \<le> 20"
      with False have "21 * 21 \<le> d * e" by (intro mult_mono) simp_all
      with e assms(2) show False by simp
    qed
    moreover have "e dvd n" "e < n" using e d(1) e0 by simp_all
    ultimately show thesis using e1 by (intro that [of e])
  qed
qed

lemma is_prime_below_441:
  assumes "n < 441"
  shows "is_prime n = no_small_factor n"
proof
  assume n: "is_prime n"
  have "n = q \<or> n mod q \<noteq> 0" if "1 < q" for q
    using n that unfolding is_prime_def by (auto simp only: dvd_eq_mod_eq_0)
  moreover have "\<forall>q \<in> set small_primes. 1 < q" by (simp add: small_primes_def)
  ultimately show "no_small_factor n"
    using n unfolding no_small_factor_def list_all_iff is_prime_def by blast
next
  assume n: "no_small_factor n"
  show "is_prime n"
  proof (rule ccontr)
    assume "\<not> is_prime n"
    moreover have "1 < n" using n by (simp only: no_small_factor_def)
    ultimately obtain d where d: "2 \<le> d" "d \<le> 20" "d < n" "d dvd n"
      using composite_divisor assms by metis
    from d(1,2) obtain q where q: "q \<in> set small_primes" "q dvd d" by (rule small_prime_divisor)
    have "n mod q = 0" by (intro dvd_imp_mod_0 dvd_trans [OF q(2) d(4)])
    moreover from n have "\<forall>q \<in> set small_primes. n = q \<or> n mod q \<noteq> 0"
      unfolding no_small_factor_def list_all_iff by (rule conjunct2)
    then have "n = q \<or> n mod q \<noteq> 0" using q(1) by (rule bspec)
    ultimately have "n = q" by simp
    moreover have "q \<le> d" using q(2) d(1) by (intro zdvd_imp_le) simp_all
    ultimately show False using d(3) by linarith
  qed
qed

lemma primes_below_410:
  "filter no_small_factor [0..99] =
    [2, 3, 5, 7, 11, 13, 17, 19, 23, 29, 31, 37, 41, 43, 47, 53, 59, 61, 67, 71, 73, 79, 83,
     89, 97]"
  "filter no_small_factor [100..199] =
    [101, 103, 107, 109, 113, 127, 131, 137, 139, 149, 151, 157, 163, 167, 173, 179, 181, 191,
     193, 197, 199]"
  "filter no_small_factor [200..299] =
    [211, 223, 227, 229, 233, 239, 241, 251, 257, 263, 269, 271, 277, 281, 283, 293]"
  "filter no_small_factor [300..409] =
    [307, 311, 313, 317, 331, 337, 347, 349, 353, 359, 367, 373, 379, 383, 389, 397, 401, 409]"
  by code_simp+

lemma fips_primes_eq:
  "fips_primes =
    [2, 3, 5, 7, 11, 13, 17, 19, 23, 29, 31, 37, 41, 43, 47, 53, 59, 61, 67, 71, 73, 79, 83,
     89, 97, 101, 103, 107, 109, 113, 127, 131, 137, 139, 149, 151, 157, 163, 167, 173, 179,
     181, 191, 193, 197, 199, 211, 223, 227, 229, 233, 239, 241, 251, 257, 263, 269, 271, 277,
     281, 283, 293, 307, 311, 313, 317, 331, 337, 347, 349, 353, 359, 367, 373, 379, 383, 389,
     397, 401, 409]"
proof -
  have "fips_primes = filter no_small_factor [0..409]"
    unfolding fips_primes_def by (rule filter_cong [OF refl]) (simp add: is_prime_below_441)
  also have "[0..409] = [0..99] @ [100..199] @ [200..299] @ [300..409 :: int]"
    using upto_split2 [of 0 99 409] upto_split2 [of 100 199 409] upto_split2 [of 200 299 409]
    by (simp del: upto_rec_numeral)
  finally show ?thesis by (simp only: filter_append primes_below_410 append.simps)
qed

lemma word_of_int_shift: "(word_of_int (c - 2 ^ 64 * d) :: u64) = word_of_int c"
proof -
  have "c - 2 ^ 64 * d = c + 2 ^ 64 * (- d)" by simp
  then have "(c - 2 ^ 64 * d) mod 2 ^ 64 = c mod 2 ^ 64" by (simp only: mod_mult_self2)
  then have "take_bit LENGTH(64) (c - 2 ^ 64 * d) = take_bit LENGTH(64) c"
    by (simp only: take_bit_eq_mod len_num1 len_bit0 len_bit1 mult_1_right) simp
  then show ?thesis by (simp only: word_of_int_eq_iff)
qed

lemma frac_bits_floor: "frac_bits x = word_of_int \<lfloor>2 ^ 64 * x\<rfloor>"
proof -
  have "2 ^ 64 * frac x = 2 ^ 64 * x - of_int (2 ^ 64 * \<lfloor>x\<rfloor>)"
    by (simp add: frac_def right_diff_distrib)
  then have "\<lfloor>2 ^ 64 * frac x\<rfloor> = \<lfloor>2 ^ 64 * x\<rfloor> - 2 ^ 64 * \<lfloor>x\<rfloor>"
    by (simp only: floor_diff_of_int)
  then show ?thesis
    unfolding frac_bits_def by (simp only: word_of_int_shift)
qed

lemma power_le_base:
  fixes a b :: real
  assumes "a ^ k \<le> b ^ k" "0 \<le> b" "0 < k"
  shows "a \<le> b"
  using assms by (cases k) (auto intro: power_le_imp_le_base)

lemma frac_bits_root:
  assumes "0 < k" "0 \<le> c" "0 \<le> p" "c ^ k \<le> (2 ^ 64) ^ k * p" "(2 ^ 64) ^ k * p < (c + 1) ^ k"
  shows "frac_bits (root k (of_int p)) = word_of_int c"
proof -
  define r where "r = root k (real_of_int p)"
  have r: "0 \<le> r" "r ^ k = of_int p"
    unfolding r_def using assms(1,3) by (simp_all add: real_root_pow_pos2)
  let ?y = "2 ^ 64 * r"
  have y: "0 \<le> ?y" using r(1) by (intro mult_nonneg_nonneg) simp_all
  have yk: "?y ^ k = of_int ((2 ^ 64) ^ k * p)"
    unfolding power_mult_distrib r(2) of_int_mult of_int_power of_int_numeral by (rule refl)
  have "of_int c ^ k \<le> ?y ^ k"
    unfolding yk of_int_power [symmetric] of_int_le_iff by (rule assms(4))
  then have "of_int c \<le> ?y" using y assms(1) by (rule power_le_base)
  moreover have "?y ^ k < of_int (c + 1) ^ k"
    unfolding yk of_int_power [symmetric] of_int_less_iff by (rule assms(5))
  then have "?y < of_int (c + 1)" by (rule power_less_imp_less_base) (use assms(2) in simp)
  then have "?y < of_int c + 1" by (simp only: of_int_add of_int_1)
  ultimately have "\<lfloor>?y\<rfloor> = c" by (rule floor_unique)
  then show ?thesis unfolding frac_bits_floor r_def [symmetric] by (rule arg_cong)
qed

text \<open>A list of constants against the roots, \<open>i\<close> giving the integer part.\<close>

definition root_bits :: "nat \<Rightarrow> (int \<Rightarrow> int) \<Rightarrow> int \<Rightarrow> u64 \<Rightarrow> bool" where
  "root_bits k i p w =
     (let c = 2 ^ 64 * i p + uint w
      in 0 \<le> p \<and> 0 \<le> c \<and> c ^ k \<le> (2 ^ 64) ^ k * p \<and> (2 ^ 64) ^ k * p < (c + 1) ^ k)"

lemma root_bits_frac:
  assumes "root_bits k i p w" "0 < k"
  shows "frac_bits (root k (of_int p)) = w"
proof -
  have c: "frac_bits (root k (of_int p)) = word_of_int (2 ^ 64 * i p + uint w)"
    using assms unfolding root_bits_def Let_def by (intro frac_bits_root) simp_all
  have "2 ^ 64 * i p + uint w = uint w - 2 ^ 64 * - i p" by simp
  then show ?thesis unfolding c by (simp only: word_of_int_shift word_of_int_uint)
qed

definition cube_part :: "int \<Rightarrow> int" where
  "cube_part p = (if p < 8 then 1 else if p < 27 then 2 else if p < 64 then 3 else if p < 125 then 4
     else if p < 216 then 5 else if p < 343 then 6 else 7)"

definition square_part :: "int \<Rightarrow> int" where
  "square_part p = (if p < 4 then 1 else if p < 9 then 2 else if p < 16 then 3 else 4)"

lemma length_fips_primes: "length fips_primes = 80"
  unfolding fips_primes_eq by simp

lemma fips_K_eq:
  assumes "t < 80"
  shows "fips_K t = sha512_K ! t"
proof -
  have "list_all2 (root_bits 3 cube_part) fips_primes sha512_K"
    unfolding fips_primes_eq by code_simp
  then have "root_bits 3 cube_part (fips_primes ! t) (sha512_K ! t)"
    by (rule list_all2_nthD) (simp only: length_fips_primes assms)
  then show ?thesis unfolding fips_K_def by (rule root_bits_frac) simp
qed

definition sha512_IV_list :: "u64 list" where
  "sha512_IV_list = (case sha512_IV of (a, b, c, d, e, f, g, h) \<Rightarrow> [a, b, c, d, e, f, g, h])"

lemma fips_H0_eq:
  assumes "i < 8"
  shows "fips_H0 i = sha512_IV_list ! i"
proof -
  have "list_all2 (root_bits 2 square_part) (take 8 fips_primes) sha512_IV_list"
    unfolding fips_primes_eq by code_simp
  then have "root_bits 2 square_part (take 8 fips_primes ! i) (sha512_IV_list ! i)"
    by (rule list_all2_nthD) (simp add: length_fips_primes assms)
  then have "root_bits 2 square_part (fips_primes ! i) (sha512_IV_list ! i)"
    using assms by (simp only: nth_take)
  then show ?thesis unfolding fips_H0_def sqrt_def by (rule root_bits_frac) simp
qed

section \<open>The functions, the schedule and the rounds\<close>

lemma mod_nat_sub: "64 \<le> m \<Longrightarrow> m < 128 \<Longrightarrow> m mod 64 = m - (64 :: nat)"
  by (simp add: mod_nat_eqI)

lemma word_rotr_ROTR:
  assumes "0 < k" "k < 64"
  shows "word_rotr k x = ROTR x k"
proof (rule bit_word_eqI)
  fix n
  assume "n < LENGTH(64)"
  then have n: "n < 64" by simp
  have r: "bit (word_rotr k x) n = bit x ((n + k) mod 64)"
    using n by (simp add: bit_word_rotr_iff)
  have R: "bit (ROTR x k) n = (bit x (k + n) \<or> 64 - k \<le> n \<and> bit x (n - (64 - k)))"
    using n by (simp add: ROTR_def bit_or_iff bit_drop_bit_eq bit_push_bit_iff)
  show "bit (word_rotr k x) n = bit (ROTR x k) n"
  proof (cases "n + k < 64")
    case True
    then have "\<not> 64 - k \<le> n" "(n + k) mod 64 = k + n" by simp_all
    then show ?thesis unfolding r R by (simp add: add.commute)
  next
    case False
    then have "64 - k \<le> n" "(n + k) mod 64 = n - (64 - k)"
      using n assms mod_nat_sub [of "n + k"] by simp_all
    moreover have "\<not> bit x (k + n)"
      using False bit_imp_le_length [of x "k + n"] by auto
    ultimately show ?thesis unfolding r R by simp
  qed
qed

lemma fips_functions:
  "fips_Ch = Ch" "fips_Maj = Maj" "fips_Sigma0 = Sigma0" "fips_Sigma1 = Sigma1"
  "fips_sigma0 = sigma0" "fips_sigma1 = sigma1"
  by (simp_all add: fun_eq_iff fips_Ch_def Ch_def fips_Maj_def Maj_def fips_Sigma0_def Sigma0_def
      fips_Sigma1_def Sigma1_def fips_sigma0_def sigma0_def fips_sigma1_def sigma1_def
      word_rotr_ROTR)

lemma fips_W_schedule:
  assumes "\<And>t. t < 16 \<Longrightarrow> M t = m ! t"
  shows "fips_W M t = schedule m t"
proof (induction t rule: less_induct)
  case (less t)
  show ?case
  proof (cases "t < 16")
    case True
    then show ?thesis using assms by (simp add: fips_W.simps [of M t] schedule.simps [of m t])
  next
    case False
    then show ?thesis
      using less [of "t - 2"] less [of "t - 7"] less [of "t - 15"] less [of "t - 16"]
      by (simp add: fips_W.simps [of M t] schedule.simps [of m t] fips_functions)
  qed
qed

text \<open>The numbered variables of the standard against the eight variables of the code.\<close>

fun vars_at :: "vars \<Rightarrow> nat \<Rightarrow> u64" where
  "vars_at (a, b, c, d, e, f, g, h) i = [a, b, c, d, e, f, g, h] ! i"

definition same_vars :: "(nat \<Rightarrow> u64) \<Rightarrow> vars \<Rightarrow> bool" where
  "same_vars H v = (\<forall>i < 8. H i = vars_at v i)"

lemma all_below_8:
  "(\<forall>i < 8. P i) = (P 0 \<and> P 1 \<and> P 2 \<and> P 3 \<and> P 4 \<and> P 5 \<and> P 6 \<and> P (7 :: nat))"
  by (simp add: numeral_eq_Suc All_less_Suc2)

lemma same_vars_tuple:
  "same_vars H (a, b, c, d, e, f, g, h) =
    (H 0 = a \<and> H 1 = b \<and> H 2 = c \<and> H 3 = d \<and> H 4 = e \<and> H 5 = f \<and> H 6 = g \<and> H 7 = h)"
  by (simp add: same_vars_def all_below_8)

lemma same_vars_round:
  assumes "same_vars H v" "t < 80"
  shows "same_vars (fips_round W H t) (sha512_round v (W t) (sha512_K ! t))"
  using assms
  by (cases v rule: vars_bytes.cases)
    (simp add: same_vars_tuple fips_round_def Let_def fips_functions fips_K_eq ac_simps)

lemma same_vars_rounds:
  assumes "same_vars H v" "\<forall>t \<in> set ts. t < 80"
  shows "same_vars (foldl (fips_round W) H ts)
    (foldl (\<lambda>v t. sha512_round v (W t) (sha512_K ! t)) v ts)"
  using assms
proof (induction ts arbitrary: H v)
  case (Cons t ts)
  then have "same_vars (fips_round W H t) (sha512_round v (W t) (sha512_K ! t))"
    by (intro same_vars_round) simp_all
  with Cons show ?case by (simp del: sha512_round.simps)
qed simp

lemma same_vars_add:
  "same_vars H v \<Longrightarrow> same_vars H' v' \<Longrightarrow> same_vars (\<lambda>i. H i + H' i) (vars_add v v')"
  by (cases v rule: vars_bytes.cases; cases v' rule: vars_bytes.cases) (simp add: same_vars_tuple)

lemma same_vars_block:
  assumes "same_vars H v" "\<And>t. t < 16 \<Longrightarrow> M t = m ! t"
  shows "same_vars (fips_block H M) (compress_spec v m)"
proof -
  have "fips_W M = schedule m" using fips_W_schedule assms(2) by blast
  then show ?thesis unfolding fips_block_def compress_spec_def
    using same_vars_rounds [OF assms(1), of "[0..<80]" "schedule m"] assms(1)
    by (simp add: same_vars_add)
qed

section \<open>The digest\<close>

lemma nth_be_words: "t < n \<Longrightarrow> be_words n bs ! t = be_word (take 8 (drop (8 * t) bs))"
proof (induction n arbitrary: t bs)
  case (Suc n)
  then show ?case by (cases t) (simp_all add: add.commute)
qed simp

lemma same_vars_fold:
  assumes "same_vars H v" "length x = 128 * n"
    and "\<And>i t. i < n \<Longrightarrow> t < 16 \<Longrightarrow> M i t = be_word (take 8 (drop (128 * i + 8 * t) x))"
  shows "same_vars (foldl fips_block H (map M [0..<n])) (sha512_fold v x)"
  using assms
proof (induction n arbitrary: H v x M)
  case 0
  then show ?case by (simp add: sha512_fold.simps)
next
  case (Suc n)
  have "M 0 t = be_words 16 (take 128 x) ! t" if "t < 16" for t
    using Suc.prems(3) [of 0 t] that
    by (simp add: nth_be_words drop_take min_absorb1)
  with Suc.prems(1) have "same_vars (fips_block H (M 0)) (compress_spec v (be_words 16 (take 128 x)))"
    by (intro same_vars_block)
  moreover have "length (drop 128 x) = 128 * n" using Suc.prems(2) by simp
  moreover have "M (Suc i) t = be_word (take 8 (drop (128 * i + 8 * t) (drop 128 x)))"
    if "i < n" "t < 16" for i t
    using Suc.prems(3) [of "Suc i" t] that by (simp add: add.commute add.left_commute)
  ultimately have "same_vars (foldl fips_block (fips_block H (M 0)) (map (M \<circ> Suc) [0..<n]))
      (sha512_fold (compress_spec v (be_words 16 (take 128 x))) (drop 128 x))"
    by (intro Suc.IH) simp_all
  moreover have "map M [0..<Suc n] = M 0 # map (M \<circ> Suc) [0..<n]"
    by (simp add: upt_conv_Cons map_Suc_upt [symmetric] comp_def del: upt_Suc)
  ultimately show ?case
    using Suc.prems(2) by (subst sha512_fold.simps) simp
qed

lemma sha512_pad_blocks: "length (sha512_pad m) = 128 * (length (sha512_pad m) div 128)"
proof -
  define l where "l = length m"
  have "128 dvd 256 + 128 * (l div 128)" by simp
  moreover have "l mod 128 < 128" "128 * (l div 128) + l mod 128 = l" by simp_all
  then have "l + 17 + (239 - l mod 128) = 256 + 128 * (l div 128)" by linarith
  ultimately have "(l + 17 + (239 - l mod 128)) mod 128 = 0" by (simp only: dvd_eq_mod_eq_0)
  then have "(l + 17 + (239 - l mod 128) mod 128) mod 128 = 0" by (simp only: mod_add_right_eq)
  then have "128 dvd length (sha512_pad m)"
    by (simp only: sha512_pad_def length_append length_replicate length_be_bytes list.size l_def
        dvd_eq_mod_eq_0) (simp add: ac_simps)
  then show ?thesis by simp
qed

lemma same_vars_digest:
  "same_vars H v \<Longrightarrow> concat (map (\<lambda>i. be_bytes 8 (unat (H i))) [0..<8]) = vars_bytes v"
proof (cases v rule: vars_bytes.cases)
  fix a b c d e f g h
  assume H: "same_vars H v" and v: "v = (a, b, c, d, e, f, g, h)"
  have "[0..<8] = [0, 1, 2, 3, 4, 5, 6, 7 :: nat]" by code_simp
  then show ?thesis
    using H [unfolded v same_vars_tuple] unfolding v vars_bytes.simps by (simp only: list.map)
qed

lemma fips_sha512_spec: "fips_sha512 m = sha512_spec m"
proof -
  have "same_vars fips_H0 sha512_IV"
    by (simp add: same_vars_def fips_H0_eq sha512_IV_list_def sha512_IV_def)
  then have "same_vars (foldl fips_block fips_H0
      (map (fips_message m) [0..<length (sha512_pad m) div 128])) (sha512_fold sha512_IV (sha512_pad m))"
    by (rule same_vars_fold [OF _ sha512_pad_blocks]) (simp add: fips_message_def)
  then show ?thesis
    unfolding fips_sha512_def Let_def sha512_spec_def by (rule same_vars_digest)
qed

section \<open>Properties\<close>

text \<open>
  C5: crypto_hash_sha512 of nacl_sha512 computes SHA-512 as FIPS 180-4 defines it. The standard is
  stated on its own: its functions, its constants as the fractional bits of roots of primes, its
  schedule and rounds; the unrolled rounds with the rolling window of sixteen words, the constant
  tables of blocks.c and hash.c, the copied remainder and the two padding branches give the same
  64 bytes, for every message whose length fits 64 bits.
\<close>

theorem crypto_hash_sha512_fips:
  assumes "length m < 2 ^ 64"
  shows "crypto_hash_sha512 m = fips_sha512 m \<and> length (crypto_hash_sha512 m) = 64"
  using crypto_hash_sha512_correct [OF assms] by (simp add: fips_sha512_spec sha512_spec_def)

theorem crypto_hash_sha512_fips_witness:
  "crypto_hash_sha512 (replicate 200 97) = fips_sha512 (replicate 200 97)"
proof -
  have "length (replicate 200 (97 :: u8)) < 2 ^ 64" by simp
  from crypto_hash_sha512_fips [OF this] show ?thesis by blast
qed

end
