(* ===== verification/Spec2Isabelle.thy ===== *)
theory Spec2Isabelle
  imports Sign_Verify Fips_180
begin

text \<open>
  Verification of the C core of Curve25519Kit, the library under
  Signal-iOS/Pods/Curve25519Kit/Sources that the Signal application uses for its keys and
  signatures. Paths below are relative to src/Signal-iOS/Pods/Curve25519Kit/Sources.

  The program. ed25519/ has four layers: field elements modulo p = 2^255-19 as ten signed
  limbs of alternately 26 and 25 bits (fe\_*.c), points of the twisted Edwards curve in five
  coordinate systems (ge\_*.c), scalars modulo the group order l (sc\_*.c) and SHA-512
  (nacl\_sha512). sign.c, open.c and additions/ put them together into Ed25519 signatures and
  the signatures with Curve25519 keys that Signal uses (curve\_sigs.c).
  Curve25519/curve25519-donna.c is a second field implementation on ten 64-bit limbs and the
  Montgomery ladder of the key agreement on it. The functions keep no
  state between calls; each writes through output pointers, which the model returns.

  The theories.
  \<^item> Crypto\_Prelude: signed and unsigned words as integers, little-endian byte lists.
  \<^item> Limb\_Machine: limb arrays and the statements all the reductions consist of (a carry
    with its rounding, a borrow, a fold); their runs on words, on integers and on intervals. A run whose
    intervals fit the word is exact and preserves the value of the array (locale
    limb\_program).
  \<^item> Fe, Fe\_Mul, Fe\_Bytes: a field element is the list of its limbs. fe\_add.c, fe\_sub.c,
    fe\_neg.c, fe\_cmov.c, fe\_mul.c, fe\_sq.c, fe\_sq2.c, fe\_frombytes.c, fe\_tobytes.c,
    fe\_isnegative.c, fe\_isnonzero.c and additions/compare.c, each with the bound its comment
    states for the limbs and its value modulo p.
  \<^item> Gf, Field\_Ops, Fe\_Pow: residues as a ring type; the locale field\_ops states what a
    field implementation promises when sums are not carried (how many terms may be summed
    before a product); its rules give fe\_invert.c and fe\_pow22523.c.
  \<^item> Edwards, Ge: the addition law of the curve in extended coordinates and its proof
    obligations over the ring; the records of ge.h and every ge\_*.c operation as a
    refinement of them, encoding and decoding included.
  \<^item> Ge\_Scalarmult, Ge\_Base: ge\_scalarmult\_base.c and ge\_double\_scalarmult.c, with their
    signed-digit recodings as loops on digit lists, for any table; base.h and base2.h.
  \<^item> Sc: sc\_reduce.c and sc\_muladd.c as runs of the limb machine.
  \<^item> Sha512: the unrolled code of nacl\_sha512 and the same hash over a whole schedule, with
    the macros and constants of blocks.c.
  \<^item> Fips\_180: FIPS 180-4 written from the standard, with its constants defined as fractional
    bits of square and cube roots of the first primes, and the equality with nacl\_sha512.
  \<^item> Ed25519\_Sign: sign.c, open.c, additions/sign\_modified.c, additions/curve\_sigs.c. A
    buffer is a byte list, a function takes the old contents and returns the new; malloc is
    an argument that is None when it fails.
  \<^item> Clamp: the masks that make a 32-byte secret a scalar.
  \<^item> Donna\_Field, Donna\_Bytes, Donna: curve25519-donna.c. Its field functions are a second
    interpretation of field\_ops, freduce\_coefficients and the passes of fcontract are runs
    of the limb machine, and cmult is a record of its eight arrays in which the exchange of
    pointers is an exchange of fields. x25519 is the function of RFC 7748 over the ring; like the code it runs
    256 rounds instead of 255, the first of which sees the cleared top bit of the scalar.
  \<^item> Octal, Octal\_Power, Primality, Prime\_25519: arithmetic on octal literals that the
    simplifier evaluates digit by digit, and with it a chain of primality certificates
    (an element whose powers show that a large factor of n - 1 divides the order of every
    prime factor) that ends in p = 2^255-19.
  \<^item> Gf\_Field, Edwards\_Group: as p is prime, the residues are an instance of the class
    field and the constant d is not a square; so the affine points of the curve, a type of
    their own, are an instance of the class ab\_group\_add. No formula has an exception.
  \<^item> Base\_Point, Ladder: the base point as an element of the group; the ladder of x25519
    computes u coordinates of multiples of a point, which gives curve25519-donna its meaning
    and the key agreement its symmetry.
  \<^item> Multiples, Table\_Check, Base\_Table, Base\_Group: the points that coordinates stand for;
    a checker that compares each entry of base.h and base2.h with the sum of two others, its
    evaluation on all 264 entries, and the scalar multiplications on these tables as
    multiples in the group.
  \<^item> Point\_Codec: the encoding determines the point, decoding inverts it and accepts exactly
    the strings with a point of their y, because the square-root candidate of ge\_frombytes.c is
    a root up to the factor it tries whenever there is one.
  \<^item> Prime\_Order, Base\_Order: l is prime, and l B is the neutral point.
  \<^item> Sign\_Verify: signatures made by the library verify under the public key of their
    secret; for the Curve25519 keys this composes curve25519\_sign, curve25519\_verify and
    curve25519\_donna. A clamped secret never gives the neutral point, as l is prime.

  What the lemmas show. Each arithmetic routine returns the right residue and limbs within
  the bound the next routine needs, so that no intermediate overflows anywhere in a point
  formula; the point routines compute the group law; the scalar multiplications compute the
  linear combination their digits stand for, which is that of the scalars when these are below
  2^255 (slide loses a carry for some that are not);
  the ladder is the one of RFC 7748, for every secret and every base point;
  the hash is SHA-512 of FIPS 180-4; the signing functions leave exactly the algorithm's signature in their
  buffers and the verifying functions accept exactly when the algorithm does, with the
  output zeroed on every failure; and every signature the library makes is one it accepts.

  Conventions. A C int or crypto\_int32 is a 32-bit word, crypto\_int64 a 64-bit word and an
  unsigned char an 8-bit word, with the signed operations read through sint; limb arrays and
  buffers are lists of the length C gives them. Loops with a fixed count are folds, loops on
  a remaining length are recursive functions with a measure, so no fuel is used. A shift of a
  negative signed value is modelled as compilers implement it, an arithmetic shift.

  Not modelled. The second SHA-512
  in ed25519/sha512, which the project does not compile; the Objective-C classes around the C
  functions; all other pods and the applications, which are user interface, network and
  database code or third-party libraries. Constant-time behaviour and the clearing of
  dead stack memory are outside a functional model.
\<close>

end
